(* ===== verification/Prelude.thy ===== *)
theory Prelude
  imports Main "HOL-Library.Word"
begin

text \<open>
  Shared vocabulary of the development.

  \<^item> C integer types as words, and the constants of \<open>kernel/param.h\<close> and
    \<open>kernel/riscv.h\<close> that several components use;
  \<^item> the outcome monad: kernel code runs on a state and returns, panics, gives up the
    CPU through \<open>sched\<close>, or spins;
  \<^item> a weakest-precondition reading of that monad, whose equations are collected in
    \<open>wp_simps\<close> so that the simplifier generates the verification conditions;
  \<^item> the loop combinators that stand for the C \<open>for\<close> loops over fixed tables.
\<close>

unbundle bit_operations_syntax

named_theorems keeps_intros
named_theorems wp_simps "equations that compute weakest preconditions"
named_theorems frame_simps "fields that an operation leaves unchanged"

section \<open>Machine types and constants\<close>

type_synonym u8 = "8 word"
type_synonym u16 = "16 word"
type_synonym u32 = "32 word"
type_synonym u64 = "64 word"
type_synonym addr = "64 word"
type_synonym bytes = "u8 list"

definition PGSIZE :: nat where
  "PGSIZE = 4096"

definition NPROC :: nat where
  "NPROC = 64"

definition NCPU :: nat where
  "NCPU = 8"

definition NOFILE :: nat where
  "NOFILE = 16"

definition NFILE :: nat where
  "NFILE = 100"

definition NINODE :: nat where
  "NINODE = 50"

definition NDEV :: nat where
  "NDEV = 10"

definition ROOTDEV :: u32 where
  "ROOTDEV = 1"

definition MAXARG :: nat where
  "MAXARG = 32"

definition MAXOPBLOCKS :: nat where
  "MAXOPBLOCKS = 10"

definition LOGSIZE :: nat where
  "LOGSIZE = MAXOPBLOCKS * 3"

definition NBUF :: nat where
  "NBUF = MAXOPBLOCKS * 3"

definition MAXPATH :: nat where
  "MAXPATH = 128"

definition USERSTACK :: nat where
  "USERSTACK = 1"

section \<open>The outcome of running kernel code\<close>

text \<open>
  \<open>Ret a s\<close>: the code returned \<open>a\<close>. \<open>Panic m\<close>: it called \<open>panic(m)\<close>.
  \<open>Switch s\<close>: it called \<open>sched()\<close>, which handed the CPU to the scheduler in state
  \<open>s\<close>; what the thread does when it is resumed is a new run. \<open>Spin s\<close>: it is in a
  busy-wait loop that only another CPU or a device can end.
\<close>

datatype ('s, 'a) outcome =
    Ret 'a 's
  | Panic string
  | Switch 's
  | Spin 's

type_synonym ('s, 'a) prog = "'s \<Rightarrow> ('s, 'a) outcome"

definition ret :: "'a \<Rightarrow> ('s, 'a) prog" where
  "ret a = (\<lambda>s. Ret a s)"

definition bind :: "('s, 'a) prog \<Rightarrow> ('a \<Rightarrow> ('s, 'b) prog) \<Rightarrow> ('s, 'b) prog" where
  "bind m f = (\<lambda>s. case m s of
      Ret a t \<Rightarrow> f a t
    | Panic e \<Rightarrow> Panic e
    | Switch t \<Rightarrow> Switch t
    | Spin t \<Rightarrow> Spin t)"

definition panic :: "string \<Rightarrow> ('s, 'a) prog" where
  "panic e = (\<lambda>s. Panic e)"

definition spin :: "('s, 'a) prog" where
  "spin = (\<lambda>s. Spin s)"

definition switch :: "('s, 'a) prog" where
  "switch = (\<lambda>s. Switch s)"

definition gets :: "('s \<Rightarrow> 'a) \<Rightarrow> ('s, 'a) prog" where
  "gets f = (\<lambda>s. Ret (f s) s)"

definition modify :: "('s \<Rightarrow> 's) \<Rightarrow> ('s, unit) prog" where
  "modify f = (\<lambda>s. Ret () (f s))"

definition only_if :: "bool \<Rightarrow> ('s, unit) prog \<Rightarrow> ('s, unit) prog" where
  "only_if b m = (if b then m else ret ())"

lemmas prog_defs = ret_def panic_def spin_def switch_def gets_def modify_def

lemma bind_ret [simp]: "bind (ret a) f = f a"
  by (simp add: bind_def ret_def)

lemma bind_ret_right [simp]: "bind m ret = m"
  by (rule ext) (simp add: bind_def ret_def split: outcome.split)

lemma bind_assoc: "bind (bind m f) g = bind m (\<lambda>a. bind (f a) g)"
  by (rule ext) (simp add: bind_def split: outcome.split)

lemma bind_Ret_iff:
  "bind m f s = Ret b u \<longleftrightarrow> (\<exists>a t. m s = Ret a t \<and> f a t = Ret b u)"
  by (simp add: bind_def split: outcome.split)

lemma bind_step [simp]: "m s = Ret a t \<Longrightarrow> bind m f s = f a t"
  by (simp add: bind_def)

lemma bind_panic_step [simp]: "m s = Panic e \<Longrightarrow> bind m f s = Panic e"
  by (simp add: bind_def)

lemma bind_switch_step [simp]: "m s = Switch t \<Longrightarrow> bind m f s = Switch t"
  by (simp add: bind_def)

lemma bind_spin_step [simp]: "m s = Spin t \<Longrightarrow> bind m f s = Spin t"
  by (simp add: bind_def)

text \<open>Running the primitives, for evaluation on a concrete state.\<close>

lemma run_simps:
  "ret a s = Ret a s" "panic e s = Panic e" "spin s = Spin s" "switch s = Switch s"
  "gets f s = Ret (f s) s" "modify g s = Ret () (g s)"
  "only_if b m s = (if b then m s else Ret () s)"
  by (simp_all add: prog_defs only_if_def)

section \<open>Weakest preconditions\<close>

text \<open>
  \<open>wp m Q s\<close>: started in \<open>s\<close>, the code \<open>m\<close> returns and its result satisfies
  \<open>Q\<close> (total correctness: no panic, no context switch, no spinning).
  \<open>nopanic m Q s\<close>: it does not panic, and \<open>Q\<close> holds if it returns.
\<close>

definition wp :: "('s, 'a) prog \<Rightarrow> ('a \<Rightarrow> 's \<Rightarrow> bool) \<Rightarrow> 's \<Rightarrow> bool" where
  "wp m Q s \<longleftrightarrow> (case m s of Ret a t \<Rightarrow> Q a t | _ \<Rightarrow> False)"

definition nopanic :: "('s, 'a) prog \<Rightarrow> ('a \<Rightarrow> 's \<Rightarrow> bool) \<Rightarrow> 's \<Rightarrow> bool" where
  "nopanic m Q s \<longleftrightarrow> (case m s of Ret a t \<Rightarrow> Q a t | Panic e \<Rightarrow> False | _ \<Rightarrow> True)"

lemma wp_ret [wp_simps]: "wp (ret a) Q s = Q a s"
  by (simp add: wp_def run_simps)

lemma wp_bind [wp_simps]: "wp (bind m f) Q s = wp m (\<lambda>a. wp (f a) Q) s"
  by (simp add: wp_def bind_def split: outcome.split)

lemma wp_gets [wp_simps]: "wp (gets f) Q s = Q (f s) s"
  by (simp add: wp_def run_simps)

lemma wp_modify [wp_simps]: "wp (modify f) Q s = Q () (f s)"
  by (simp add: wp_def run_simps)

lemma wp_panic [wp_simps]: "wp (panic e) Q s = False"
  by (simp add: wp_def run_simps)

lemma wp_only_if [wp_simps]: "wp (only_if b m) Q s = (if b then wp m Q s else Q () s)"
  by (simp add: only_if_def wp_ret)

lemma wp_if [wp_simps]: "wp (if b then m else n) Q s = (if b then wp m Q s else wp n Q s)"
  by simp

lemma wp_mono: "wp m P s \<Longrightarrow> (\<And>a t. P a t \<Longrightarrow> Q a t) \<Longrightarrow> wp m Q s"
  by (simp add: wp_def split: outcome.splits)

lemma wp_conj: "wp m P s \<Longrightarrow> wp m Q s \<Longrightarrow> wp m (\<lambda>a t. P a t \<and> Q a t) s"
  by (simp add: wp_def split: outcome.splits)

lemma wp_iff: "wp m Q s \<longleftrightarrow> (\<exists>a t. m s = Ret a t \<and> Q a t)"
  by (simp add: wp_def split: outcome.split)

lemma wp_RetD: "wp m Q s \<Longrightarrow> m s = Ret a t \<Longrightarrow> Q a t"
  by (simp add: wp_def run_simps)

lemma wpE:
  assumes "wp m Q s"
  obtains a t where "m s = Ret a t" "Q a t"
  using assms by (auto simp: wp_iff)

lemma wp_nopanic: "wp m Q s \<Longrightarrow> nopanic m Q s"
  by (simp add: wp_def nopanic_def split: outcome.splits)

text \<open>
  \<open>ends m Q R s\<close>: if \<open>m\<close> returns then \<open>Q\<close> holds of its result, and if it switches
  then \<open>R\<close> holds of the state it leaves (partial correctness, for invariants of threads
  that may panic, spin or give up the CPU anywhere).
\<close>

definition ends :: "('s, 'a) prog \<Rightarrow> ('a \<Rightarrow> 's \<Rightarrow> bool) \<Rightarrow> ('s \<Rightarrow> bool) \<Rightarrow> 's \<Rightarrow> bool" where
  "ends m Q R s \<longleftrightarrow> (case m s of Ret a t \<Rightarrow> Q a t | Switch t \<Rightarrow> R t | _ \<Rightarrow> True)"

lemma ends_simps [wp_simps]:
  "ends (ret a) Q R s = Q a s"
  "ends (bind n f) P R s = ends n (\<lambda>b. ends (f b) P R) R s"
  "ends (gets g) Q' R s = Q' (g s) s"
  "ends (modify h) Q'' R s = Q'' () (h s)"
  "ends (panic e) Q R s" "ends spin Q R s"
  "ends switch Q R s = R s"
  "ends (only_if b k) Q'' R s = (if b then ends k Q'' R s else Q'' () s)"
  "ends (if b then m else m') Q R s = (if b then ends m Q R s else ends m' Q R s)"
  by (simp_all add: ends_def run_simps bind_def only_if_def split: outcome.split)

lemma ends_mono:
  assumes "ends m P S s" "\<And>a t. P a t \<Longrightarrow> Q a t" "\<And>t. S t \<Longrightarrow> R t"
  shows "ends m Q R s"
  using assms by (auto simp: ends_def split: outcome.splits)

lemma ends_RetD: "ends m Q R s \<Longrightarrow> m s = Ret a t \<Longrightarrow> Q a t"
  by (simp add: ends_def)

lemma ends_SwitchD: "ends m Q R s \<Longrightarrow> m s = Switch t \<Longrightarrow> R t"
  by (simp add: ends_def)

lemma wp_ends: "wp m Q s \<Longrightarrow> ends m Q R s"
  by (simp add: wp_def ends_def split: outcome.splits)

section \<open>Loops over fixed tables\<close>

text \<open>
  \<open>for_each xs body\<close> is a \<open>for\<close> loop with no early exit. \<open>for_until xs body\<close> is one
  whose body may leave the loop: \<open>Some r\<close> breaks (or jumps out) with \<open>r\<close>,
  \<open>None\<close> goes on; the loop itself gives \<open>None\<close> when it runs to its end.
\<close>

fun for_each :: "'x list \<Rightarrow> ('x \<Rightarrow> ('s, unit) prog) \<Rightarrow> ('s, unit) prog" where
  "for_each [] body = ret ()"
| "for_each (x # xs) body = bind (body x) (\<lambda>_. for_each xs body)"

fun for_until :: "'x list \<Rightarrow> ('x \<Rightarrow> ('s, 'r option) prog) \<Rightarrow> ('s, 'r option) prog" where
  "for_until [] body = ret None"
| "for_until (x # xs) body = bind (body x) (\<lambda>r. case r of
      None \<Rightarrow> for_until xs body
    | Some v \<Rightarrow> ret (Some v))"

text \<open>\<open>for_fold xs a body\<close> is a \<open>for\<close> loop that carries a local variable along.\<close>

fun for_fold :: "'x list \<Rightarrow> 'a \<Rightarrow> ('x \<Rightarrow> 'a \<Rightarrow> ('s, 'a) prog) \<Rightarrow> ('s, 'a) prog" where
  "for_fold [] a body = ret a"
| "for_fold (x # xs) a body = bind (body x a) (\<lambda>b. for_fold xs b body)"

text \<open>Invariant rules: \<open>I done todo\<close> relates the elements visited to those still ahead.\<close>

lemma wp_for_each_inv:
  assumes "I [] xs s"
    and "\<And>ys x zs t. xs = ys @ x # zs \<Longrightarrow> I ys (x # zs) t \<Longrightarrow>
           wp (body x) (\<lambda>_. I (ys @ [x]) zs) t"
  shows "wp (for_each xs body) (\<lambda>_. I xs []) s"
proof -
  have "I ys zs t \<Longrightarrow> xs = ys @ zs \<Longrightarrow> wp (for_each zs body) (\<lambda>_. I xs []) t" for ys zs t
  proof (induction zs arbitrary: ys t)
    case Nil
    then show ?case by (simp add: wp_ret)
  next
    case (Cons z zs)
    have "wp (body z) (\<lambda>_. I (ys @ [z]) zs) t"
      using Cons.prems assms(2) by blast
    moreover have "wp (for_each zs body) (\<lambda>_. I xs []) u" if "I (ys @ [z]) zs u" for u
      using that Cons.prems(2) by (intro Cons.IH) simp_all
    ultimately show ?case by (simp add: wp_bind wp_mono)
  qed
  from this[of "[]" xs s] assms(1) show ?thesis by simp
qed

lemma wp_for_until_inv:
  assumes "I [] xs s"
    and "\<And>ys x zs t. xs = ys @ x # zs \<Longrightarrow> I ys (x # zs) t \<Longrightarrow>
           wp (body x) (\<lambda>r u. case r of None \<Rightarrow> I (ys @ [x]) zs u | Some v \<Rightarrow> Q (Some v) u) t"
    and "\<And>t. I xs [] t \<Longrightarrow> Q None t"
  shows "wp (for_until xs body) Q s"
proof -
  have "I ys zs t \<Longrightarrow> xs = ys @ zs \<Longrightarrow> wp (for_until zs body) Q t" for ys zs t
  proof (induction zs arbitrary: ys t)
    case Nil
    then show ?case by (simp add: wp_ret assms(3))
  next
    case (Cons z zs)
    have "wp (body z) (\<lambda>r u. case r of None \<Rightarrow> I (ys @ [z]) zs u | Some v \<Rightarrow> Q (Some v) u) t"
      using Cons.prems assms(2) by blast
    moreover have "wp (for_until zs body) Q u" if "I (ys @ [z]) zs u" for u
      using that Cons.prems(2) by (intro Cons.IH) simp_all
    ultimately show ?case
      by (auto simp: wp_bind wp_ret elim!: wp_mono split: option.splits)
  qed
  from this[of "[]" xs s] assms(1) show ?thesis by simp
qed

lemma ends_for_each:
  assumes "I s" "\<And>x t. x \<in> set xs \<Longrightarrow> I t \<Longrightarrow> ends (body x) (\<lambda>_. I) R t"
  shows "ends (for_each xs body) (\<lambda>_. I) R s"
  using assms
proof (induction xs arbitrary: s)
  case (Cons x xs)
  have "ends (body x) (\<lambda>_. I) R s" using Cons.prems by simp
  then show ?case unfolding for_each.simps ends_simps
    by (rule ends_mono) (use Cons in \<open>auto simp: ends_simps\<close>)
qed (simp add: ends_simps)

lemma ends_for_until:
  assumes "I s" "\<And>x t. x \<in> set xs \<Longrightarrow> I t \<Longrightarrow> ends (body x) (\<lambda>_. I) R t"
  shows "ends (for_until xs body) (\<lambda>_. I) R s"
  using assms
proof (induction xs arbitrary: s)
  case (Cons x xs)
  have "ends (body x) (\<lambda>_. I) R s" using Cons.prems by simp
  then show ?case unfolding for_until.simps ends_simps
    by (rule ends_mono) (use Cons in \<open>auto simp: ends_simps split: option.split\<close>)
qed (simp add: ends_simps)

lemma ends_for_fold:
  assumes "I s" "\<And>x a t. x \<in> set xs \<Longrightarrow> I t \<Longrightarrow> ends (body x a) (\<lambda>_. I) R t"
  shows "ends (for_fold xs a body) (\<lambda>_. I) R s"
  using assms
proof (induction xs arbitrary: s a)
  case (Cons x xs)
  have "ends (body x a) (\<lambda>_. I) R s" using Cons.prems by simp
  then show ?case unfolding for_fold.simps ends_simps
    by (rule ends_mono) (use Cons in \<open>auto simp: ends_simps\<close>)
qed (simp add: ends_simps)

section \<open>Frames\<close>

text \<open>
  \<open>keeps f m\<close>: whenever \<open>m\<close> returns or switches, the part \<open>f\<close> of the state is
  what it was. The rules follow the shape of the code and are collected in
  \<open>keeps_intros\<close>.
\<close>

definition keeps :: "('s \<Rightarrow> 'o) \<Rightarrow> ('s, 'a) prog \<Rightarrow> bool" where
  "keeps f m \<longleftrightarrow> (\<forall>s. ends m (\<lambda>_ t. f t = f s) (\<lambda>t. f t = f s) s)"

lemma keepsD: "keeps f m \<Longrightarrow> m s = Ret a t \<Longrightarrow> f t = f s"
  by (auto simp: keeps_def ends_def split: outcome.splits)

lemma keeps_SwitchD: "keeps f m \<Longrightarrow> m s = Switch t \<Longrightarrow> f t = f s"
  by (auto simp: keeps_def ends_def split: outcome.splits)

lemma keeps_ends:
  assumes "keeps f m" "\<And>a t. f t = f s \<Longrightarrow> Q a t" "\<And>t. f t = f s \<Longrightarrow> R t"
  shows "ends m Q R s"
  using assms by (auto simp: keeps_def intro: ends_mono)

lemma keeps_bind [keeps_intros]:
  assumes "keeps f m" "\<And>a. keeps f (g a)"
  shows "keeps f (bind m g)"
  using assms unfolding keeps_def ends_def bind_def by (fastforce split: outcome.splits)

lemma keeps_prims [keeps_intros]:
  "keeps f (ret a)" "keeps f (panic e)" "keeps f spin" "keeps f switch" "keeps f (gets g)"
  by (simp_all add: keeps_def wp_simps)

lemma keeps_modify [keeps_intros]: "(\<And>s. f (g s) = f s) \<Longrightarrow> keeps f (modify g)"
  by (simp add: keeps_def wp_simps)

lemma keeps_only_if [keeps_intros]: "(b \<Longrightarrow> keeps f m) \<Longrightarrow> keeps f (only_if b m)"
  by (simp add: keeps_def wp_simps)

lemma keeps_if [keeps_intros]:
  "(b \<Longrightarrow> keeps f m) \<Longrightarrow> (\<not> b \<Longrightarrow> keeps f n) \<Longrightarrow> keeps f (if b then m else n)"
  by simp

lemma keeps_option [keeps_intros]:
  "keeps f m \<Longrightarrow> (\<And>a. keeps f (g a)) \<Longrightarrow> keeps f (case r of None \<Rightarrow> m | Some a \<Rightarrow> g a)"
  by (simp split: option.split)

lemma keeps_pair [keeps_intros]:
  "(\<And>a b. keeps f (g a b)) \<Longrightarrow> keeps f (case r of (a, b) \<Rightarrow> g a b)"
  by (simp split: prod.split)

lemma keeps_let [keeps_intros]: "(\<And>a. keeps f (g a)) \<Longrightarrow> keeps f (let a = r in g a)"
  by simp

lemma keeps_for_each [keeps_intros]: "(\<And>x. keeps f (body x)) \<Longrightarrow> keeps f (for_each xs body)"
  by (induction xs) (simp_all add: keeps_intros)

lemma keeps_for_until [keeps_intros]: "(\<And>x. keeps f (body x)) \<Longrightarrow> keeps f (for_until xs body)"
  by (induction xs) (simp_all add: keeps_intros)

lemma keeps_for_fold [keeps_intros]: "(\<And>x a. keeps f (body x a)) \<Longrightarrow> keeps f (for_fold xs a body)"
  by (induction xs arbitrary: a) (simp_all add: keeps_intros)

lemma keeps_comp: "keeps f m \<Longrightarrow> keeps (\<lambda>s. g (f s)) m"
  by (auto simp: keeps_def ends_def split: outcome.splits)

lemma for_fold_pure:
  assumes "\<And>x a t. x \<in> set xs \<Longrightarrow> P t \<Longrightarrow> body x a t = Ret (f t x a) (g t)"
    and "\<And>t. P t \<Longrightarrow> P (g t)" "\<And>t x a. P t \<Longrightarrow> f (g t) x a = f t x a" "\<And>t. P t \<Longrightarrow> g (g t) = g t"
    and "P s"
  shows "for_fold xs a body s = Ret (fold (f s) xs a) (if xs = [] then s else g s)"
  using assms(1)
proof (induction xs arbitrary: a)
  case Nil
  then show ?case by (simp add: run_simps)
next
  case (Cons x xs)
  have same: "for_fold xs b body (g s) = Ret (fold (f s) xs b) (g s)" for b
  proof (cases "xs = []")
    case True
    then show ?thesis by (simp add: run_simps)
  next
    case False
    have "for_fold ys c body (g s) = Ret (fold (f s) ys c) (g s)" if "set ys \<subseteq> set (x # xs)" for ys c
      using that
    proof (induction ys arbitrary: c)
      case Nil
      then show ?case by (simp add: run_simps)
    next
      case (Cons y ys)
      then have "body y c (g s) = Ret (f s y c) (g s)"
        using Cons.prems assms(2-5) \<open>\<And>x' a' t'. x' \<in> set (x # xs) \<Longrightarrow> P t' \<Longrightarrow> body x' a' t' = Ret (f t' x' a') (g t')\<close>[of y "g s" c]
        by simp
      with Cons show ?case by simp
    qed
    then show ?thesis by auto
  qed
  have "body x a s = Ret (f s x a) (g s)" using Cons.prems assms(5) by simp
  with same show ?case by simp
qed

end
