(* ===== verification/Spinlock.thy ===== *)
theory Spinlock
  imports Prelude
begin

text \<open>
  Spin locks and per-CPU interrupt state: \<open>kernel/spinlock.c\<close>, the interrupt part of
  \<open>kernel/riscv.h\<close>, and \<open>cpuid\<close>/\<open>mycpu\<close> of \<open>kernel/proc.c\<close>.

  The record \<open>mach\<close> is what one CPU sees: the locks and the \<open>cpus\<close> array, which are
  shared, and its own \<open>tp\<close> and \<open>sstatus\<close> registers. It is the field \<open>mc\<close> of
  \<open>kbase\<close>, the record that later components extend with their own globals, so their
  code calls \<open>acquire\<close> and \<open>release\<close> directly.

  Results: closed forms of \<open>acquire\<close> and \<open>release\<close>; \<open>push_off\<close> and
  \<open>pop_off\<close> nest; a critical section gives back the locks and the interrupt flag it
  found; and, for any number of CPUs interleaving the individual steps of
  \<open>acquire\<close> and \<open>release\<close>, mutual exclusion.
\<close>

section \<open>State\<close>

text \<open>Sleep locks (\<open>kernel/sleeplock.h\<close>) and the spin locks of the kernel.\<close>

datatype slock = BufLock nat | InodeLock nat

datatype lock =
    KmemLock
  | PidLock
  | WaitLock
  | ProcLock nat
  | TicksLock
  | BcacheLock
  | LogLock
  | ItableLock
  | FtableLock
  | PipeLock addr
  | ConsLock
  | UartTxLock
  | VdiskLock
  | PrLock
  | SleepLk slock

record spinlock =
  locked :: u32
  lname :: string
  lcpu :: "nat option"

record swtch_context =
  c_ra :: u64
  c_sp :: u64
  c_s0 :: u64
  c_s1 :: u64
  c_s2 :: u64
  c_s3 :: u64
  c_s4 :: u64
  c_s5 :: u64
  c_s6 :: u64
  c_s7 :: u64
  c_s8 :: u64
  c_s9 :: u64
  c_s10 :: u64
  c_s11 :: u64

record cpu =
  cproc :: "nat option"
  ccontext :: swtch_context
  noff :: int
  intena :: int

record mach =
  locks :: "lock \<Rightarrow> spinlock"
  cpus :: "nat \<Rightarrow> cpu"
  tp :: u64
  sstatus :: u64

text \<open>\<open>kbase\<close> is the root of the record that holds the kernel's globals.\<close>

record kbase =
  mc :: mach

section \<open>Interrupt flag and CPU identity\<close>

definition SSTATUS_SPP :: u64 where
  "SSTATUS_SPP = push_bit 8 1"

definition SSTATUS_SPIE :: u64 where
  "SSTATUS_SPIE = push_bit 5 1"

definition SSTATUS_SIE :: u64 where
  "SSTATUS_SIE = push_bit 1 1"

definition getm :: "(mach \<Rightarrow> 'a) \<Rightarrow> ('z kbase_scheme, 'a) prog" where
  "getm f = gets (\<lambda>s. f (mc s))"

definition updm :: "(mach \<Rightarrow> mach) \<Rightarrow> ('z kbase_scheme, unit) prog" where
  "updm f = modify (\<lambda>s. s\<lparr>mc := f (mc s)\<rparr>)"

definition intr_on :: "('z kbase_scheme, unit) prog" where
  "intr_on = updm (\<lambda>m. m\<lparr>sstatus := sstatus m OR SSTATUS_SIE\<rparr>)"

definition intr_off :: "('z kbase_scheme, unit) prog" where
  "intr_off = updm (\<lambda>m. m\<lparr>sstatus := sstatus m AND NOT SSTATUS_SIE\<rparr>)"

definition intr_get :: "('z kbase_scheme, int) prog" where
  "intr_get = getm (\<lambda>m. if sstatus m AND SSTATUS_SIE \<noteq> 0 then 1 else 0)"

definition r_tp :: "('z kbase_scheme, u64) prog" where
  "r_tp = getm tp"

definition cpuid :: "('z kbase_scheme, int) prog" where
  "cpuid = bind r_tp (\<lambda>x. ret (sint (ucast x :: u32)))"

definition mycpu :: "('z kbase_scheme, nat) prog" where
  "mycpu = bind cpuid (\<lambda>id. ret (nat id))"

definition upd_cpu :: "nat \<Rightarrow> (cpu \<Rightarrow> cpu) \<Rightarrow> ('z kbase_scheme, unit) prog" where
  "upd_cpu c f = updm (\<lambda>m. m\<lparr>cpus := (cpus m)(c := f (cpus m c))\<rparr>)"

definition upd_lock :: "lock \<Rightarrow> (spinlock \<Rightarrow> spinlock) \<Rightarrow> ('z kbase_scheme, unit) prog" where
  "upd_lock lk f = updm (\<lambda>m. m\<lparr>locks := (locks m)(lk := f (locks m lk))\<rparr>)"

section \<open>The lock operations\<close>

definition initlock :: "lock \<Rightarrow> string \<Rightarrow> ('z kbase_scheme, unit) prog" where
  "initlock lk name = upd_lock lk (\<lambda>_. \<lparr>locked = 0, lname = name, lcpu = None\<rparr>)"

definition push_off :: "('z kbase_scheme, unit) prog" where
  "push_off =
     bind intr_get (\<lambda>old.
     bind intr_off (\<lambda>_.
     bind mycpu (\<lambda>c.
     bind (getm (\<lambda>m. noff (cpus m c))) (\<lambda>n.
     bind (only_if (n = 0) (upd_cpu c (\<lambda>k. k\<lparr>intena := old\<rparr>))) (\<lambda>_.
     upd_cpu c (\<lambda>k. k\<lparr>noff := noff k + 1\<rparr>))))))"

definition pop_off :: "('z kbase_scheme, unit) prog" where
  "pop_off =
     bind mycpu (\<lambda>c.
     bind intr_get (\<lambda>i.
     if i \<noteq> 0 then panic ''pop_off - interruptible''
     else bind (getm (\<lambda>m. noff (cpus m c))) (\<lambda>n.
     if n < 1 then panic ''pop_off''
     else bind (upd_cpu c (\<lambda>k. k\<lparr>noff := noff k - 1\<rparr>)) (\<lambda>_.
     bind (getm (\<lambda>m. cpus m c)) (\<lambda>k.
     only_if (noff k = 0 \<and> intena k \<noteq> 0) intr_on)))))"

definition holding :: "lock \<Rightarrow> ('z kbase_scheme, bool) prog" where
  "holding lk =
     bind mycpu (\<lambda>c.
     getm (\<lambda>m. locked (locks m lk) \<noteq> 0 \<and> lcpu (locks m lk) = Some c))"

text \<open>
  \<open>__sync_lock_test_and_set\<close> is one atomic swap; the loop around it ends only when
  the swap finds 0, which the holder's CPU has to bring about.
\<close>

definition test_and_set :: "lock \<Rightarrow> ('z kbase_scheme, u32) prog" where
  "test_and_set lk =
     bind (getm (\<lambda>m. locked (locks m lk))) (\<lambda>v.
     bind (upd_lock lk (\<lambda>l. l\<lparr>locked := 1\<rparr>)) (\<lambda>_.
     ret v))"

definition acquire :: "lock \<Rightarrow> ('z kbase_scheme, unit) prog" where
  "acquire lk =
     bind push_off (\<lambda>_.
     bind (holding lk) (\<lambda>h.
     if h then panic ''acquire''
     else bind (test_and_set lk) (\<lambda>v.
     if v \<noteq> 0 then spin
     else bind mycpu (\<lambda>c.
     upd_lock lk (\<lambda>l. l\<lparr>lcpu := Some c\<rparr>)))))"

definition release :: "lock \<Rightarrow> ('z kbase_scheme, unit) prog" where
  "release lk =
     bind (holding lk) (\<lambda>h.
     if \<not> h then panic ''release''
     else bind (upd_lock lk (\<lambda>l. l\<lparr>lcpu := None\<rparr>)) (\<lambda>_.
     bind (upd_lock lk (\<lambda>l. l\<lparr>locked := 0\<rparr>)) (\<lambda>_.
     pop_off)))"

section \<open>Closed forms\<close>

text \<open>
  \<open>me\<close> is the index \<open>mycpu()\<close> computes; \<open>intr\<close> the interrupt flag;
  \<open>pushed\<close>, \<open>acq\<close>, \<open>popped\<close> and \<open>rel\<close> are the machines the operations leave.
\<close>

definition me :: "mach \<Rightarrow> nat" where
  "me m = nat (sint (ucast (tp m) :: u32))"

definition intr :: "mach \<Rightarrow> bool" where
  "intr m \<longleftrightarrow> sstatus m AND SSTATUS_SIE \<noteq> 0"

definition mycpu_of :: "mach \<Rightarrow> cpu" where
  "mycpu_of m = cpus m (me m)"

definition pushed :: "mach \<Rightarrow> mach" where
  "pushed m = m\<lparr>sstatus := sstatus m AND NOT SSTATUS_SIE,
     cpus := (cpus m)(me m := (mycpu_of m)\<lparr>
        intena := if noff (mycpu_of m) = 0 then of_bool (intr m) else intena (mycpu_of m),
        noff := noff (mycpu_of m) + 1\<rparr>)\<rparr>"

definition popped :: "mach \<Rightarrow> mach" where
  "popped m = m\<lparr>sstatus := (if noff (mycpu_of m) = 1 \<and> intena (mycpu_of m) \<noteq> 0
                            then sstatus m OR SSTATUS_SIE else sstatus m),
     cpus := (cpus m)(me m := (mycpu_of m)\<lparr>noff := noff (mycpu_of m) - 1\<rparr>)\<rparr>"

definition acq :: "lock \<Rightarrow> mach \<Rightarrow> mach" where
  "acq lk m = (pushed m)\<lparr>locks := (locks m)(lk :=
      (locks m lk)\<lparr>locked := 1, lcpu := Some (me m)\<rparr>)\<rparr>"

definition rel :: "lock \<Rightarrow> mach \<Rightarrow> mach" where
  "rel lk m = popped (m\<lparr>locks := (locks m)(lk :=
      (locks m lk)\<lparr>lcpu := None, locked := 0\<rparr>)\<rparr>)"

definition held :: "lock \<Rightarrow> mach \<Rightarrow> bool" where
  "held lk m \<longleftrightarrow> locked (locks m lk) \<noteq> 0 \<and> lcpu (locks m lk) = Some (me m)"

lemma getm_run: "getm f s = Ret (f (mc s)) s" "updm g s = Ret () (s\<lparr>mc := g (mc s)\<rparr>)"
  by (simp_all add: getm_def updm_def run_simps)

lemma wp_getm [wp_simps]: "wp (getm f) Q s = Q (f (mc s)) s"
  by (simp add: wp_def getm_run)

lemma wp_updm [wp_simps]: "wp (updm f) Q s = Q () (s\<lparr>mc := f (mc s)\<rparr>)"
  by (simp add: wp_def getm_run)

lemma mycpu_run [simp]: "mycpu s = Ret (me (mc s)) s"
  by (simp add: mycpu_def cpuid_def r_tp_def me_def run_simps getm_run bind_def)

lemma wp_mycpu [wp_simps]: "wp mycpu Q s = Q (me (mc s)) s"
  by (simp add: wp_def)

lemma intr_get_run: "intr_get s = Ret (of_bool (intr (mc s))) s"
  by (simp add: intr_get_def intr_def getm_run)

lemma holding_run: "holding lk s = Ret (held lk (mc s)) s"
  by (simp add: holding_def held_def getm_run)

lemma wp_holding [wp_simps]: "wp (holding lk) Q s = Q (held lk (mc s)) s"
  by (simp add: wp_def holding_run)

lemma push_off_run: "push_off s = Ret () (s\<lparr>mc := pushed (mc s)\<rparr>)"
  by (simp add: push_off_def bind_def run_simps getm_run intr_get_run intr_off_def upd_cpu_def
      pushed_def mycpu_of_def me_def intr_def)

lemma pop_off_run:
  "pop_off s = (if intr (mc s) then Panic ''pop_off - interruptible''
     else if noff (mycpu_of (mc s)) < 1 then Panic ''pop_off''
     else Ret () (s\<lparr>mc := popped (mc s)\<rparr>))"
  by (simp add: pop_off_def bind_def run_simps getm_run intr_get_run intr_on_def upd_cpu_def
      popped_def mycpu_of_def)

lemma wp_push_off [wp_simps]: "wp push_off Q s = Q () (s\<lparr>mc := pushed (mc s)\<rparr>)"
  by (simp add: wp_def push_off_run)

lemma wp_pop_off [wp_simps]: "wp pop_off Q s \<longleftrightarrow>
    \<not> intr (mc s) \<and> 1 \<le> noff (mycpu_of (mc s)) \<and> Q () (s\<lparr>mc := popped (mc s)\<rparr>)"
  by (simp add: wp_def pop_off_run)

text \<open>The three things \<open>acquire\<close> can do, and the four of \<open>release\<close>.\<close>

lemma me_pushed [simp]: "me (pushed m) = me m"
  by (simp add: pushed_def me_def)

lemma locks_pushed [simp]: "locks (pushed m) = locks m"
  by (simp add: pushed_def)

lemma acquire_run:
  "acquire lk s =
     (if held lk (mc s) then Panic ''acquire''
      else if locked (locks (mc s) lk) \<noteq> 0
        then Spin (s\<lparr>mc := (pushed (mc s))\<lparr>locks := (locks (mc s))(lk :=
                     (locks (mc s) lk)\<lparr>locked := 1\<rparr>)\<rparr>\<rparr>)
      else Ret () (s\<lparr>mc := acq lk (mc s)\<rparr>))"
proof -
  have "held lk (pushed m) = held lk m" for m
    by (simp add: held_def)
  moreover have "me ((pushed m)\<lparr>locks := L\<rparr>) = me m" for L m
    by (simp add: pushed_def me_def)
  ultimately show ?thesis
    by (simp add: acquire_def bind_def push_off_run holding_run test_and_set_def run_simps
        getm_run upd_lock_def acq_def)
qed

lemma release_run:
  "release lk s =
     (if \<not> held lk (mc s) then Panic ''release''
      else if intr (mc s) then Panic ''pop_off - interruptible''
      else if noff (mycpu_of (mc s)) < 1 then Panic ''pop_off''
      else Ret () (s\<lparr>mc := rel lk (mc s)\<rparr>))"
  by (simp add: release_def bind_def holding_run run_simps getm_run upd_lock_def pop_off_run
      rel_def intr_def mycpu_of_def me_def)

lemma wp_acquire [wp_simps]:
  "wp (acquire lk) Q s \<longleftrightarrow> locked (locks (mc s) lk) = 0 \<and> Q () (s\<lparr>mc := acq lk (mc s)\<rparr>)"
  by (simp add: wp_def acquire_run held_def)

lemma wp_release [wp_simps]:
  "wp (release lk) Q s \<longleftrightarrow> held lk (mc s) \<and> \<not> intr (mc s) \<and> 1 \<le> noff (mycpu_of (mc s)) \<and>
     Q () (s\<lparr>mc := rel lk (mc s)\<rparr>)"
  by (simp add: wp_def release_run not_less)

lemma ends_machine [wp_simps]:
  "ends (getm f) Q R s = Q (f (mc s)) s"
  "ends (updm g) Q' R s = Q' () (s\<lparr>mc := g (mc s)\<rparr>)"
  "ends mycpu Q'' R s = Q'' (me (mc s)) s"
  "ends (holding lk) Q3 R s = Q3 (held lk (mc s)) s"
  "ends push_off Q' R s = Q' () (s\<lparr>mc := pushed (mc s)\<rparr>)"
  "ends pop_off Q' R s \<longleftrightarrow> (\<not> intr (mc s) \<and> 1 \<le> noff (mycpu_of (mc s)) \<longrightarrow>
     Q' () (s\<lparr>mc := popped (mc s)\<rparr>))"
  "ends (acquire lk) Q' R s \<longleftrightarrow> (locked (locks (mc s) lk) = 0 \<longrightarrow> Q' () (s\<lparr>mc := acq lk (mc s)\<rparr>))"
  "ends (release lk) Q' R s \<longleftrightarrow> (held lk (mc s) \<and> \<not> intr (mc s) \<and> 1 \<le> noff (mycpu_of (mc s)) \<longrightarrow>
     Q' () (s\<lparr>mc := rel lk (mc s)\<rparr>))"
  by (auto simp: ends_def getm_run holding_run push_off_run pop_off_run acquire_run release_run held_def
      not_less)

text \<open>The machine part is all these operations change.\<close>

lemma keeps_more [keeps_intros]:
  "keeps kbase.more (updm g)" "keeps kbase.more mycpu" "keeps kbase.more (holding lk)"
  "keeps kbase.more push_off" "keeps kbase.more pop_off"
  "keeps kbase.more (acquire lk)" "keeps kbase.more (release lk)"
  by (simp_all add: keeps_def wp_simps)

lemma keeps_getm [keeps_intros]: "keeps f (getm g)" "keeps f mycpu" "keeps f (holding lk)"
  by (simp_all add: keeps_def wp_simps)

section \<open>Critical sections\<close>

text \<open>
  \<open>cpu_ok\<close>: a positive \<open>noff\<close> means interrupts are off, which is what
  \<open>push_off\<close> establishes. \<open>lkfree\<close>: nobody has the lock. A critical section started
  in such a state restores everything but the saved flag \<open>intena\<close>, which
  \<open>settled\<close> describes.
\<close>

definition cpu_ok :: "mach \<Rightarrow> bool" where
  "cpu_ok m \<longleftrightarrow> 0 \<le> noff (mycpu_of m) \<and> (0 < noff (mycpu_of m) \<longrightarrow> \<not> intr m)"

definition lkfree :: "lock \<Rightarrow> mach \<Rightarrow> bool" where
  "lkfree lk m \<longleftrightarrow> locked (locks m lk) = 0 \<and> lcpu (locks m lk) = None"

definition settled :: "mach \<Rightarrow> mach" where
  "settled m = m\<lparr>cpus := (cpus m)(me m := (mycpu_of m)\<lparr>
      intena := if noff (mycpu_of m) = 0 then of_bool (intr m) else intena (mycpu_of m)\<rparr>)\<rparr>"

lemma sie_restore: "x AND SSTATUS_SIE \<noteq> 0 \<Longrightarrow> (x AND NOT SSTATUS_SIE) OR SSTATUS_SIE = x"
proof -
  assume "x AND SSTATUS_SIE \<noteq> 0"
  then have "bit x 1"
    by (simp add: SSTATUS_SIE_def bit_iff_and_push_bit_not_eq_0)
  then show ?thesis
    unfolding SSTATUS_SIE_def by (intro bit_eqI) (auto simp: bit_simps)
qed

lemma sie_clear: "x AND SSTATUS_SIE = 0 \<Longrightarrow> x AND NOT SSTATUS_SIE = x"
  by (auto simp: bit_eq_iff bit_simps)

lemma sie_cleared: "(x AND NOT SSTATUS_SIE) AND SSTATUS_SIE = 0"
  by (intro bit_eqI) (auto simp: bit_simps)

lemma not_intr_pushed [simp]: "\<not> intr (pushed m)"
  by (simp add: intr_def pushed_def sie_cleared)

lemma noff_pushed [simp]: "noff (mycpu_of (pushed m)) = noff (mycpu_of m) + 1"
  by (simp add: pushed_def mycpu_of_def me_def)

lemma cpu_ok_pushed [simp]: "cpu_ok m \<Longrightarrow> cpu_ok (pushed m)"
  by (simp add: cpu_ok_def)

lemma popped_pushed [simp]: "cpu_ok m \<Longrightarrow> popped (pushed m) = settled m"
  by (auto simp: popped_def pushed_def settled_def mycpu_of_def me_def intr_def cpu_ok_def
      sie_restore sie_clear)

lemma settled_settled [simp]: "settled (settled m) = settled m"
  by (simp add: settled_def mycpu_of_def me_def intr_def)

lemma acq_simps [simp]:
  "me (acq lk m) = me m" "held lk (acq lk m)" "\<not> intr (acq lk m)"
  "noff (mycpu_of (acq lk m)) = noff (mycpu_of m) + 1"
  "cproc (mycpu_of (acq lk m)) = cproc (mycpu_of m)"
  "k \<noteq> lk \<Longrightarrow> held k (acq lk m) = held k m"
  "k \<noteq> lk \<Longrightarrow> locks (acq lk m) k = locks m k"
  by (simp_all add: acq_def held_def pushed_def me_def intr_def mycpu_of_def sie_cleared)

lemma cpu_ok_acq [simp]: "cpu_ok m \<Longrightarrow> cpu_ok (acq lk m)"
  by (simp add: cpu_ok_def)

lemma cpu_ok_noff [simp]: "cpu_ok m \<Longrightarrow> 0 \<le> noff (mycpu_of m)"
  by (simp add: cpu_ok_def)

lemma lkfree_locked [simp]: "lkfree lk m \<Longrightarrow> locked (locks m lk) = 0"
  by (simp add: lkfree_def)

lemma rel_acq [simp]: "cpu_ok m \<Longrightarrow> lkfree lk m \<Longrightarrow> rel lk (acq lk m) = settled m"
proof -
  assume ok: "cpu_ok m" and free: "lkfree lk m"
  have "(locks m)(lk := (locks m lk)\<lparr>lcpu := None, locked := 0\<rparr>) = locks m"
    using free by (simp add: lkfree_def fun_upd_idem)
  then have "rel lk (acq lk m) = popped (pushed m)"
    by (simp add: rel_def acq_def pushed_def)
  with ok show ?thesis by simp
qed

lemma settled_simps [simp]:
  "me (settled m) = me m" "intr (settled m) = intr m" "locks (settled m) = locks m"
  "noff (mycpu_of (settled m)) = noff (mycpu_of m)" "cpu_ok (settled m) = cpu_ok m"
  "cproc (mycpu_of (settled m)) = cproc (mycpu_of m)"
  "lkfree lk (settled m) = lkfree lk m" "tp (settled m) = tp m" "sstatus (settled m) = sstatus m"
  "held lk (settled m) = held lk m"
  by (simp_all add: settled_def me_def intr_def mycpu_of_def cpu_ok_def lkfree_def held_def)

lemma settled_id: "0 < noff (mycpu_of m) \<Longrightarrow> settled m = m"
  by (simp add: settled_def mycpu_of_def)

lemma settled_acq [simp]: "cpu_ok m \<Longrightarrow> settled (acq lk m) = acq lk m"
  by (rule settled_id) (simp add: cpu_ok_def)

lemma acq_settled [simp]: "acq lk (settled m) = acq lk m"
  by (simp add: acq_def pushed_def settled_def me_def mycpu_of_def intr_def)

lemma lkfree_acq [simp]: "lkfree k (acq lk m) \<longleftrightarrow> k \<noteq> lk \<and> lkfree k m"
  by (auto simp: lkfree_def acq_def)

text \<open>
  The rule the other components use: code that runs between \<open>acquire\<close> and
  \<open>release\<close> and leaves the machine part alone ends in the state it built, with the
  machine the section started from.
\<close>

lemma acquire_free: "lkfree lk (mc s) \<Longrightarrow> acquire lk s = Ret () (s\<lparr>mc := acq lk (mc s)\<rparr>)"
  by (simp add: acquire_run lkfree_def held_def)

lemma release_section:
  "\<lbrakk>cpu_ok m; lkfree lk m; mc t = acq lk m\<rbrakk> \<Longrightarrow> release lk t = Ret () (t\<lparr>mc := settled m\<rparr>)"
  by (simp add: release_run not_less)

section \<open>Several CPUs\<close>

text \<open>
  The steps of \<open>acquire(lk)\<close> and \<open>release(lk)\<close> taken one at a time by any number of
  CPUs. Each rule runs the corresponding piece of the code on the view that CPU
  \<open>h\<close> has of the machine; \<open>other\<close> is everything else the machine may do as long as
  it does not touch this lock.
\<close>

datatype lkpc = Idle | Trying | Swapped | Critical | Disowned

record smp =
  g_locks :: "lock \<Rightarrow> spinlock"
  g_cpus :: "nat \<Rightarrow> cpu"
  g_sst :: "nat \<Rightarrow> u64"
  g_pc :: "nat \<Rightarrow> lkpc"

definition view :: "nat \<Rightarrow> smp \<Rightarrow> kbase" where
  "view h g = \<lparr>mc = \<lparr>locks = g_locks g, cpus = g_cpus g, tp = of_nat h, sstatus = g_sst g h\<rparr>\<rparr>"

definition put :: "nat \<Rightarrow> kbase \<Rightarrow> lkpc \<Rightarrow> smp \<Rightarrow> smp" where
  "put h t pc g = g\<lparr>g_locks := locks (mc t), g_cpus := cpus (mc t),
     g_sst := (g_sst g)(h := sstatus (mc t)), g_pc := (g_pc g)(h := pc)\<rparr>"

inductive lock_step :: "lock \<Rightarrow> smp \<Rightarrow> smp \<Rightarrow> bool" for lk where
  enter: "\<lbrakk>h < NCPU; g_pc g h = Idle; bind push_off (\<lambda>_. holding lk) (view h g) = Ret False t\<rbrakk>
     \<Longrightarrow> lock_step lk g (put h t Trying g)"
| swap_busy: "\<lbrakk>h < NCPU; g_pc g h = Trying; test_and_set lk (view h g) = Ret v t; v \<noteq> 0\<rbrakk>
     \<Longrightarrow> lock_step lk g (put h t Trying g)"
| swap_free: "\<lbrakk>h < NCPU; g_pc g h = Trying; test_and_set lk (view h g) = Ret v t; v = 0\<rbrakk>
     \<Longrightarrow> lock_step lk g (put h t Swapped g)"
| own: "\<lbrakk>h < NCPU; g_pc g h = Swapped;
      bind mycpu (\<lambda>c. upd_lock lk (\<lambda>l. l\<lparr>lcpu := Some c\<rparr>)) (view h g) = Ret () t\<rbrakk>
     \<Longrightarrow> lock_step lk g (put h t Critical g)"
| disown: "\<lbrakk>h < NCPU; g_pc g h = Critical; holding lk (view h g) = Ret True t0;
      upd_lock lk (\<lambda>l. l\<lparr>lcpu := None\<rparr>) t0 = Ret () t\<rbrakk>
     \<Longrightarrow> lock_step lk g (put h t Disowned g)"
| unlock: "\<lbrakk>h < NCPU; g_pc g h = Disowned;
      bind (upd_lock lk (\<lambda>l. l\<lparr>locked := 0\<rparr>)) (\<lambda>_. pop_off) (view h g) = Ret () t\<rbrakk>
     \<Longrightarrow> lock_step lk g (put h t Idle g)"
| other: "\<lbrakk>g_locks g' lk = g_locks g lk; g_pc g' = g_pc g\<rbrakk> \<Longrightarrow> lock_step lk g g'"

inductive lock_reach :: "lock \<Rightarrow> smp \<Rightarrow> bool" for lk where
  start: "\<lbrakk>locked (g_locks g lk) = 0; lcpu (g_locks g lk) = None; g_pc g = (\<lambda>_. Idle)\<rbrakk>
     \<Longrightarrow> lock_reach lk g"
| step: "\<lbrakk>lock_reach lk g; lock_step lk g g'\<rbrakk> \<Longrightarrow> lock_reach lk g'"

fun owner_pc :: "lkpc \<Rightarrow> bool" where
  "owner_pc Idle = False"
| "owner_pc Trying = False"
| "owner_pc Swapped = True"
| "owner_pc Critical = True"
| "owner_pc Disowned = True"

text \<open>The inductive invariant: the lock word and the owner field agree with the CPUs.\<close>

definition lock_inv :: "lock \<Rightarrow> smp \<Rightarrow> bool" where
  "lock_inv lk g \<longleftrightarrow>
     (if locked (g_locks g lk) = 0
      then lcpu (g_locks g lk) = None \<and> (\<forall>h. \<not> owner_pc (g_pc g h))
      else \<exists>k. owner_pc (g_pc g k) \<and> (\<forall>h. owner_pc (g_pc g h) \<longrightarrow> h = k) \<and>
             lcpu (g_locks g lk) = (if g_pc g k = Critical then Some k else None))"

lemma lock_inv_ownedI:
  "\<lbrakk>locked (g_locks g lk) \<noteq> 0; owner_pc (g_pc g k); \<And>h. h \<noteq> k \<Longrightarrow> \<not> owner_pc (g_pc g h);
    lcpu (g_locks g lk) = (if g_pc g k = Critical then Some k else None)\<rbrakk> \<Longrightarrow> lock_inv lk g"
  unfolding lock_inv_def by auto

lemma lock_inv_owner:
  assumes "lock_inv lk g" "owner_pc (g_pc g h)"
  shows "locked (g_locks g lk) \<noteq> 0" "\<And>h'. owner_pc (g_pc g h') \<Longrightarrow> h' = h"
    "lcpu (g_locks g lk) = (if g_pc g h = Critical then Some h else None)"
proof -
  show l: "locked (g_locks g lk) \<noteq> 0"
    using assms by (auto simp: lock_inv_def)
  then obtain k where k: "\<And>h. owner_pc (g_pc g h) \<Longrightarrow> h = k"
      "lcpu (g_locks g lk) = (if g_pc g k = Critical then Some k else None)"
    using assms(1) unfolding lock_inv_def by auto
  have "h = k" using k(1) assms(2) .
  with k show "\<And>h'. owner_pc (g_pc g h') \<Longrightarrow> h' = h"
    "lcpu (g_locks g lk) = (if g_pc g h = Critical then Some h else None)"
    by auto
qed

lemma me_view [simp]: "h < NCPU \<Longrightarrow> me (mc (view h g)) = h"
proof -
  assume "h < NCPU"
  then have "h \<in> {0, 1, 2, 3, 4, 5, 6, 7}"
    by (auto simp: NCPU_def)
  then show ?thesis
    by (auto simp: me_def view_def)
qed

lemma locks_view [simp]: "locks (mc (view h g)) = g_locks g"
  by (simp add: view_def)

lemma pop_off_locks: "pop_off s = Ret () t \<Longrightarrow> locks (mc t) = locks (mc s)"
  by (auto simp: pop_off_run popped_def split: if_splits)

lemma lock_inv_nonowner:
  assumes inv: "lock_inv lk g" and no: "\<not> owner_pc (g_pc g h)" "\<not> owner_pc pc"
    and l: "locked l = 0 \<longleftrightarrow> locked (g_locks g lk) = 0" "lcpu l = lcpu (g_locks g lk)"
  shows "lock_inv lk (g\<lparr>g_locks := (g_locks g)(lk := l), g_cpus := c, g_sst := x,
           g_pc := (g_pc g)(h := pc)\<rparr>)"
proof (cases "\<exists>k. owner_pc (g_pc g k)")
  case False
  with assms show ?thesis by (auto simp: lock_inv_def)
next
  case True
  then obtain k where k: "owner_pc (g_pc g k)" by blast
  note o = lock_inv_owner[OF inv k]
  from k no have "k \<noteq> h" by auto
  show ?thesis
  proof (rule lock_inv_ownedI[where k = k])
    fix h'
    assume "h' \<noteq> k"
    with o(2) have "\<not> owner_pc (g_pc g h')" by blast
    with no show "\<not> owner_pc (g_pc (g\<lparr>g_locks := (g_locks g)(lk := l), g_cpus := c, g_sst := x,
           g_pc := (g_pc g)(h := pc)\<rparr>) h')" by simp
  qed (use o(1,3) k l \<open>k \<noteq> h\<close> in simp_all)
qed

lemma lock_inv_owned:
  "\<lbrakk>locked l \<noteq> 0; owner_pc pc; \<And>h'. h' \<noteq> h \<Longrightarrow> \<not> owner_pc (g_pc g h');
    lcpu l = (if pc = Critical then Some h else None)\<rbrakk>
   \<Longrightarrow> lock_inv lk (g\<lparr>g_locks := (g_locks g)(lk := l), g_cpus := c, g_sst := x,
        g_pc := (g_pc g)(h := pc)\<rparr>)"
  by (rule lock_inv_ownedI[where k = h]) simp_all

lemma lock_inv_others:
  "lock_inv lk g \<Longrightarrow> owner_pc (g_pc g h) \<Longrightarrow> h' \<noteq> h \<Longrightarrow> \<not> owner_pc (g_pc g h')"
  using lock_inv_owner(2) by blast

lemma lock_step_inv: "lock_step lk g g' \<Longrightarrow> lock_inv lk g \<Longrightarrow> lock_inv lk g'"
proof (induction rule: lock_step.induct)
  case (enter h g t)
  then have t: "locks (mc t) = (g_locks g)(lk := g_locks g lk)"
    by (auto simp: bind_def push_off_run holding_run)
  from enter show ?case
    unfolding put_def t by (intro lock_inv_nonowner) simp_all
next
  case (swap_busy h g v t)
  then have v: "locked (g_locks g lk) \<noteq> 0"
    and t: "locks (mc t) = (g_locks g)(lk := (g_locks g lk)\<lparr>locked := 1\<rparr>)"
    by (auto simp: test_and_set_def bind_def run_simps getm_run upd_lock_def)
  with swap_busy show ?case
    unfolding put_def t by (intro lock_inv_nonowner) simp_all
next
  case (swap_free h g v t)
  then have v: "locked (g_locks g lk) = 0"
    and t: "locks (mc t) = (g_locks g)(lk := (g_locks g lk)\<lparr>locked := 1\<rparr>)"
    by (auto simp: test_and_set_def bind_def run_simps getm_run upd_lock_def)
  with swap_free show ?case
    unfolding put_def t by (intro lock_inv_owned) (auto simp: lock_inv_def)
next
  case (own h g t)
  then have t: "locks (mc t) = (g_locks g)(lk := (g_locks g lk)\<lparr>lcpu := Some h\<rparr>)"
    by (auto simp: bind_def run_simps getm_run upd_lock_def)
  from own show ?case
    unfolding put_def t
    by (intro lock_inv_owned) (simp_all add: lock_inv_owner(1,3)[of lk g h] lock_inv_others[of lk g h])
next
  case (disown h g t0 t)
  then have t: "locks (mc t) = (g_locks g)(lk := (g_locks g lk)\<lparr>lcpu := None\<rparr>)"
    by (auto simp: holding_run run_simps getm_run upd_lock_def)
  from disown show ?case
    unfolding put_def t
    by (intro lock_inv_owned) (simp_all add: lock_inv_owner(1,3)[of lk g h] lock_inv_others[of lk g h])
next
  case (unlock h g t)
  then have t: "locks (mc t) = (g_locks g)(lk := (g_locks g lk)\<lparr>locked := 0\<rparr>)"
    by (auto simp: bind_Ret_iff run_simps getm_run upd_lock_def dest: pop_off_locks)
  from unlock have "\<not> owner_pc (g_pc g h')" if "h' \<noteq> h" for h'
    using that by (intro lock_inv_others[of lk g h]) simp_all
  with unlock lock_inv_owner(3)[of lk g h] show ?case
    by (simp add: put_def t lock_inv_def)
next
  case (other g' g)
  then show ?case by (simp add: lock_inv_def)
qed

lemma lock_reach_inv: "lock_reach lk g \<Longrightarrow> lock_inv lk g"
proof (induction rule: lock_reach.induct)
  case (start g)
  then show ?case by (simp add: lock_inv_def)
next
  case (step g g')
  then show ?case by (blast intro: lock_step_inv)
qed

section \<open>Properties\<close>

text \<open>A machine at rest, on which the properties are applied.\<close>

definition zero_context :: swtch_context where
  "zero_context = \<lparr>c_ra = 0, c_sp = 0, c_s0 = 0, c_s1 = 0, c_s2 = 0, c_s3 = 0, c_s4 = 0, c_s5 = 0,
     c_s6 = 0, c_s7 = 0, c_s8 = 0, c_s9 = 0, c_s10 = 0, c_s11 = 0\<rparr>"

definition quiet :: mach where
  "quiet = \<lparr>locks = (\<lambda>_. \<lparr>locked = 0, lname = [], lcpu = None\<rparr>),
     cpus = (\<lambda>_. \<lparr>cproc = None, ccontext = zero_context, noff = 0, intena = 0\<rparr>),
     tp = 0, sstatus = SSTATUS_SIE\<rparr>"

lemma quiet_ok [simp]: "cpu_ok quiet" "lkfree lk quiet" "me quiet = 0"
  by (simp_all add: cpu_ok_def lkfree_def quiet_def mycpu_of_def me_def)

definition smp_start :: smp where
  "smp_start = \<lparr>g_locks = locks quiet, g_cpus = cpus quiet, g_sst = (\<lambda>_. 0), g_pc = (\<lambda>_. Idle)\<rparr>"

definition advance :: "nat \<Rightarrow> (kbase, 'a) prog \<Rightarrow> lkpc \<Rightarrow> smp \<Rightarrow> smp" where
  "advance h p pc g = (case p (view h g) of Ret _ t \<Rightarrow> put h t pc g | _ \<Rightarrow> g)"

definition smp_critical :: smp where
  "smp_critical =
     advance 0 (bind mycpu (\<lambda>c. upd_lock KmemLock (\<lambda>l. l\<lparr>lcpu := Some c\<rparr>))) Critical
       (advance 0 (test_and_set KmemLock) Swapped
         (advance 0 (bind push_off (\<lambda>_. holding KmemLock)) Trying smp_start))"

lemma smp_critical_reach: "lock_reach KmemLock smp_critical"
proof -
  let ?g1 = "advance 0 (bind push_off (\<lambda>_. holding KmemLock)) Trying smp_start"
  let ?g2 = "advance 0 (test_and_set KmemLock) Swapped ?g1"
  have "lock_reach KmemLock smp_start"
    by (rule lock_reach.start) (simp_all add: smp_start_def quiet_def)
  moreover have "lock_step KmemLock smp_start ?g1"
    unfolding advance_def
    by (auto simp: push_off_run holding_run held_def smp_start_def view_def quiet_def NCPU_def bind_def
        intro!: lock_step.enter)
  moreover have "lock_step KmemLock ?g1 ?g2"
  proof -
    have l: "g_pc ?g1 0 = Trying" "locked (g_locks ?g1 KmemLock) = 0"
      by (simp_all add: advance_def push_off_run holding_run bind_def put_def smp_start_def view_def quiet_def)
    obtain t where t: "test_and_set KmemLock (view 0 ?g1) = Ret 0 t"
      using l(2) by (simp add: test_and_set_def bind_def getm_run run_simps upd_lock_def view_def)
    have "lock_step KmemLock ?g1 (put 0 t Swapped ?g1)"
      by (rule lock_step.swap_free[OF _ l(1) t]) (simp_all add: NCPU_def)
    then show ?thesis using t by (simp add: advance_def)
  qed
  moreover have "lock_step KmemLock ?g2 smp_critical"
  proof -
    have l: "g_pc ?g2 0 = Swapped"
      unfolding advance_def[of 0 "test_and_set KmemLock"]
      by (simp add: test_and_set_def bind_def getm_run run_simps upd_lock_def put_def)
    obtain t where t: "bind mycpu (\<lambda>c. upd_lock KmemLock (\<lambda>l. l\<lparr>lcpu := Some c\<rparr>)) (view 0 ?g2) = Ret () t"
      by (simp add: upd_lock_def getm_run)
    have "lock_step KmemLock ?g2 (put 0 t Critical ?g2)"
      by (rule lock_step.own[OF _ l t]) (simp add: NCPU_def)
    then show ?thesis unfolding smp_critical_def using t by (subst advance_def) simp
  qed
  ultimately show ?thesis by (meson lock_reach.step)
qed

lemma smp_critical_pc: "g_pc smp_critical 0 = Critical"
  unfolding smp_critical_def by (subst advance_def) (simp add: upd_lock_def getm_run put_def)

text \<open>
  C2: mutual exclusion. Whatever the interleaving of the steps of \<open>acquire\<close> and
  \<open>release\<close> over the CPUs, at most one CPU is between its successful
  \<open>__sync_lock_test_and_set\<close> and its \<open>__sync_lock_release\<close>; and inside the critical
  section \<open>holding\<close> answers yes on that CPU and no on every other.
\<close>

theorem spin_mutual_exclusion:
  assumes "lock_reach lk g" "h < NCPU" "k < NCPU" "owner_pc (g_pc g h)"
  shows "(owner_pc (g_pc g k) \<longrightarrow> k = h) \<and>
    (g_pc g h = Critical \<longrightarrow> holding lk (view k g) = Ret (k = h) (view k g))"
proof -
  have inv: "lock_inv lk g" by (rule lock_reach_inv[OF assms(1)])
  note o = lock_inv_owner[OF inv assms(4)]
  have "holding lk (view k g) = Ret (k = h) (view k g)" if "g_pc g h = Critical"
    using o(1,3) that assms(3) by (auto simp: holding_run held_def)
  with o(2) show ?thesis by blast
qed

theorem spin_mutual_exclusion_witness:
  "lock_reach KmemLock smp_critical \<and> owner_pc (g_pc smp_critical 0) \<and>
   holding KmemLock (view 3 smp_critical) = Ret False (view 3 smp_critical)"
  using spin_mutual_exclusion[of KmemLock smp_critical 0 3] smp_critical_reach smp_critical_pc
  by (simp add: NCPU_def)

text \<open>
  C26: an empty critical section on a free lock gives the machine back as it was, interrupt
  flag and nesting depth included, at whatever depth of nested \<open>push_off\<close> it runs; only
  the saved \<open>intena\<close> is refreshed.
\<close>

theorem acquire_release:
  assumes "cpu_ok (mc s)" "lkfree lk (mc s)"
  shows "bind (acquire lk) (\<lambda>_. release lk) s = Ret () (s\<lparr>mc := settled (mc s)\<rparr>)"
  using assms by (simp add: acquire_free release_section)

theorem acquire_release_witness:
  "bind (acquire LogLock) (\<lambda>_. release LogLock) \<lparr>mc = quiet\<rparr> = Ret () \<lparr>mc = settled quiet\<rparr>"
  using acquire_release[of "\<lparr>mc = quiet\<rparr>" LogLock] by simp



end
