(* ===== verification/Cstring.thy ===== *)
theory Cstring
  imports Prelude
begin

text \<open>
  \<open>kernel/string.c\<close>. A pointer that is only read, or a buffer that overlaps nothing
  else, is the function \<open>i \<mapsto> p[i]\<close> (type \<open>cstr\<close>); \<open>memset\<close> and
  \<open>memmove\<close>, where aliasing matters, run on the whole byte-addressed memory with
  64-bit wrapping addresses.

  Results: \<open>memmove\<close> is a simultaneous copy also when source and destination
  overlap; \<open>strncmp\<close>, \<open>strncpy\<close>, \<open>safestrcpy\<close> and \<open>strlen\<close> against
  reference definitions that quantify over indices.
\<close>

type_synonym memory = "addr \<Rightarrow> u8"
type_synonym cstr = "nat \<Rightarrow> u8"

definition view_at :: "memory \<Rightarrow> addr \<Rightarrow> cstr" where
  "view_at m p = (\<lambda>i. m (p + of_nat i))"

section \<open>The functions\<close>

fun memset_loop :: "memory \<Rightarrow> addr \<Rightarrow> u8 \<Rightarrow> nat list \<Rightarrow> memory" where
  "memset_loop m cdst c [] = m"
| "memset_loop m cdst c (i # is) = memset_loop (m(cdst + of_nat i := c)) cdst c is"

definition memset :: "memory \<Rightarrow> addr \<Rightarrow> u32 \<Rightarrow> nat \<Rightarrow> memory" where
  "memset m dst c n = memset_loop m dst (ucast c) [0..<n]"

fun memcmp :: "cstr \<Rightarrow> cstr \<Rightarrow> nat \<Rightarrow> int" where
  "memcmp s1 s2 0 = 0"
| "memcmp s1 s2 (Suc n) =
     (if s1 0 \<noteq> s2 0 then uint (s1 0) - uint (s2 0)
      else memcmp (\<lambda>i. s1 (Suc i)) (\<lambda>i. s2 (Suc i)) n)"

fun copy_backward :: "memory \<Rightarrow> addr \<Rightarrow> addr \<Rightarrow> nat \<Rightarrow> memory" where
  "copy_backward m d s 0 = m"
| "copy_backward m d s (Suc n) = copy_backward (m(d - 1 := m (s - 1))) (d - 1) (s - 1) n"

fun copy_forward :: "memory \<Rightarrow> addr \<Rightarrow> addr \<Rightarrow> nat \<Rightarrow> memory" where
  "copy_forward m d s 0 = m"
| "copy_forward m d s (Suc n) = copy_forward (m(d := m s)) (d + 1) (s + 1) n"

definition memmove :: "memory \<Rightarrow> addr \<Rightarrow> addr \<Rightarrow> nat \<Rightarrow> memory" where
  "memmove m dst src n =
     (if n = 0 then m
      else if src < dst \<and> src + of_nat n > dst
      then copy_backward m (dst + of_nat n) (src + of_nat n) n
      else copy_forward m dst src n)"

definition memcpy :: "memory \<Rightarrow> addr \<Rightarrow> addr \<Rightarrow> nat \<Rightarrow> memory" where
  "memcpy m dst src n = memmove m dst src n"

text \<open>
  \<open>memmove\<close> between memory and a kernel object that is not part of \<open>memory\<close> (a
  buffer, a local variable): the two never overlap.
\<close>

fun copy_out :: "memory \<Rightarrow> addr \<Rightarrow> cstr \<Rightarrow> nat list \<Rightarrow> memory" where
  "copy_out m d src [] = m"
| "copy_out m d src (i # is) = copy_out (m(d + of_nat i := src i)) d src is"

fun copy_in :: "cstr \<Rightarrow> nat \<Rightarrow> memory \<Rightarrow> addr \<Rightarrow> nat list \<Rightarrow> cstr" where
  "copy_in dst k m s [] = dst"
| "copy_in dst k m s (i # is) = copy_in (dst(k + i := m (s + of_nat i))) k m s is"

definition move_out :: "memory \<Rightarrow> addr \<Rightarrow> cstr \<Rightarrow> nat \<Rightarrow> memory" where
  "move_out m d src n = copy_out m d src [0..<n]"

definition move_in :: "cstr \<Rightarrow> nat \<Rightarrow> memory \<Rightarrow> addr \<Rightarrow> nat \<Rightarrow> cstr" where
  "move_in dst k m s n = copy_in dst k m s [0..<n]"

fun strncmp :: "cstr \<Rightarrow> cstr \<Rightarrow> nat \<Rightarrow> int" where
  "strncmp p q 0 = 0"
| "strncmp p q (Suc n) =
     (if p 0 \<noteq> 0 \<and> p 0 = q 0 then strncmp (\<lambda>i. p (Suc i)) (\<lambda>i. q (Suc i)) n
      else uint (p 0) - uint (q 0))"

function zero_fill :: "cstr \<Rightarrow> nat \<Rightarrow> int \<Rightarrow> cstr" where
  "zero_fill s i n = (if n > 0 then zero_fill (s(i := 0)) (Suc i) (n - 1) else s)"
  by pat_completeness auto
termination
  by (relation "measure (\<lambda>(s, i, n). nat n)") auto

function strncpy_loop :: "cstr \<Rightarrow> cstr \<Rightarrow> nat \<Rightarrow> int \<Rightarrow> cstr" where
  "strncpy_loop s t i n =
     (if n > 0
      then if t i \<noteq> 0 then strncpy_loop (s(i := t i)) t (Suc i) (n - 1)
           else zero_fill (s(i := t i)) (Suc i) (n - 1)
      else zero_fill s i (n - 1))"
  by pat_completeness auto
termination
  by (relation "measure (\<lambda>(s, t, i, n). nat n)") auto

definition strncpy :: "cstr \<Rightarrow> cstr \<Rightarrow> int \<Rightarrow> cstr" where
  "strncpy s t n = strncpy_loop s t 0 n"

function safestrcpy_loop :: "cstr \<Rightarrow> cstr \<Rightarrow> nat \<Rightarrow> int \<Rightarrow> cstr" where
  "safestrcpy_loop s t i n =
     (if n - 1 > 0
      then if t i \<noteq> 0 then safestrcpy_loop (s(i := t i)) t (Suc i) (n - 1)
           else (s(i := t i))(Suc i := 0)
      else s(i := 0))"
  by pat_completeness auto
termination
  by (relation "measure (\<lambda>(s, t, i, n). nat n)") auto

definition safestrcpy :: "cstr \<Rightarrow> cstr \<Rightarrow> int \<Rightarrow> cstr" where
  "safestrcpy s t n = (if n \<le> 0 then s else safestrcpy_loop s t 0 n)"

partial_function (option) strlen_from :: "cstr \<Rightarrow> nat \<Rightarrow> nat option" where
  "strlen_from s n = (if s n = 0 then Some n else strlen_from s (Suc n))"

definition strlen :: "cstr \<Rightarrow> nat option" where
  "strlen s = strlen_from s 0"

declare zero_fill.simps [simp del] strncpy_loop.simps [simp del] safestrcpy_loop.simps [simp del]

section \<open>Memory functions\<close>

lemma copy_in_apply:
  "copy_in dst k m s is j = (if \<exists>i \<in> set is. j = k + i then m (s + of_nat (j - k)) else dst j)"
  by (induction "is" arbitrary: dst) auto

lemma move_in_apply:
  "move_in dst k m s n j = (if k \<le> j \<and> j < k + n then m (s + of_nat (j - k)) else dst j)"
proof -
  have "(\<exists>i \<in> set [0..<n]. j = k + i) \<longleftrightarrow> k \<le> j \<and> j < k + n"
    by (auto intro!: bexI[of _ "j - k"])
  then show ?thesis by (simp only: move_in_def copy_in_apply)
qed

lemma copy_out_apply:
  assumes "distinct is" "\<forall>i \<in> set is. i < 2 ^ 64"
  shows "copy_out m d src is a =
    (if unat (a - d) \<in> set is then src (unat (a - d)) else m a)"
  using assms
proof (induction "is" arbitrary: m)
  case Nil
  then show ?case by simp
next
  case (Cons i js)
  have "a = d + of_nat i \<longleftrightarrow> unat (a - d) = i"
  proof
    assume "unat (a - d) = i"
    then have "of_nat i = a - d" by auto
    then show "a = d + of_nat i" by simp
  next
    assume "a = d + of_nat i"
    then show "unat (a - d) = i" using Cons.prems by (simp add: unat_of_nat)
  qed
  with Cons show ?case by auto
qed

lemma move_out_apply:
  assumes "n \<le> 2 ^ 64"
  shows "move_out m d src n a = (if unat (a - d) < n then src (unat (a - d)) else m a)"
  using assms by (simp add: move_out_def copy_out_apply)

lemma memset_loop_apply:
  "memset_loop m d c is a = (if \<exists>i \<in> set is. a = d + of_nat i then c else m a)"
  by (induction "is" arbitrary: m) auto

lemma addr_in_range: "(\<exists>i < n. a = d + of_nat i) \<longleftrightarrow> unat (a - d) < n" if "n \<le> 2 ^ 64" for a d :: addr
proof
  assume "\<exists>i < n. a = d + of_nat i"
  then obtain i where i: "i < n" "a - d = of_nat i" by auto
  then have "unat (a - d) = i"
    using that by (simp add: unat_of_nat take_bit_eq_mod)
  with i show "unat (a - d) < n" by simp
next
  assume "unat (a - d) < n"
  then show "\<exists>i < n. a = d + of_nat i"
    by (intro exI[of _ "unat (a - d)"]) simp
qed

lemma memset_apply:
  assumes "n \<le> 2 ^ 64"
  shows "memset m d c n a = (if unat (a - d) < n then ucast c else m a)"
proof -
  have "(\<exists>i \<in> set [0..<n]. a = d + of_nat i) \<longleftrightarrow> unat (a - d) < n"
    using addr_in_range[OF assms, of a d] by (simp add: Bex_def)
  then show ?thesis by (simp only: memset_def memset_loop_apply)
qed

text \<open>The reference: every destination byte gets the byte its source had before the call.\<close>

definition copied :: "memory \<Rightarrow> addr \<Rightarrow> addr \<Rightarrow> nat \<Rightarrow> memory" where
  "copied m d s n = (\<lambda>a. if unat (a - d) < n then m (s + (a - d)) else m a)"

lemma unat_Suc_diff: "unat (a - (d + 1)) < n \<longleftrightarrow> unat (a - d) < Suc n \<and> a \<noteq> d"
  if "Suc n \<le> 2 ^ 64" for a d :: addr
proof (cases "a = d")
  case True
  have "unat (a - (d + 1)) = 2 ^ 64 - 1"
    using True by (simp add: unsigned_minus_1_eq_mask mask_eq_exp_minus_1)
  with True that show ?thesis by simp
next
  case False
  then have "a - d \<noteq> 0" by simp
  then have "unat (a - d - 1) = unat (a - d) - 1" "0 < unat (a - d)"
    by (simp_all add: unat_minus_one unat_gt_0)
  then show ?thesis using False by (simp add: diff_diff_eq) linarith
qed

lemma copy_forward_copied:
  assumes "d = s \<or> n \<le> unat (d - s)" and "n \<le> 2 ^ 64"
  shows "copy_forward m d s n = copied m d s n"
  using assms
proof (induction n arbitrary: m d s)
  case 0
  then show ?case by (simp add: copied_def)
next
  case (Suc n)
  have IH: "copy_forward (m(d := m s)) (d + 1) (s + 1) n = copied (m(d := m s)) (d + 1) (s + 1) n"
    using Suc.prems by (intro Suc.IH) auto
  have src: "(m(d := m s)) (s + 1 + (a - (d + 1))) = m (s + (a - d))"
    if "unat (a - d) < Suc n" "a \<noteq> d" for a
  proof (cases "s + (a - d) = d")
    case True
    then have "d - s = a - d" by (simp add: algebra_simps)
    with that Suc.prems(1) have "d = s" by auto
    with True show ?thesis by (simp add: algebra_simps)
  next
    case False
    then show ?thesis by (simp add: algebra_simps)
  qed
  show ?case
  proof (rule ext)
    fix a
    show "copy_forward m d s (Suc n) a = copied m d s (Suc n) a"
    proof (cases "unat (a - d) < Suc n \<and> a \<noteq> d")
      case True
      with Suc.prems(2) have "copy_forward m d s (Suc n) a = (m(d := m s)) (s + 1 + (a - (d + 1)))"
        by (simp add: IH copied_def unat_Suc_diff)
      with True src show ?thesis by (simp add: copied_def)
    next
      case False
      with Suc.prems(2) show ?thesis by (auto simp: IH copied_def unat_Suc_diff)
    qed
  qed
qed

lemma unat_diff_top: "unat (a - (d - 1 - of_nat n)) < Suc n \<longleftrightarrow>
    unat (a - (d - 1 - of_nat n)) < n \<or> a = d - 1" if "Suc n \<le> 2 ^ 64" for a d :: addr
proof -
  have "unat (a - (d - 1 - of_nat n)) = n \<longleftrightarrow> a = d - 1"
  proof
    assume n: "unat (a - (d - 1 - of_nat n)) = n"
    have "a - (d - 1 - of_nat n) = of_nat (unat (a - (d - 1 - of_nat n)))"
      by simp
    then have "a - (d - 1 - of_nat n) = of_nat n"
      by (simp only: n)
    then show "a = d - 1" by (simp add: algebra_simps)
  next
    assume "a = d - 1"
    then show "unat (a - (d - 1 - of_nat n)) = n"
      using that by (simp add: unat_of_nat take_bit_eq_mod)
  qed
  then show ?thesis by auto
qed

lemma copy_backward_copied:
  assumes "n \<le> unat (s - d)" and "n \<le> 2 ^ 64"
  shows "copy_backward m d s n = copied m (d - of_nat n) (s - of_nat n) n"
  using assms
proof (induction n arbitrary: m d s)
  case 0
  then show ?case by (simp add: copied_def)
next
  case (Suc n)
  define m1 where "m1 = m(d - 1 := m (s - 1))"
  have IH: "copy_backward m1 (d - 1) (s - 1) n = copied m1 (d - 1 - of_nat n) (s - 1 - of_nat n) n"
    using Suc.prems by (intro Suc.IH) auto
  have src: "m1 (s - 1 - of_nat n + (a - (d - 1 - of_nat n))) = m (s - 1 - of_nat n + (a - (d - 1 - of_nat n)))"
    if "unat (a - (d - 1 - of_nat n)) < n" for a
  proof -
    have "s - 1 - of_nat n + (a - (d - 1 - of_nat n)) \<noteq> d - 1"
    proof
      assume "s - 1 - of_nat n + (a - (d - 1 - of_nat n)) = d - 1"
      then have "s - d = of_nat n - (a - (d - 1 - of_nat n))"
        by (simp add: algebra_simps)
      moreover have "of_nat n - (a - (d - 1 - of_nat n)) = of_nat (n - unat (a - (d - 1 - of_nat n)))"
        using that by (simp add: of_nat_diff)
      ultimately have "unat (s - d) = n - unat (a - (d - 1 - of_nat n))"
        using Suc.prems(2) by (simp add: unat_of_nat take_bit_eq_mod del: of_nat_diff)
      with Suc.prems(1) show False by simp
    qed
    then show ?thesis by (simp add: m1_def)
  qed
  have eqs: "d - of_nat (Suc n) = d - 1 - of_nat n" "s - of_nat (Suc n) = s - 1 - of_nat n"
    by (simp_all add: algebra_simps)
  show ?case
  proof (rule ext)
    fix a
    show "copy_backward m d s (Suc n) a = copied m (d - of_nat (Suc n)) (s - of_nat (Suc n)) (Suc n) a"
      unfolding eqs using Suc.prems(2) IH src[of a]
      by (auto simp: copied_def unat_diff_top simp flip: m1_def) (simp_all add: m1_def)
  qed
qed

lemma memmove_copied:
  assumes "unat src + n \<le> 2 ^ 64" "unat dst + n \<le> 2 ^ 64"
  shows "memmove m dst src n = copied m dst src n"
proof (cases "n = 0")
  case True
  then show ?thesis by (simp add: memmove_def copied_def)
next
  case nz: False
  show ?thesis
  proof (cases "src < dst \<and> src + of_nat n > dst")
    case True
    then have lt: "unat src < unat dst" by (simp add: word_less_nat_alt)
    have "unat (src - dst) = 2 ^ 64 + unat src - unat dst"
      using lt by (simp add: unat_sub_if_size word_size)
    moreover have "unat dst \<le> unat src + n"
    proof -
      have "unat dst < unat (src + of_nat n)"
        using True by (simp add: word_less_nat_alt)
      also have "\<dots> \<le> unat src + n"
        by (simp add: unat_word_ariths unat_of_nat)
      finally show ?thesis by simp
    qed
    ultimately have "n \<le> unat (src + of_nat n - (dst + of_nat n))"
      using lt assms by simp
    with True nz assms show ?thesis
      by (simp add: memmove_def copy_backward_copied)
  next
    case False
    have "dst = src \<or> n \<le> unat (dst - src)"
    proof (cases "src < dst")
      case True
      with False have "src + of_nat n \<le> dst" by (simp add: not_less)
      moreover have "unat (dst - src) = unat dst - unat src"
        using True by (simp add: unat_sub)
      moreover have "unat (src + of_nat n) = unat src + n \<or> unat src + n = 2 ^ 64"
        using assms by (cases "unat src + n = 2 ^ 64") (simp_all add: unat_word_ariths unat_of_nat)
      ultimately show ?thesis
        using True assms unsigned_less[of dst] nz by (auto simp: word_le_nat_alt word_less_nat_alt)
    next
      case False
      then show ?thesis
        using assms
        by (auto simp: unat_sub_if_size word_size word_le_nat_alt not_less word_unat_eq_iff)
    qed
    with False nz assms show ?thesis
      by (auto simp: memmove_def copy_forward_copied)
  qed
qed

lemma move_out_memmove:
  assumes "unat src + n \<le> 2 ^ 64" "unat dst + n \<le> 2 ^ 64"
  shows "move_out m dst (view_at m src) n = memmove m dst src n"
proof
  fix a
  have "n \<le> 2 ^ 64" using assms by simp
  then show "move_out m dst (view_at m src) n a = memmove m dst src n a"
    using assms by (simp add: memmove_copied copied_def move_out_apply view_at_def)
qed

section \<open>String functions\<close>

text \<open>
  \<open>strncmp\<close> gives 0 exactly when the strings agree up to the first NUL or the first
  \<open>n\<close> characters.
\<close>

definition same_prefix :: "cstr \<Rightarrow> cstr \<Rightarrow> nat \<Rightarrow> bool" where
  "same_prefix p q n \<longleftrightarrow> (\<forall>i < n. (\<forall>j < i. p j \<noteq> 0) \<longrightarrow> p i = q i)"

lemma all_less_Suc_shift: "(\<forall>i < Suc n. P i) \<longleftrightarrow> P 0 \<and> (\<forall>i < n. P (Suc i))"
  by (auto simp: less_Suc_eq_0_disj)

lemma same_prefix_Suc:
  "same_prefix p q (Suc n) \<longleftrightarrow>
     p 0 = q 0 \<and> (p 0 \<noteq> 0 \<longrightarrow> same_prefix (\<lambda>i. p (Suc i)) (\<lambda>i. q (Suc i)) n)"
  by (auto simp: same_prefix_def all_less_Suc_shift)

lemma strncmp_eq_0: "strncmp p q n = 0 \<longleftrightarrow> same_prefix p q n"
proof (induction n arbitrary: p q)
  case 0
  then show ?case by (simp add: same_prefix_def)
next
  case (Suc n)
  have "uint (p 0) - uint (q 0) = 0 \<longleftrightarrow> p 0 = q 0"
    by (simp add: word_uint_eq_iff)
  with Suc show ?case by (auto simp: same_prefix_Suc)
qed

lemma same_prefix_sym: "same_prefix p q n = same_prefix q p n"
proof (induction n arbitrary: p q)
  case 0
  then show ?case by (simp add: same_prefix_def)
next
  case (Suc n)
  then show ?case by (auto simp: same_prefix_Suc)
qed

lemma zero_fill_apply:
  "zero_fill s i n j = (if i \<le> j \<and> int j < int i + n then 0 else s j)"
proof (induction s i n rule: zero_fill.induct)
  case (1 s i n)
  show ?case
  proof (cases "n > 0")
    case True
    then have "zero_fill s i n j = zero_fill (s(i := 0)) (Suc i) (n - 1) j"
      by (subst zero_fill.simps) simp
    also have "\<dots> = (if Suc i \<le> j \<and> int j < int (Suc i) + (n - 1) then 0 else (s(i := 0)) j)"
      using 1 True by blast
    finally show ?thesis using True by auto
  next
    case False
    then show ?thesis by (subst zero_fill.simps) auto
  qed
qed

text \<open>\<open>strncpy\<close> copies up to and including the first NUL and pads with NULs to \<open>n\<close>.\<close>

lemma strncpy_loop_apply:
  "(\<forall>k < i. t k \<noteq> 0) \<Longrightarrow> strncpy_loop s t i n j =
     (if i \<le> j \<and> int j < int i + n then (if \<exists>k < j. t k = 0 then 0 else t j) else s j)"
proof (induction s t i n rule: strncpy_loop.induct)
  case (1 s t i n)
  consider "n \<le> 0" | "n > 0" "t i = 0" | "n > 0" "t i \<noteq> 0" by linarith
  then show ?case
  proof cases
    case 1
    then show ?thesis by (subst strncpy_loop.simps) (auto simp: zero_fill_apply)
  next
    case 2
    with 1(2) show ?thesis
      by (subst strncpy_loop.simps) (auto simp: zero_fill_apply intro!: exI[of _ i])
  next
    case 3
    then have "strncpy_loop s t i n j = strncpy_loop (s(i := t i)) t (Suc i) (n - 1) j"
      by (subst strncpy_loop.simps) simp
    also have "\<dots> = (if Suc i \<le> j \<and> int j < int (Suc i) + (n - 1)
        then (if \<exists>k < j. t k = 0 then 0 else t j) else (s(i := t i)) j)"
      using 3 1(2) by (intro 1(1)) (auto simp: less_Suc_eq)
    finally show ?thesis
      using 3 1(2) by (auto simp: not_less_eq_eq le_Suc_eq)
  qed
qed

lemma strncpy_apply:
  "strncpy s t n j = (if int j < n then (if \<exists>k < j. t k = 0 then 0 else t j) else s j)"
  by (simp add: strncpy_def strncpy_loop_apply)

text \<open>
  \<open>safestrcpy\<close>: a NUL-terminated prefix of the source that fits, cut at \<open>n - 1\<close>
  characters at most; nothing is written from position \<open>n\<close> on.
\<close>

definition safe_copy :: "cstr \<Rightarrow> cstr \<Rightarrow> nat \<Rightarrow> cstr \<Rightarrow> bool" where
  "safe_copy s t n r \<longleftrightarrow>
     (\<exists>k < n. r k = 0 \<and> (\<forall>j < k. r j = t j \<and> t j \<noteq> 0) \<and> (t k = 0 \<or> Suc k = n)) \<and>
     (\<forall>j \<ge> n. r j = s j)"

lemma safe_copy_upd: "safe_copy (s(i := x)) t n r \<Longrightarrow> i < n \<Longrightarrow> safe_copy s t n r"
  unfolding safe_copy_def by auto

lemma safestrcpy_loop_safe:
  "\<lbrakk>\<forall>k < i. t k \<noteq> 0 \<and> s k = t k; 0 < n\<rbrakk> \<Longrightarrow> safe_copy s t (i + nat n) (safestrcpy_loop s t i n)"
proof (induction s t i n rule: safestrcpy_loop.induct)
  case (1 s t i n)
  consider "n = 1" | "n > 1" "t i = 0" | "n > 1" "t i \<noteq> 0" using 1(3) by linarith
  then show ?case
  proof cases
    case 1
    with \<open>\<forall>k < i. t k \<noteq> 0 \<and> s k = t k\<close> show ?thesis
      by (subst safestrcpy_loop.simps) (auto simp: safe_copy_def)
  next
    case 2
    with \<open>\<forall>k < i. t k \<noteq> 0 \<and> s k = t k\<close> show ?thesis
      by (subst safestrcpy_loop.simps) (auto simp: safe_copy_def intro!: exI[of _ i])
  next
    case 3
    then have "safestrcpy_loop s t i n = safestrcpy_loop (s(i := t i)) t (Suc i) (n - 1)"
      by (subst safestrcpy_loop.simps) simp
    moreover have "safe_copy (s(i := t i)) t (Suc i + nat (n - 1))
        (safestrcpy_loop (s(i := t i)) t (Suc i) (n - 1))"
      using 3 1(2) by (intro 1(1)) (auto simp: less_Suc_eq)
    moreover have "Suc i + nat (n - 1) = i + nat n" "i < i + nat n" using 3 by simp_all
    ultimately show ?thesis
      by (metis safe_copy_upd)
  qed
qed

lemma safestrcpy_safe: "0 < n \<Longrightarrow> safe_copy s t (nat n) (safestrcpy s t n)"
  using safestrcpy_loop_safe[of 0 t s n] by (simp add: safestrcpy_def)

text \<open>\<open>strlen\<close> returns exactly when there is a NUL, and then the index of the first one.\<close>

lemma strlen_from_Some:
  assumes "s k = 0" "\<forall>j. n \<le> j \<longrightarrow> j < k \<longrightarrow> s j \<noteq> 0" "n \<le> k"
  shows "strlen_from s n = Some k"
  using assms
proof (induction "k - n" arbitrary: n)
  case 0
  then show ?case by (subst strlen_from.simps) simp
next
  case (Suc x)
  then have "s n \<noteq> 0" by simp
  moreover have "strlen_from s (Suc n) = Some k"
    using Suc by (intro Suc.hyps) auto
  ultimately show ?case by (subst strlen_from.simps) simp
qed

lemma strlen_Some: "s k = 0 \<Longrightarrow> \<forall>j < k. s j \<noteq> 0 \<Longrightarrow> strlen s = Some k"
  by (simp add: strlen_def strlen_from_Some)

lemma strlen_from_SomeD:
  assumes "strlen_from s n = Some k"
  shows "n \<le> k \<and> s k = 0 \<and> (\<forall>j. n \<le> j \<longrightarrow> j < k \<longrightarrow> s j \<noteq> 0)"
proof (rule strlen_from.raw_induct[where P = "\<lambda>s n k. n \<le> k \<and> s k = 0 \<and> (\<forall>j. n \<le> j \<longrightarrow> j < k \<longrightarrow> s j \<noteq> 0)",
      OF _ assms])
  fix f :: "cstr \<Rightarrow> nat \<Rightarrow> nat option" and s n k
  assume "\<And>s n k. f s n = Some k \<Longrightarrow> n \<le> k \<and> s k = 0 \<and> (\<forall>j. n \<le> j \<longrightarrow> j < k \<longrightarrow> s j \<noteq> 0)"
    and "(if s n = 0 then Some n else f s (Suc n)) = Some k"
  then show "n \<le> k \<and> s k = 0 \<and> (\<forall>j. n \<le> j \<longrightarrow> j < k \<longrightarrow> s j \<noteq> 0)"
    by (cases "s n = 0") (simp_all, metis Suc_leD Suc_leI le_neq_implies_less)
qed

lemma strlen_iff: "strlen s = Some k \<longleftrightarrow> s k = 0 \<and> (\<forall>j < k. s j \<noteq> 0)"
proof
  assume "strlen s = Some k"
  then have "strlen_from s 0 = Some k" by (simp add: strlen_def)
  from strlen_from_SomeD[OF this] show "s k = 0 \<and> (\<forall>j < k. s j \<noteq> 0)" by simp
next
  assume "s k = 0 \<and> (\<forall>j < k. s j \<noteq> 0)"
  then show "strlen s = Some k" by (simp add: strlen_Some)
qed

section \<open>Structures as bytes\<close>

text \<open>Fields of a C structure that the code views as bytes: little-endian loads and stores.\<close>

definition get16 :: "cstr \<Rightarrow> nat \<Rightarrow> u16" where
  "get16 b i = ucast (b i) OR push_bit 8 (ucast (b (i + 1)))"

definition put16 :: "cstr \<Rightarrow> nat \<Rightarrow> u16 \<Rightarrow> cstr" where
  "put16 b i v = b(i := ucast v, i + 1 := ucast (drop_bit 8 v))"

definition get32 :: "cstr \<Rightarrow> nat \<Rightarrow> u32" where
  "get32 b i = ucast (b i) OR push_bit 8 (ucast (b (i + 1))) OR push_bit 16 (ucast (b (i + 2)))
     OR push_bit 24 (ucast (b (i + 3)))"

definition put32 :: "cstr \<Rightarrow> nat \<Rightarrow> u32 \<Rightarrow> cstr" where
  "put32 b i v = b(i := ucast v, i + 1 := ucast (drop_bit 8 v), i + 2 := ucast (drop_bit 16 v),
     i + 3 := ucast (drop_bit 24 v))"

definition put64 :: "cstr \<Rightarrow> nat \<Rightarrow> u64 \<Rightarrow> cstr" where
  "put64 b i v = put32 (put32 b i (ucast v)) (i + 4) (ucast (drop_bit 32 v))"

lemma get16_put16 [simp]: "get16 (put16 b i v) i = v"
proof (rule bit_word_eqI)
  fix n :: nat
  assume "n < LENGTH(16)"
  then consider "n < 8" | "8 \<le> n" "n < 16" by fastforce
  then show "bit (get16 (put16 b i v) i) n = bit v n"
    by cases (simp_all add: get16_def put16_def bit_simps less_diff_conv2)
qed

lemma get32_put32 [simp]: "get32 (put32 b i v) i = v"
proof (rule bit_word_eqI)
  fix n :: nat
  assume "n < LENGTH(32)"
  then consider "n < 8" | "8 \<le> n" "n < 16" | "16 \<le> n" "n < 24" | "24 \<le> n" "n < 32" by fastforce
  then show "bit (get32 (put32 b i v) i) n = bit v n"
    by cases (simp_all add: get32_def put32_def bit_simps less_diff_conv2)
qed

lemma put32_other: "j < i \<or> i + 4 \<le> j \<Longrightarrow> put32 b i v j = b j"
  by (auto simp: put32_def)

lemma get32_put32_other [simp]: "j + 4 \<le> i \<or> i + 4 \<le> j \<Longrightarrow> get32 (put32 b i v) j = get32 b j"
  by (elim disjE) (simp_all add: get32_def put32_other)

lemma put16_other: "j < i \<or> i + 2 \<le> j \<Longrightarrow> put16 b i v j = b j"
  by (auto simp: put16_def)

lemma get16_put16_other [simp]: "j + 2 \<le> i \<or> i + 2 \<le> j \<Longrightarrow> get16 (put16 b i v) j = get16 b j"
  by (elim disjE) (simp_all add: get16_def put16_other)

section \<open>Properties\<close>

text \<open>
  C25: \<open>memmove\<close> copies correctly however source and destination overlap: every
  destination byte is the source byte before the call, and no other byte changes. The
  hypotheses say that neither range wraps around the address space.
\<close>

theorem memmove_correct:
  assumes "unat src + n \<le> 2 ^ 64" "unat dst + n \<le> 2 ^ 64"
  shows "(\<forall>i < n. memmove m dst src n (dst + of_nat i) = m (src + of_nat i)) \<and>
    (\<forall>a. unat (a - dst) \<ge> n \<longrightarrow> memmove m dst src n a = m a)"
proof -
  have "unat (of_nat i :: addr) < n" if "i < n" for i
    using that assms unat_of_nat[of i, where ?'a = 64] by (simp add: take_bit_eq_mod)
  then show ?thesis
    using assms by (auto simp: memmove_copied copied_def)
qed

theorem memmove_correct_witness:
  "memmove (\<lambda>a. ucast a) 101 100 3 (101 + of_nat 2) = (102 :: u8)"
  using memmove_correct[of 100 3 101 "\<lambda>a. ucast a", THEN conjunct1, rule_format, of 2] by simp

text \<open>
  C30: \<open>safestrcpy\<close> always leaves a NUL-terminated string in the first \<open>n\<close> bytes: the
  source up to its NUL, or its first \<open>n - 1\<close> characters; it writes nothing beyond.
\<close>

theorem safestrcpy_terminates_string:
  assumes "0 < n"
  shows "\<exists>k < nat n. strlen (safestrcpy s t n) = Some k \<and> (\<forall>j < k. safestrcpy s t n j = t j) \<and>
    (t k = 0 \<or> Suc k = nat n) \<and> (\<forall>j \<ge> nat n. safestrcpy s t n j = s j)"
proof -
  from safestrcpy_safe[OF assms, of s t] obtain k where
    "k < nat n" "safestrcpy s t n k = 0" "\<forall>j < k. safestrcpy s t n j = t j \<and> t j \<noteq> 0"
    "t k = 0 \<or> Suc k = nat n" "\<forall>j \<ge> nat n. safestrcpy s t n j = s j"
    by (auto simp: safe_copy_def)
  then show ?thesis by (intro exI[of _ k]) (auto simp: strlen_iff)
qed

theorem safestrcpy_terminates_string_witness:
  "\<exists>k < 3. strlen (safestrcpy (\<lambda>_. 7) (\<lambda>_. 65) 3) = Some k"
  using safestrcpy_terminates_string[of 3 "\<lambda>_. 7" "\<lambda>_. 65"] by auto

end
