(* ===== verification/Kalloc.thy ===== *)
theory Kalloc
  imports Spinlock Cstring
begin

text \<open>
  Physical memory and the page allocator: \<open>kernel/kalloc.c\<close> with the address macros
  of \<open>kernel/riscv.h\<close> and \<open>kernel/memlayout.h\<close>.

  \<open>kmem\<close> adds to the machine the byte-addressed physical memory, the head of the
  free list and the addresses the linker fixes (\<open>end\<close>, \<open>etext\<close>,
  \<open>trampoline\<close>). The free list is the linked list the code builds: the first eight
  bytes of a free page hold the address of the next one.

  Results: the list in memory is a stack of distinct, page-aligned pages inside
  \<open>[end, PHYSTOP)\<close>; \<open>kalloc\<close> pops it, \<open>kfree\<close> pushes it, both write only the page
  they are about; \<open>kinit\<close> puts every whole page of the range on it.
\<close>

section \<open>Addresses\<close>

definition pgsz :: addr where
  "pgsz = 4096"

definition PGROUNDUP :: "addr \<Rightarrow> addr" where
  "PGROUNDUP sz = (sz + pgsz - 1) AND NOT (pgsz - 1)"

definition PGROUNDDOWN :: "addr \<Rightarrow> addr" where
  "PGROUNDDOWN a = a AND NOT (pgsz - 1)"

definition KERNBASE :: addr where
  "KERNBASE = 0x80000000"

definition PHYSTOP :: addr where
  "PHYSTOP = KERNBASE + 128 * 1024 * 1024"

text \<open>A 64-bit load and store, little endian.\<close>

definition load64 :: "memory \<Rightarrow> addr \<Rightarrow> u64" where
  "load64 m a =
     ucast (m a) OR push_bit 8 (ucast (m (a + 1))) OR push_bit 16 (ucast (m (a + 2)))
     OR push_bit 24 (ucast (m (a + 3))) OR push_bit 32 (ucast (m (a + 4)))
     OR push_bit 40 (ucast (m (a + 5))) OR push_bit 48 (ucast (m (a + 6)))
     OR push_bit 56 (ucast (m (a + 7)))"

definition store64 :: "memory \<Rightarrow> addr \<Rightarrow> u64 \<Rightarrow> memory" where
  "store64 m a v = m(a := ucast v, a + 1 := ucast (drop_bit 8 v),
     a + 2 := ucast (drop_bit 16 v), a + 3 := ucast (drop_bit 24 v),
     a + 4 := ucast (drop_bit 32 v), a + 5 := ucast (drop_bit 40 v),
     a + 6 := ucast (drop_bit 48 v), a + 7 := ucast (drop_bit 56 v))"

section \<open>The allocator\<close>

record kmem = kbase +
  mem :: memory
  freelist :: addr
  kend :: addr
  etext :: addr
  trampoline :: addr

definition set_mem :: "(memory \<Rightarrow> memory) \<Rightarrow> ('z kmem_scheme, unit) prog" where
  "set_mem f = modify (\<lambda>s. s\<lparr>mem := f (mem s)\<rparr>)"

definition kfree :: "addr \<Rightarrow> ('z kmem_scheme, unit) prog" where
  "kfree pa =
     bind (gets kend) (\<lambda>end.
     if pa mod pgsz \<noteq> 0 \<or> pa < end \<or> pa \<ge> PHYSTOP then panic ''kfree''
     else bind (set_mem (\<lambda>m. memset m pa 1 PGSIZE)) (\<lambda>_.
     bind (acquire KmemLock) (\<lambda>_.
     bind (modify (\<lambda>s. s\<lparr>mem := store64 (mem s) pa (freelist s)\<rparr>)) (\<lambda>_.
     bind (modify (\<lambda>s. s\<lparr>freelist := pa\<rparr>)) (\<lambda>_.
     release KmemLock)))))"

definition kalloc :: "('z kmem_scheme, addr) prog" where
  "kalloc =
     bind (acquire KmemLock) (\<lambda>_.
     bind (gets freelist) (\<lambda>r.
     bind (only_if (r \<noteq> 0) (modify (\<lambda>s. s\<lparr>freelist := load64 (mem s) r\<rparr>))) (\<lambda>_.
     bind (release KmemLock) (\<lambda>_.
     bind (only_if (r \<noteq> 0) (set_mem (\<lambda>m. memset m r 5 PGSIZE))) (\<lambda>_.
     ret r)))))"

text \<open>
  The loop of \<open>freerange\<close> frees page after page; it stops because \<open>kfree\<close> panics
  from \<open>PHYSTOP\<close> on.
\<close>

lemma kfree_Ret_range:
  "kfree pa s = Ret u t \<Longrightarrow> pa mod pgsz = 0 \<and> kend s \<le> pa \<and> pa < PHYSTOP"
  by (auto simp: kfree_def bind_def run_simps not_less not_le split: if_splits)

lemma PHYSTOP_val: "PHYSTOP = 0x88000000"
  by (simp add: PHYSTOP_def KERNBASE_def)

lemma unat_page_step:
  assumes "p mod pgsz = 0" "p < PHYSTOP"
  shows "unat (p + pgsz) = unat p + 4096" "unat p + 4096 \<le> 0x88000000"
proof -
  have lt: "unat p < 0x88000000"
    using assms(2) by (simp add: PHYSTOP_val word_less_nat_alt)
  have "unat p mod 4096 = 0"
    using arg_cong[OF assms(1), of unat] by (simp add: pgsz_def unat_mod_distrib)
  then obtain k where "unat p = 4096 * k"
    by auto
  with lt show "unat p + 4096 \<le> 0x88000000" by simp
  with lt show "unat (p + pgsz) = unat p + 4096"
    by (simp add: pgsz_def unat_word_ariths)
qed

function freerange_loop :: "addr \<Rightarrow> addr \<Rightarrow> ('z kmem_scheme, unit) prog" where
  "freerange_loop p pa_end s =
     (if p + pgsz \<le> pa_end
      then (case kfree p s of
          Ret _ t \<Rightarrow> freerange_loop (p + pgsz) pa_end t
        | Panic e \<Rightarrow> Panic e | Switch t \<Rightarrow> Switch t | Spin t \<Rightarrow> Spin t)
      else Ret () s)"
  by pat_completeness auto
termination
proof (relation "measure (\<lambda>(p, e, s). 0x88000000 - unat p)", goal_cases)
  case (2 p e s u t)
  from kfree_Ret_range[OF 2(2)] have "p mod pgsz = 0" "p < PHYSTOP" by simp_all
  from unat_page_step[OF this] show ?case by simp
qed simp

definition freerange :: "addr \<Rightarrow> addr \<Rightarrow> ('z kmem_scheme, unit) prog" where
  "freerange pa_start pa_end = freerange_loop (PGROUNDUP pa_start) pa_end"

definition kinit :: "('z kmem_scheme, unit) prog" where
  "kinit =
     bind (initlock KmemLock ''kmem'') (\<lambda>_.
     bind (gets kend) (\<lambda>end.
     freerange end PHYSTOP))"

declare freerange_loop.simps [simp del]


section \<open>Lemmas on loads, stores and pages\<close>

lemma bit_split_8:
  fixes n :: nat
  assumes "n < 64"
  shows "n < 8 \<or> (8 \<le> n \<and> n < 16) \<or> (16 \<le> n \<and> n < 24) \<or> (24 \<le> n \<and> n < 32) \<or>
    (32 \<le> n \<and> n < 40) \<or> (40 \<le> n \<and> n < 48) \<or> (48 \<le> n \<and> n < 56) \<or> (56 \<le> n \<and> n < 64)"
  using assms by linarith

lemma bytes_of_word64:
  fixes v :: u64
  shows "ucast (ucast v :: u8) OR push_bit 8 (ucast (ucast (drop_bit 8 v) :: u8))
     OR push_bit 16 (ucast (ucast (drop_bit 16 v) :: u8))
     OR push_bit 24 (ucast (ucast (drop_bit 24 v) :: u8))
     OR push_bit 32 (ucast (ucast (drop_bit 32 v) :: u8))
     OR push_bit 40 (ucast (ucast (drop_bit 40 v) :: u8))
     OR push_bit 48 (ucast (ucast (drop_bit 48 v) :: u8))
     OR push_bit 56 (ucast (ucast (drop_bit 56 v) :: u8)) = v" (is "?w = v")
proof (rule bit_word_eqI)
  fix n :: nat
  assume "n < LENGTH(64)"
  then have "n < 64" by simp
  from bit_split_8[OF this] show "bit ?w n = bit v n"
    by (elim disjE) (simp_all add: bit_simps less_diff_conv2)
qed

lemma word_add_neq_iff:
  "(a :: addr) + numeral x = a + numeral y \<longleftrightarrow> (numeral x :: addr) = numeral y"
  "a + numeral x = a + 1 \<longleftrightarrow> (numeral x :: addr) = 1"
  "a + 1 = a + numeral x \<longleftrightarrow> (1 :: addr) = numeral x"
  "a + numeral x = a \<longleftrightarrow> (numeral x :: addr) = 0"
  "a + 1 = a \<longleftrightarrow> (1 :: addr) = 0"
  by simp_all

lemma load64_store64 [simp]: "load64 (store64 m a v) a = v"
  by (simp add: load64_def store64_def bytes_of_word64)

lemma store64_other: "unat (b - a) \<ge> 8 \<Longrightarrow> store64 m a v b = m b"
proof -
  assume "unat (b - a) \<ge> 8"
  then have "b \<noteq> a + of_nat i" if "i < 8" for i
    using that by (auto simp: unat_of_nat)
  from this[of 0] this[of 1] this[of 2] this[of 3] this[of 4] this[of 5] this[of 6] this[of 7]
  show ?thesis by (simp add: store64_def)
qed

lemma load64_cong:
  "(\<And>i. i < 8 \<Longrightarrow> m (a + of_nat i) = n (a + of_nat i)) \<Longrightarrow> load64 m a = load64 n a"
proof -
  assume e: "\<And>i. i < 8 \<Longrightarrow> m (a + of_nat i) = n (a + of_nat i)"
  show ?thesis
    using e[of 0] e[of 1] e[of 2] e[of 3] e[of 4] e[of 5] e[of 6] e[of 7]
    by (simp add: load64_def)
qed

text \<open>\<open>in_page a p\<close>: address \<open>a\<close> lies in the page that starts at \<open>p\<close>.\<close>

definition in_page :: "addr \<Rightarrow> addr \<Rightarrow> bool" where
  "in_page a p \<longleftrightarrow> unat (a - p) < 4096"

definition aligned :: "addr \<Rightarrow> bool" where
  "aligned p \<longleftrightarrow> p mod pgsz = 0"

definition phys_page :: "addr \<Rightarrow> addr \<Rightarrow> bool" where
  "phys_page end p \<longleftrightarrow> aligned p \<and> end \<le> p \<and> p < PHYSTOP"

lemma aligned_unat: "aligned p \<longleftrightarrow> 4096 dvd unat p"
proof -
  have "p mod pgsz = 0 \<longleftrightarrow> unat (p mod pgsz) = 0"
    by (rule unat_eq_zero[symmetric])
  also have "unat (p mod pgsz) = unat p mod 4096"
    by (simp add: pgsz_def unat_mod_distrib)
  finally show ?thesis by (simp only: dvd_eq_mod_eq_0 aligned_def)
qed


lemma alignedE:
  assumes "aligned p"
  obtains k where "unat p = 4096 * k"
proof -
  have "4096 dvd unat p" using assms by (simp only: aligned_unat)
  then show thesis using that by (elim dvdE)
qed

lemma in_page_div:
  assumes "aligned p"
  shows "in_page a p \<longleftrightarrow> unat a div 4096 = unat p div 4096"
proof -
  obtain k where k: "unat p = 4096 * k"
    using assms by (auto simp: aligned_unat)
  have lt: "4096 * k + 4096 \<le> 2 ^ 64"
    using unsigned_less[of p, where ?'a=nat] k by simp
  show ?thesis
  proof
    assume *: "in_page a p"
    have "unat p + unat (a - p) < 2 ^ LENGTH(64)"
      using * k lt by (simp add: in_page_def)
    from iffD1[OF unat_add_lem this] have "unat a = unat p + unat (a - p)"
      by simp
    then show "unat a div 4096 = unat p div 4096"
      using * k by (simp add: in_page_def)
  next
    assume "unat a div 4096 = unat p div 4096"
    then have *: "unat a = 4096 * k + unat a mod 4096"
      using k mult_div_mod_eq[of 4096 "unat a"] by simp
    then have "p \<le> a" using k by (simp add: word_le_nat_alt)
    then have "unat (a - p) = unat a mod 4096"
      using * k by (simp add: unat_sub)
    then show "in_page a p" by (simp add: in_page_def)
  qed
qed

lemma pages_disjoint:
  assumes "aligned p" "aligned q" "in_page a p" "in_page a q"
  shows "p = q"
proof -
  have "unat p div 4096 = unat q div 4096" "4096 dvd unat p" "4096 dvd unat q"
    using assms by (simp_all add: in_page_div aligned_unat)
  then have "unat p = unat q" by (auto simp: dvd_def)
  then show ?thesis by (simp add: word_unat_eq_iff)
qed

lemma in_page_offset: "i < 4096 \<Longrightarrow> in_page (p + of_nat i) p"
  by (simp add: in_page_def unat_of_nat)

lemma memset_page: "memset m p c PGSIZE a = (if in_page a p then ucast c else m a)"
  by (simp add: memset_apply PGSIZE_def in_page_def)

lemma store64_page: "\<not> in_page a p \<Longrightarrow> store64 m p v a = m a"
  by (simp add: store64_other in_page_def)

lemma load64_page_cong: "(\<And>a. in_page a p \<Longrightarrow> m a = n a) \<Longrightarrow> load64 m p = load64 n p"
  by (rule load64_cong) (simp add: in_page_offset)


section \<open>The free list as a stack of pages\<close>

text \<open>What the two operations do, once the lock is taken and given back.\<close>

lemma kfree_run:
  assumes "cpu_ok (mc s)" "lkfree KmemLock (mc s)"
  shows "kfree pa s =
    (if phys_page (kend s) pa
     then Ret () (s\<lparr>mc := settled (mc s), freelist := pa,
                    mem := store64 (memset (mem s) pa 1 PGSIZE) pa (freelist s)\<rparr>)
     else Panic ''kfree'')"
  using assms
  by (auto simp: kfree_def run_simps set_mem_def phys_page_def aligned_def not_less not_le acquire_free
      release_section)

lemma kalloc_run:
  assumes "cpu_ok (mc s)" "lkfree KmemLock (mc s)"
  shows "kalloc s =
    (if freelist s = 0 then Ret 0 (s\<lparr>mc := settled (mc s)\<rparr>)
     else Ret (freelist s) (s\<lparr>mc := settled (mc s), freelist := load64 (mem s) (freelist s),
            mem := memset (mem s) (freelist s) 5 PGSIZE\<rparr>))"
  using assms
  by (auto simp: kalloc_def run_simps set_mem_def acquire_free release_section)

lemma clear_low_bits: "x AND NOT (mask n) = push_bit n (drop_bit n x)" for x :: u64
  by (rule bit_word_eqI) (auto simp: bit_simps)

lemma unat_PGROUNDDOWN: "unat (PGROUNDDOWN a) = unat a div 4096 * 4096"
proof -
  have m: "pgsz - 1 = (mask 12 :: u64)"
    by (simp add: pgsz_def mask_eq_exp_minus_1)
  have lt: "unat a div 4096 * 4096 < 2 ^ 64"
    using unsigned_less[of a, where ?'a = nat] by (simp add: le_less_trans[OF div_times_less_eq_dividend])
  show ?thesis
    using lt unfolding PGROUNDDOWN_def m clear_low_bits
    by (simp add: drop_bit_eq_div push_bit_eq_mult unat_word_ariths(2) unat_div_distrib)
qed

lemma PGROUNDDOWN_aligned [simp]: "aligned (PGROUNDDOWN a)"
  by (simp add: aligned_unat unat_PGROUNDDOWN)

lemma PGROUNDUP_DOWN: "PGROUNDUP a = PGROUNDDOWN (a + (pgsz - 1))"
  by (simp add: PGROUNDUP_def PGROUNDDOWN_def algebra_simps)

lemma PGROUNDUP_aligned [simp]: "aligned (PGROUNDUP a)"
  by (simp add: PGROUNDUP_DOWN)

lemma unat_PGROUNDUP:
  assumes "unat a + 4095 < 2 ^ 64"
  shows "unat (PGROUNDUP a) = (unat a + 4095) div 4096 * 4096"
proof -
  have "unat (a + (pgsz - 1)) = unat a + 4095"
    using assms by (simp add: pgsz_def unat_word_ariths)
  then show ?thesis by (simp add: PGROUNDUP_DOWN unat_PGROUNDDOWN)
qed

text \<open>\<open>fl_rep m h ps\<close>: following the links from \<open>h\<close> visits the pages \<open>ps\<close> and ends in 0.\<close>

fun fl_rep :: "memory \<Rightarrow> addr \<Rightarrow> addr list \<Rightarrow> bool" where
  "fl_rep m h [] \<longleftrightarrow> h = 0"
| "fl_rep m h (p # ps) \<longleftrightarrow> h = p \<and> p \<noteq> 0 \<and> fl_rep m (load64 m p) ps"

definition pool :: "'z kmem_scheme \<Rightarrow> addr list \<Rightarrow> bool" where
  "pool s ps \<longleftrightarrow> fl_rep (mem s) (freelist s) ps \<and> distinct ps \<and>
     (\<forall>p \<in> set ps. phys_page (kend s) p)"

definition alloc_ready :: "'z kmem_scheme \<Rightarrow> bool" where
  "alloc_ready s \<longleftrightarrow> cpu_ok (mc s) \<and> lkfree KmemLock (mc s) \<and> kend s \<noteq> 0"

lemma fl_rep_cong:
  "(\<And>p. p \<in> set ps \<Longrightarrow> load64 m p = load64 n p) \<Longrightarrow> fl_rep m h ps = fl_rep n h ps"
  by (induction ps arbitrary: h) auto

lemma fl_rep_frame:
  assumes "fl_rep m h ps" "\<And>a q. q \<in> set ps \<Longrightarrow> in_page a q \<Longrightarrow> n a = m a"
  shows "fl_rep n h ps"
  using assms fl_rep_cong[of ps n m] load64_page_cong[of _ n m] by blast

lemma fl_rep_other_page:
  assumes "fl_rep m h ps" "\<And>a. \<not> in_page a p \<Longrightarrow> n a = m a"
    and "aligned p" "p \<notin> set ps" "\<forall>q \<in> set ps. phys_page e q"
  shows "fl_rep n h ps"
proof (rule fl_rep_frame[OF assms(1)])
  fix a q
  assume "q \<in> set ps" "in_page a q"
  with assms pages_disjoint[of p q a] have "\<not> in_page a p"
    by (auto simp: phys_page_def)
  with assms(2) show "n a = m a" .
qed

lemma kalloc_nil:
  assumes "alloc_ready s" "pool s []"
  shows "kalloc s = Ret 0 (s\<lparr>mc := settled (mc s)\<rparr>)"
  using assms by (simp add: alloc_ready_def pool_def kalloc_run)

text \<open>The states after popping page \<open>p\<close> and after pushing it.\<close>

definition took :: "addr \<Rightarrow> 'z kmem_scheme \<Rightarrow> 'z kmem_scheme" where
  "took p s = s\<lparr>mc := settled (mc s), freelist := load64 (mem s) p,
     mem := memset (mem s) p 5 PGSIZE\<rparr>"

definition gave :: "addr \<Rightarrow> 'z kmem_scheme \<Rightarrow> 'z kmem_scheme" where
  "gave p s = s\<lparr>mc := settled (mc s), freelist := p,
     mem := store64 (memset (mem s) p 1 PGSIZE) p (freelist s)\<rparr>"

lemma kalloc_cons:
  assumes "alloc_ready s" "pool s (p # ps)"
  shows "kalloc s = Ret p (took p s)" "pool (took p s) ps"
proof -
  have "fl_rep (mem (took p s)) (load64 (mem s) p) ps"
    by (rule fl_rep_other_page[where p = p and m = "mem s" and e = "kend s"])
       (use assms in \<open>auto simp: took_def pool_def memset_page phys_page_def\<close>)
  then show "pool (took p s) ps"
    using assms by (simp add: pool_def took_def)
  show "kalloc s = Ret p (took p s)"
    using assms by (simp add: alloc_ready_def pool_def kalloc_run took_def)
qed

lemma kfree_push:
  assumes "alloc_ready s" "pool s ps" "phys_page (kend s) p" "p \<notin> set ps"
  shows "kfree p s = Ret () (gave p s)" "pool (gave p s) (p # ps)"
proof -
  have "fl_rep (mem (gave p s)) (freelist s) ps"
    by (rule fl_rep_other_page[where p = p and m = "mem s" and e = "kend s"])
       (use assms in \<open>auto simp: gave_def pool_def memset_page store64_page phys_page_def\<close>)
  moreover have "p \<noteq> 0"
    using assms by (auto simp: phys_page_def alloc_ready_def)
  ultimately show "pool (gave p s) (p # ps)"
    using assms by (simp add: pool_def gave_def)
  show "kfree p s = Ret () (gave p s)"
    using assms by (simp add: alloc_ready_def pool_def kfree_run gave_def)
qed

lemma alloc_ready_simps [simp]:
  "alloc_ready (took p s) = alloc_ready s" "alloc_ready (gave p s) = alloc_ready s"
  "alloc_ready (s\<lparr>mc := settled (mc s)\<rparr>) = alloc_ready s"
  "kend (took p s) = kend s" "kend (gave p s) = kend s"
  by (simp_all add: alloc_ready_def took_def gave_def)

lemma pool_settled [simp]: "pool (s\<lparr>mc := m\<rparr>) ps = pool s ps"
  by (simp add: pool_def)

section \<open>The allocator's contract\<close>

text \<open>
  What clients of the allocator rely on, stated without its representation:
  \<open>avail s ps\<close> says which pages it holds, in the order it will hand them out.
\<close>

fun alloc_many :: "('s, addr) prog \<Rightarrow> nat \<Rightarrow> ('s, addr list) prog" where
  "alloc_many alloc 0 = ret []"
| "alloc_many alloc (Suc n) =
     bind alloc (\<lambda>p. bind (alloc_many alloc n) (\<lambda>ps. ret (p # ps)))"

locale page_allocator =
  fixes alloc :: "('s, addr) prog"
    and free :: "addr \<Rightarrow> ('s, unit) prog"
    and ready :: "'s \<Rightarrow> bool"
    and avail :: "'s \<Rightarrow> addr list \<Rightarrow> bool"
    and owned_page :: "'s \<Rightarrow> addr \<Rightarrow> bool"
  assumes alloc_nil: "ready s \<Longrightarrow> avail s [] \<Longrightarrow>
            \<exists>t. alloc s = Ret 0 t \<and> ready t \<and> avail t []"
    and alloc_cons: "ready s \<Longrightarrow> avail s (p # ps) \<Longrightarrow>
            \<exists>t. alloc s = Ret p t \<and> ready t \<and> avail t ps \<and> owned_page t p"
    and free_page: "ready s \<Longrightarrow> avail s ps \<Longrightarrow> owned_page s p \<Longrightarrow> p \<notin> set ps \<Longrightarrow>
            \<exists>t. free p s = Ret () t \<and> ready t \<and> avail t (p # ps)"
    and avail_distinct: "avail s ps \<Longrightarrow> distinct ps"
    and avail_nonnull: "avail s ps \<Longrightarrow> 0 \<notin> set ps"
begin

lemma alloc_many_take:
  assumes "ready s" "avail s ps" "n \<le> length ps"
  shows "\<exists>t. alloc_many alloc n s = Ret (take n ps) t \<and> ready t \<and> avail t (drop n ps)"
  using assms
proof (induction n arbitrary: s ps)
  case 0
  then show ?case by (simp add: run_simps)
next
  case (Suc n)
  then obtain p qs where ps: "ps = p # qs" by (cases ps) auto
  from alloc_cons[of s p qs] Suc.prems ps obtain t
    where t: "alloc s = Ret p t" "ready t" "avail t qs" by blast
  from Suc.IH[OF t(2,3)] Suc.prems ps obtain u
    where "alloc_many alloc n t = Ret (take n qs) u" "ready u" "avail u (drop n qs)" by auto
  with t ps show ?case by (simp add: run_simps)
qed

lemma alloc_many_distinct:
  assumes "ready s" "avail s ps" "n \<le> length ps"
  shows "\<exists>qs t. alloc_many alloc n s = Ret qs t \<and> length qs = n \<and> distinct qs \<and> 0 \<notin> set qs \<and>
    avail t (drop n ps) \<and> set qs \<inter> set (drop n ps) = {}"
proof -
  from alloc_many_take[OF assms] obtain t
    where t: "alloc_many alloc n s = Ret (take n ps) t" "avail t (drop n ps)" by blast
  moreover have "distinct (take n ps @ drop n ps)" "0 \<notin> set (take n ps @ drop n ps)"
    using avail_distinct[OF assms(2)] avail_nonnull[OF assms(2)] by simp_all
  then have "distinct (take n ps)" "0 \<notin> set (take n ps)" "set (take n ps) \<inter> set (drop n ps) = {}"
    unfolding distinct_append set_append by blast+
  ultimately show ?thesis using assms(3) by auto
qed

lemma free_then_alloc:
  assumes "ready s" "avail s ps" "owned_page s p" "p \<notin> set ps"
  shows "\<exists>t. bind (free p) (\<lambda>_. alloc) s = Ret p t \<and> ready t \<and> avail t ps"
proof -
  from free_page[OF assms] obtain t where t: "free p s = Ret () t" "ready t" "avail t (p # ps)"
    by blast
  from alloc_cons[OF t(2,3)] obtain u where "alloc t = Ret p u" "ready u" "avail u ps" by blast
  with t show ?thesis by auto
qed

end

interpretation kpages: page_allocator kalloc kfree alloc_ready pool
  "\<lambda>s. phys_page (kend s)"
proof (unfold_locales, goal_cases)
  case (1 s)
  then show ?case using kalloc_nil[of s] by simp
next
  case (2 s p ps)
  then show ?case using kalloc_cons[of s p ps] by (auto simp: pool_def)
next
  case (3 s ps p)
  then show ?case using kfree_push[of s ps p] by auto
next
  case (4 s ps)
  then show ?case by (simp add: pool_def)
next
  case (5 s ps)
  moreover have "fl_rep m h qs \<Longrightarrow> 0 \<notin> set qs" for m h qs
    by (induction qs arbitrary: h) auto
  ultimately show ?case by (auto simp: pool_def)
qed

section \<open>Building the free list\<close>

lemma page_step:
  assumes "phys_page e p"
  shows "{q. phys_page e q \<and> q < p + pgsz} = insert p {q. phys_page e q \<and> q < p}"
    and "aligned (p + pgsz)" "e \<le> p + pgsz" "p + pgsz \<le> PHYSTOP"
proof -
  have p: "aligned p" "p < PHYSTOP" "e \<le> p"
    using assms by (simp_all add: phys_page_def)
  note s = unat_page_step[OF p(1)[unfolded aligned_def] p(2)]
  have "q < p + pgsz \<longleftrightarrow> q < p \<or> q = p" if al: "aligned q" for q
  proof -
    obtain j where "unat q = 4096 * j" using al by (rule alignedE)
    moreover obtain k where "unat p = 4096 * k" using p(1) by (rule alignedE)
    ultimately show ?thesis
      using s(1) by (auto simp: word_less_nat_alt word_unat_eq_iff)
  qed
  then show "{q. phys_page e q \<and> q < p + pgsz} = insert p {q. phys_page e q \<and> q < p}"
    using assms by (auto simp: phys_page_def)
  show "aligned (p + pgsz)"
    using p(1) s by (simp add: aligned_unat)
  show "e \<le> p + pgsz"
    using p(3) s(1) by (simp add: word_le_nat_alt)
  show "p + pgsz \<le> PHYSTOP"
    using s by (simp add: word_le_nat_alt PHYSTOP_val)
qed

lemma freerange_loop_pool:
  assumes "alloc_ready s" "pool s ps" "set ps = {q. phys_page (kend s) q \<and> q < p}"
    and "aligned p" "kend s \<le> p" "p \<le> PHYSTOP"
  shows "\<exists>t qs. freerange_loop p PHYSTOP s = Ret () t \<and> pool t qs \<and> alloc_ready t \<and>
    kend t = kend s \<and> set qs = {q. phys_page (kend s) q}"
  using assms
proof (induction "0x88000000 - unat p" arbitrary: p s ps rule: less_induct)
  case less
  show ?case
  proof (cases "p < PHYSTOP")
    case True
    then have page: "phys_page (kend s) p"
      using less.prems by (simp add: phys_page_def)
    note st = page_step[OF page]
    have "p \<notin> set ps" using less.prems(3) by simp
    note f = kfree_push[OF less.prems(1,2) page this]
    have "unat (p + pgsz) = unat p + 4096" "unat p + 4096 \<le> 0x88000000"
      using unat_page_step[of p] less.prems True by (simp_all add: aligned_def)
    then have "0x88000000 - unat (p + pgsz) < 0x88000000 - unat p" by simp
    from less.hyps[OF this, of "gave p s" "p # ps"] f(2) less.prems st
    obtain t qs where "freerange_loop (p + pgsz) PHYSTOP (gave p s) = Ret () t" "pool t qs"
      "alloc_ready t" "kend t = kend s" "set qs = {q. phys_page (kend s) q}"
      by auto
    with f(1) st(4) show ?thesis
      by (subst freerange_loop.simps) auto
  next
    case False
    with less.prems(6) have p: "p = PHYSTOP" by simp
    then have "\<not> p + pgsz \<le> PHYSTOP"
      by (simp add: PHYSTOP_val pgsz_def)
    then have "freerange_loop p PHYSTOP s = Ret () s"
      by (subst freerange_loop.simps) simp
    moreover have "set ps = {q. phys_page (kend s) q}"
      using less.prems(3) p by (auto simp: phys_page_def)
    ultimately show ?thesis using less.prems by auto
  qed
qed

section \<open>Properties\<close>

definition ex_kmem :: kmem where
  "ex_kmem = \<lparr>mc = quiet, mem = store64 (\<lambda>_. 0) 0x80002000 0x80003000, freelist = 0x80002000,
     kend = 0x80001000, etext = 0x80001000, trampoline = 0x80000000\<rparr>"

lemma ex_kmem_pool: "pool ex_kmem [0x80002000, 0x80003000]" "alloc_ready ex_kmem"
proof -
  have "load64 (store64 (\<lambda>_. 0) 0x80002000 0x80003000) 0x80003000 = load64 (\<lambda>_. 0) 0x80003000"
    by (rule load64_page_cong)
       (use pages_disjoint[of "0x80002000" "0x80003000"] in \<open>auto simp: aligned_unat intro!: store64_page\<close>)
  then show "pool ex_kmem [0x80002000, 0x80003000]" "alloc_ready ex_kmem"
    by (simp_all add: pool_def ex_kmem_def phys_page_def PHYSTOP_val aligned_unat alloc_ready_def
        load64_def[of "\<lambda>_. 0"])
qed

text \<open>
  C23: \<open>kinit\<close> puts every whole page between the end of the kernel and \<open>PHYSTOP\<close> on
  the free list, each exactly once, and nothing else.
\<close>

theorem kinit_frees_all_pages:
  assumes "cpu_ok (mc s)" "kend s \<noteq> 0" "kend s \<le> PHYSTOP" "freelist s = 0"
  shows "\<exists>t ps. kinit s = Ret () t \<and> pool t ps \<and> alloc_ready t \<and> set ps = {q. phys_page (kend s) q}"
proof -
  define l where "l = (\<lparr>locked = 0, lname = ''kmem'', lcpu = None\<rparr> :: spinlock)"
  let ?s = "s\<lparr>mc := (mc s)\<lparr>locks := (locks (mc s))(KmemLock := l)\<rparr>\<rparr>"
  let ?p = "PGROUNDUP (kend s)"
  have e: "unat (kend s) \<le> 0x88000000"
    using assms(3) by (simp add: word_le_nat_alt PHYSTOP_val)
  then have up: "unat ?p = (unat (kend s) + 4095) div 4096 * 4096"
    by (simp add: unat_PGROUNDUP)
  have le: "kend s \<le> ?p" "?p \<le> PHYSTOP"
    using up e by (simp_all add: word_le_nat_alt PHYSTOP_val)
  have lt: "\<not> q < ?p" if q: "phys_page (kend s) q" for q
  proof
    assume "q < ?p"
    moreover obtain j where "unat q = 4096 * j"
      using q by (auto simp: phys_page_def elim: alignedE)
    moreover have "unat (kend s) \<le> unat q"
      using that by (simp add: phys_page_def word_le_nat_alt)
    ultimately show False
      using up by (simp add: word_less_nat_alt)
  qed
  have "alloc_ready ?s" "pool ?s []"
    using assms
    by (simp_all add: alloc_ready_def pool_def cpu_ok_def lkfree_def mycpu_of_def me_def intr_def l_def)
  from freerange_loop_pool[OF this, of ?p] le lt
  obtain t qs where "freerange_loop ?p PHYSTOP ?s = Ret () t" "pool t qs" "alloc_ready t"
    "set qs = {q. phys_page (kend s) q}"
    by auto
  moreover have "kinit s = freerange_loop ?p PHYSTOP ?s"
    by (simp add: kinit_def initlock_def upd_lock_def getm_run run_simps freerange_def l_def)
  ultimately show ?thesis by auto
qed

theorem kinit_frees_all_pages_witness:
  "\<exists>t ps. kinit (ex_kmem\<lparr>freelist := 0\<rparr>) = Ret () t \<and> pool t ps \<and>
     set ps = {q. phys_page 0x80001000 q}"
  using kinit_frees_all_pages[of "ex_kmem\<lparr>freelist := 0\<rparr>"]
  by (auto simp: ex_kmem_def PHYSTOP_val)

text \<open>
  C4: as long as the free list lasts, successive calls of \<open>kalloc\<close> return distinct
  non-null pages, and none of them is still on the list afterwards.
\<close>

theorem kalloc_pages_distinct:
  assumes "alloc_ready s" "pool s ps" "n \<le> length ps"
  shows "\<exists>qs t. alloc_many kalloc n s = Ret qs t \<and> length qs = n \<and> distinct qs \<and> 0 \<notin> set qs \<and>
    pool t (drop n ps) \<and> set qs \<inter> set (drop n ps) = {}"
  using assms by (rule kpages.alloc_many_distinct)

theorem kalloc_pages_distinct_witness:
  "\<exists>qs t. alloc_many kalloc 2 ex_kmem = Ret qs t \<and> distinct qs \<and> pool t []"
  using kalloc_pages_distinct[of ex_kmem _ 2, OF ex_kmem_pool(2,1)] by auto

text \<open>
  C24: \<open>kfree\<close> accepts exactly the page-aligned addresses in \<open>[end, PHYSTOP)\<close> and
  panics on every other; a freed page is what the next \<open>kalloc\<close> returns, and the list
  is then what it was.
\<close>

theorem kfree_then_kalloc:
  assumes "alloc_ready s" "pool s ps" "p \<notin> set ps"
  shows "if p mod pgsz = 0 \<and> kend s \<le> p \<and> p < PHYSTOP
    then \<exists>t. bind (kfree p) (\<lambda>_. kalloc) s = Ret p t \<and> pool t ps
    else kfree p s = Panic ''kfree''"
proof (cases "phys_page (kend s) p")
  case True
  with kpages.free_then_alloc[OF assms(1,2) True assms(3)] show ?thesis
    by (auto simp: phys_page_def aligned_def)
next
  case False
  with assms(1) have "kfree p s = Panic ''kfree''"
    by (simp add: kfree_run alloc_ready_def)
  with False show ?thesis by (simp add: phys_page_def aligned_def)
qed

theorem kfree_then_kalloc_witness:
  "(\<exists>t. bind (kfree 0x80004000) (\<lambda>_. kalloc) ex_kmem = Ret 0x80004000 t) \<and>
   kfree 0x80004001 ex_kmem = Panic ''kfree''"
  using kfree_then_kalloc[of ex_kmem _ "0x80004000", OF ex_kmem_pool(2,1)]
    kfree_then_kalloc[of ex_kmem _ "0x80004001", OF ex_kmem_pool(2,1)]
  by (auto simp: pgsz_def ex_kmem_def PHYSTOP_val)

end
