(* ===== verification/Vm.thy ===== *)
theory Vm
  imports Kalloc
begin

text \<open>
  Sv39 page tables: \<open>kernel/vm.c\<close>, \<open>proc_mapstacks\<close> of \<open>kernel/proc.c\<close> and the
  page-table macros of \<open>kernel/riscv.h\<close>.

  Page tables live in the modelled physical memory: a table page holds 512 64-bit
  entries, read with \<open>load64\<close> and written with \<open>store64\<close>. Kernel buffers that are
  not pages (\<open>src\<close> of \<open>copyout\<close>, \<open>dst\<close> of \<open>copyin\<close>) are byte functions.

  Loops over addresses end because \<open>walk\<close> panics from \<open>MAXVA\<close> on; \<open>freewalk\<close>
  recurses on what it finds in memory, so its model has a depth bound, and exhausting
  it is the outcome \<open>Spin\<close>.

  Results: what \<open>walk\<close> and \<open>mappages\<close> do to every translation, that
  \<open>uvmunmap\<close> undoes it, and what \<open>copyout\<close>, \<open>copyin\<close> and \<open>copyinstr\<close>
  transfer.
\<close>

section \<open>Page-table entries\<close>

definition PTE_V :: u64 where
  "PTE_V = push_bit 0 1"

definition PTE_R :: u64 where
  "PTE_R = push_bit 1 1"

definition PTE_W :: u64 where
  "PTE_W = push_bit 2 1"

definition PTE_X :: u64 where
  "PTE_X = push_bit 3 1"

definition PTE_U :: u64 where
  "PTE_U = push_bit 4 1"

definition PA2PTE :: "addr \<Rightarrow> u64" where
  "PA2PTE pa = push_bit 10 (drop_bit 12 pa)"

definition PTE2PA :: "u64 \<Rightarrow> addr" where
  "PTE2PA pte = push_bit 12 (drop_bit 10 pte)"

definition PTE_FLAGS :: "u64 \<Rightarrow> u64" where
  "PTE_FLAGS pte = pte AND 0x3FF"

definition PX :: "nat \<Rightarrow> addr \<Rightarrow> u64" where
  "PX level va = drop_bit (12 + 9 * level) va AND 0x1FF"

definition MAXVA :: addr where
  "MAXVA = push_bit (9 + 9 + 9 + 12 - 1) 1"

definition UART0 :: addr where
  "UART0 = 0x10000000"

definition VIRTIO0 :: addr where
  "VIRTIO0 = 0x10001000"

definition PLIC :: addr where
  "PLIC = 0x0c000000"

definition CLINT :: addr where
  "CLINT = 0x2000000"

definition TRAMPOLINE :: addr where
  "TRAMPOLINE = MAXVA - pgsz"

definition TRAPFRAME :: addr where
  "TRAPFRAME = TRAMPOLINE - pgsz"

definition KSTACK :: "nat \<Rightarrow> addr" where
  "KSTACK p = TRAMPOLINE - (of_nat p + 1) * 2 * pgsz"

definition MAKE_SATP :: "addr \<Rightarrow> u64" where
  "MAKE_SATP pagetable = push_bit 60 8 OR drop_bit 12 pagetable"

record vmem = kmem +
  kernel_pagetable :: addr
  satp :: u64

definition pte_at :: "addr \<Rightarrow> ('z kmem_scheme, u64) prog" where
  "pte_at pte = gets (\<lambda>s. load64 (mem s) pte)"

definition set_pte :: "addr \<Rightarrow> u64 \<Rightarrow> ('z kmem_scheme, unit) prog" where
  "set_pte pte v = set_mem (\<lambda>m. store64 m pte v)"

section \<open>Walking and mapping\<close>

fun walk_levels :: "nat list \<Rightarrow> addr \<Rightarrow> addr \<Rightarrow> int \<Rightarrow> ('z kmem_scheme, addr) prog" where
  "walk_levels [] pagetable va alloc = ret (pagetable + 8 * PX 0 va)"
| "walk_levels (level # levels) pagetable va alloc =
     (let pte = pagetable + 8 * PX level va in
      bind (pte_at pte) (\<lambda>e.
      if e AND PTE_V \<noteq> 0 then walk_levels levels (PTE2PA e) va alloc
      else if alloc = 0 then ret 0
      else bind kalloc (\<lambda>pagetable.
      if pagetable = 0 then ret 0
      else bind (set_mem (\<lambda>m. memset m pagetable 0 PGSIZE)) (\<lambda>_.
      bind (set_pte pte (PA2PTE pagetable OR PTE_V)) (\<lambda>_.
      walk_levels levels pagetable va alloc)))))"

definition walk :: "addr \<Rightarrow> addr \<Rightarrow> int \<Rightarrow> ('z kmem_scheme, addr) prog" where
  "walk pagetable va alloc =
     (if va \<ge> MAXVA then panic ''walk'' else walk_levels [2, 1] pagetable va alloc)"

definition walkaddr :: "addr \<Rightarrow> addr \<Rightarrow> ('z kmem_scheme, addr) prog" where
  "walkaddr pagetable va =
     (if va \<ge> MAXVA then ret 0
      else bind (walk pagetable va 0) (\<lambda>pte.
      if pte = 0 then ret 0
      else bind (pte_at pte) (\<lambda>e.
      if e AND PTE_V = 0 then ret 0
      else if e AND PTE_U = 0 then ret 0
      else ret (PTE2PA e))))"

lemma walk_Ret_MAXVA: "walk pagetable va alloc s = Ret pte t \<Longrightarrow> va < MAXVA"
  by (auto simp: walk_def run_simps not_le split: if_splits)

lemma MAXVA_val: "MAXVA = 0x4000000000"
  by (simp add: MAXVA_def)

lemma unat_next_page: "a < MAXVA \<Longrightarrow> unat (a + pgsz) = unat a + 4096"
  by (simp add: MAXVA_val pgsz_def word_less_nat_alt unat_word_ariths)

definition va_left :: "addr \<Rightarrow> nat" where
  "va_left a = 2 ^ 64 - unat a"

lemma va_left_less [simp]: "a < MAXVA \<Longrightarrow> va_left (a + pgsz) < va_left a"
  using unsigned_less[of a, where ?'a = nat] by (simp add: va_left_def unat_next_page)

function mappages_loop ::
  "addr \<Rightarrow> addr \<Rightarrow> addr \<Rightarrow> addr \<Rightarrow> u64 \<Rightarrow> ('z kmem_scheme, int) prog" where
  "mappages_loop pagetable a lst pa perm s =
     (case walk pagetable a 1 s of
        Ret pte t \<Rightarrow>
          (if pte = 0 then Ret (-1) t
           else if load64 (mem t) pte AND PTE_V \<noteq> 0 then Panic ''mappages: remap''
           else let u = t\<lparr>mem := store64 (mem t) pte (PA2PTE pa OR perm OR PTE_V)\<rparr> in
           if a = lst then Ret 0 u
           else mappages_loop pagetable (a + pgsz) lst (pa + pgsz) perm u)
      | Panic e \<Rightarrow> Panic e | Switch t \<Rightarrow> Switch t | Spin t \<Rightarrow> Spin t)"
  by pat_completeness auto
termination
  by (relation "measure (\<lambda>(pt, a, lst, pa, perm, s). va_left a)")
     (auto dest!: walk_Ret_MAXVA)

definition mappages ::
  "addr \<Rightarrow> addr \<Rightarrow> u64 \<Rightarrow> addr \<Rightarrow> u64 \<Rightarrow> ('z kmem_scheme, int) prog" where
  "mappages pagetable va sz pa perm =
     (if va mod pgsz \<noteq> 0 then panic ''mappages: va not aligned''
      else if sz mod pgsz \<noteq> 0 then panic ''mappages: size not aligned''
      else if sz = 0 then panic ''mappages: size''
      else mappages_loop pagetable va (va + sz - pgsz) pa perm)"

declare mappages_loop.simps [simp del]


definition kvmmap ::
  "addr \<Rightarrow> addr \<Rightarrow> addr \<Rightarrow> u64 \<Rightarrow> u64 \<Rightarrow> ('z kmem_scheme, unit) prog" where
  "kvmmap kpgtbl va pa sz perm =
     bind (mappages kpgtbl va sz pa perm) (\<lambda>r.
     only_if (r \<noteq> 0) (panic ''kvmmap''))"

definition proc_mapstacks :: "addr \<Rightarrow> ('z kmem_scheme, unit) prog" where
  "proc_mapstacks kpgtbl =
     for_each [0..<NPROC] (\<lambda>p.
       bind kalloc (\<lambda>pa.
       bind (only_if (pa = 0) (panic ''kalloc'')) (\<lambda>_.
       kvmmap kpgtbl (KSTACK p) pa pgsz (PTE_R OR PTE_W))))"

definition kvmmake :: "('z kmem_scheme, addr) prog" where
  "kvmmake =
     bind kalloc (\<lambda>kpgtbl.
     bind (set_mem (\<lambda>m. memset m kpgtbl 0 PGSIZE)) (\<lambda>_.
     bind (kvmmap kpgtbl UART0 UART0 pgsz (PTE_R OR PTE_W)) (\<lambda>_.
     bind (kvmmap kpgtbl VIRTIO0 VIRTIO0 pgsz (PTE_R OR PTE_W)) (\<lambda>_.
     bind (kvmmap kpgtbl PLIC PLIC 0x4000000 (PTE_R OR PTE_W)) (\<lambda>_.
     bind (kvmmap kpgtbl CLINT CLINT 0x10000 (PTE_R OR PTE_W)) (\<lambda>_.
     bind (gets etext) (\<lambda>et.
     bind (kvmmap kpgtbl KERNBASE KERNBASE (et - KERNBASE) (PTE_R OR PTE_X)) (\<lambda>_.
     bind (kvmmap kpgtbl et et (PHYSTOP - et) (PTE_R OR PTE_W)) (\<lambda>_.
     bind (gets trampoline) (\<lambda>tr.
     bind (kvmmap kpgtbl TRAMPOLINE tr pgsz (PTE_R OR PTE_X)) (\<lambda>_.
     bind (proc_mapstacks kpgtbl) (\<lambda>_.
     ret kpgtbl))))))))))))"

definition kvminit :: "('z vmem_scheme, unit) prog" where
  "kvminit = bind kvmmake (\<lambda>k. modify (\<lambda>s. s\<lparr>kernel_pagetable := k\<rparr>))"

definition kvminithart :: "('z vmem_scheme, unit) prog" where
  "kvminithart = modify (\<lambda>s. s\<lparr>satp := MAKE_SATP (kernel_pagetable s)\<rparr>)"

section \<open>User address spaces\<close>

function uvmunmap_loop :: "addr \<Rightarrow> addr \<Rightarrow> addr \<Rightarrow> int \<Rightarrow> ('z kmem_scheme, unit) prog" where
  "uvmunmap_loop pagetable a bound do_free s =
     (if a < bound
      then (case walk pagetable a 0 s of
         Ret pte t \<Rightarrow>
          (if pte = 0 then Panic ''uvmunmap: walk''
           else let e = load64 (mem t) pte in
           if e AND PTE_V = 0 then Panic ''uvmunmap: not mapped''
           else if PTE_FLAGS e = PTE_V then Panic ''uvmunmap: not a leaf''
           else (case (if do_free \<noteq> 0 then kfree (PTE2PA e) t else Ret () t) of
               Ret _ u \<Rightarrow> uvmunmap_loop pagetable (a + pgsz) bound do_free
                           (u\<lparr>mem := store64 (mem u) pte 0\<rparr>)
             | Panic e \<Rightarrow> Panic e | Switch u \<Rightarrow> Switch u | Spin u \<Rightarrow> Spin u))
       | Panic e \<Rightarrow> Panic e | Switch t \<Rightarrow> Switch t | Spin t \<Rightarrow> Spin t)
      else Ret () s)"
  by pat_completeness auto
termination
  by (relation "measure (\<lambda>(pt, a, b, d, s). va_left a)")
     (auto dest!: walk_Ret_MAXVA)

definition uvmunmap :: "addr \<Rightarrow> addr \<Rightarrow> u64 \<Rightarrow> int \<Rightarrow> ('z kmem_scheme, unit) prog" where
  "uvmunmap pagetable va npages do_free =
     (if va mod pgsz \<noteq> 0 then panic ''uvmunmap: not aligned''
      else uvmunmap_loop pagetable va (va + npages * pgsz) do_free)"

definition uvmcreate :: "('z kmem_scheme, addr) prog" where
  "uvmcreate =
     bind kalloc (\<lambda>pagetable.
     if pagetable = 0 then ret 0
     else bind (set_mem (\<lambda>m. memset m pagetable 0 PGSIZE)) (\<lambda>_.
     ret pagetable))"

definition uvmfirst :: "addr \<Rightarrow> cstr \<Rightarrow> u32 \<Rightarrow> ('z kmem_scheme, unit) prog" where
  "uvmfirst pagetable src sz =
     (if sz \<ge> 4096 then panic ''uvmfirst: more than a page''
      else bind kalloc (\<lambda>pg.
      bind (set_mem (\<lambda>m. memset m pg 0 PGSIZE)) (\<lambda>_.
      bind (mappages pagetable 0 pgsz pg (PTE_W OR PTE_R OR PTE_X OR PTE_U)) (\<lambda>_.
      set_mem (\<lambda>m. move_out m pg src (unat sz))))))"

text \<open>\<open>npages\<close> is an \<open>int\<close> in \<open>uvmdealloc\<close>, converted back when it is passed on.\<close>

definition uvmdealloc :: "addr \<Rightarrow> u64 \<Rightarrow> u64 \<Rightarrow> ('z kmem_scheme, u64) prog" where
  "uvmdealloc pagetable oldsz newsz =
     (if newsz \<ge> oldsz then ret oldsz
      else bind (only_if (PGROUNDUP newsz < PGROUNDUP oldsz)
        (let npages = ucast ((PGROUNDUP oldsz - PGROUNDUP newsz) div pgsz) :: u32 in
         uvmunmap pagetable (PGROUNDUP newsz) (scast npages) 1)) (\<lambda>_.
      ret newsz))"

lemma mappages_Ret_MAXVA: "mappages pagetable va sz pa perm s = Ret r t \<Longrightarrow> va < MAXVA"
proof -
  assume "mappages pagetable va sz pa perm s = Ret r t"
  then have "mappages_loop pagetable va (va + sz - pgsz) pa perm s = Ret r t"
    by (auto simp: mappages_def run_simps split: if_splits)
  then show ?thesis
    by (subst (asm) mappages_loop.simps) (auto split: outcome.splits dest: walk_Ret_MAXVA)
qed

function uvmalloc_loop ::
  "addr \<Rightarrow> u64 \<Rightarrow> u64 \<Rightarrow> u64 \<Rightarrow> u64 \<Rightarrow> ('z kmem_scheme, u64) prog" where
  "uvmalloc_loop pagetable oldsz a newsz xperm s =
     (if a < newsz
      then (case kalloc s of
         Ret pg t \<Rightarrow>
          (if pg = 0 then bind (uvmdealloc pagetable a oldsz) (\<lambda>_. ret 0) t
           else (case mappages pagetable a pgsz pg (PTE_R OR PTE_U OR xperm)
                        (t\<lparr>mem := memset (mem t) pg 0 PGSIZE\<rparr>) of
               Ret r u \<Rightarrow>
                (if r \<noteq> 0
                 then bind (kfree pg) (\<lambda>_. bind (uvmdealloc pagetable a oldsz) (\<lambda>_. ret 0)) u
                 else uvmalloc_loop pagetable oldsz (a + pgsz) newsz xperm u)
             | Panic e \<Rightarrow> Panic e | Switch u \<Rightarrow> Switch u | Spin u \<Rightarrow> Spin u))
       | Panic e \<Rightarrow> Panic e | Switch t \<Rightarrow> Switch t | Spin t \<Rightarrow> Spin t)
      else Ret newsz s)"
  by pat_completeness auto
termination
  by (relation "measure (\<lambda>(pt, old, a, new, x, s). va_left a)")
     (auto dest!: mappages_Ret_MAXVA)

definition uvmalloc :: "addr \<Rightarrow> u64 \<Rightarrow> u64 \<Rightarrow> u64 \<Rightarrow> ('z kmem_scheme, u64) prog" where
  "uvmalloc pagetable oldsz newsz xperm =
     (if newsz < oldsz then ret oldsz
      else uvmalloc_loop pagetable (PGROUNDUP oldsz) (PGROUNDUP oldsz) newsz xperm)"

text \<open>Every page-table tree has three levels, so the recursion is at most that deep.\<close>

fun freewalk_depth :: "nat \<Rightarrow> addr \<Rightarrow> ('z kmem_scheme, unit) prog" where
  "freewalk_depth 0 pagetable = spin"
| "freewalk_depth (Suc d) pagetable =
     bind (for_each [0..<512] (\<lambda>i.
       bind (pte_at (pagetable + 8 * of_nat i)) (\<lambda>pte.
       if pte AND PTE_V \<noteq> 0 \<and> pte AND (PTE_R OR PTE_W OR PTE_X) = 0
       then bind (freewalk_depth d (PTE2PA pte)) (\<lambda>_. set_pte (pagetable + 8 * of_nat i) 0)
       else if pte AND PTE_V \<noteq> 0 then panic ''freewalk: leaf''
       else ret ()))) (\<lambda>_.
     kfree pagetable)"

definition freewalk :: "addr \<Rightarrow> ('z kmem_scheme, unit) prog" where
  "freewalk pagetable = freewalk_depth 3 pagetable"

definition uvmfree :: "addr \<Rightarrow> u64 \<Rightarrow> ('z kmem_scheme, unit) prog" where
  "uvmfree pagetable sz =
     bind (only_if (sz > 0) (uvmunmap pagetable 0 (PGROUNDUP sz div pgsz) 1)) (\<lambda>_.
     freewalk pagetable)"

definition uvmcopy_err :: "addr \<Rightarrow> u64 \<Rightarrow> ('z kmem_scheme, int) prog" where
  "uvmcopy_err new i = bind (uvmunmap new 0 (i div pgsz) 1) (\<lambda>_. ret (-1))"

function uvmcopy_loop :: "addr \<Rightarrow> addr \<Rightarrow> u64 \<Rightarrow> u64 \<Rightarrow> ('z kmem_scheme, int) prog" where
  "uvmcopy_loop old new i sz s =
     (if i < sz
      then (case walk old i 0 s of
         Ret pte t \<Rightarrow>
          (if pte = 0 then Panic ''uvmcopy: pte should exist''
           else let e = load64 (mem t) pte in
           if e AND PTE_V = 0 then Panic ''uvmcopy: page not present''
           else (case kalloc t of
               Ret pg u \<Rightarrow>
                (if pg = 0 then uvmcopy_err new i u
                 else (case mappages new i pgsz pg (PTE_FLAGS e)
                           (u\<lparr>mem := memmove (mem u) pg (PTE2PA e) PGSIZE\<rparr>) of
                     Ret r v \<Rightarrow>
                      (if r \<noteq> 0 then bind (kfree pg) (\<lambda>_. uvmcopy_err new i) v
                       else uvmcopy_loop old new (i + pgsz) sz v)
                   | Panic e \<Rightarrow> Panic e | Switch v \<Rightarrow> Switch v | Spin v \<Rightarrow> Spin v))
             | Panic e \<Rightarrow> Panic e | Switch u \<Rightarrow> Switch u | Spin u \<Rightarrow> Spin u))
       | Panic e \<Rightarrow> Panic e | Switch t \<Rightarrow> Switch t | Spin t \<Rightarrow> Spin t)
      else Ret 0 s)"
  by pat_completeness auto
termination
  by (relation "measure (\<lambda>(old, new, i, sz, s). va_left i)")
     (auto dest!: mappages_Ret_MAXVA)

definition uvmcopy :: "addr \<Rightarrow> addr \<Rightarrow> u64 \<Rightarrow> ('z kmem_scheme, int) prog" where
  "uvmcopy old new sz = uvmcopy_loop old new 0 sz"

definition uvmclear :: "addr \<Rightarrow> addr \<Rightarrow> ('z kmem_scheme, unit) prog" where
  "uvmclear pagetable va =
     bind (walk pagetable va 0) (\<lambda>pte.
     if pte = 0 then panic ''uvmclear''
     else bind (pte_at pte) (\<lambda>e. set_pte pte (e AND NOT PTE_U)))"

section \<open>Moving data between kernel and user\<close>

definition chunk :: "addr \<Rightarrow> u64 \<Rightarrow> u64" where
  "chunk va len =
     (let n = pgsz - (va - PGROUNDDOWN va) in if n > len then len else n)"

lemma page_offset: "unat (va - PGROUNDDOWN va) = unat va mod 4096"
proof -
  have "PGROUNDDOWN va \<le> va"
    by (simp add: word_le_nat_alt unat_PGROUNDDOWN)
  then show ?thesis
    by (simp add: unat_sub unat_PGROUNDDOWN minus_div_mult_eq_mod)
qed

lemma unat_chunk: "unat (chunk va len) = min (4096 - unat va mod 4096) (unat len)"
proof -
  have "va - PGROUNDDOWN va \<le> pgsz"
    by (simp add: word_le_nat_alt page_offset pgsz_def less_imp_le)
  then have "unat (pgsz - (va - PGROUNDDOWN va)) = 4096 - unat va mod 4096"
    by (simp add: unat_sub page_offset) (simp add: pgsz_def)
  then show ?thesis
    by (auto simp: chunk_def Let_def word_less_nat_alt min_def)
qed

lemma chunk_less [simp]: "len > 0 \<Longrightarrow> unat (len - chunk va len) < unat len"
proof -
  assume "len > 0"
  then have "0 < unat len" by (simp add: word_less_nat_alt)
  moreover have "0 < 4096 - unat va mod 4096" by simp
  moreover have "chunk va len \<le> len" by (simp add: word_le_nat_alt unat_chunk)
  ultimately show ?thesis
    by (simp add: unat_sub unat_chunk del: zero_less_diff)
qed

function copyout :: "addr \<Rightarrow> addr \<Rightarrow> cstr \<Rightarrow> u64 \<Rightarrow> ('z kmem_scheme, int) prog" where
  "copyout pagetable dstva src len s =
     (if len > 0
      then let va0 = PGROUNDDOWN dstva in
        if va0 \<ge> MAXVA then Ret (-1) s
        else (case walk pagetable va0 0 s of
           Ret pte t \<Rightarrow>
            (if pte = 0 \<or> load64 (mem t) pte AND PTE_V = 0 \<or> load64 (mem t) pte AND PTE_U = 0 \<or>
                load64 (mem t) pte AND PTE_W = 0
             then Ret (-1) t
             else let pa0 = PTE2PA (load64 (mem t) pte); n = chunk dstva len in
               copyout pagetable (va0 + pgsz) (\<lambda>i. src (unat n + i)) (len - n)
                 (t\<lparr>mem := move_out (mem t) (pa0 + (dstva - va0)) src (unat n)\<rparr>))
         | Panic e \<Rightarrow> Panic e | Switch t \<Rightarrow> Switch t | Spin t \<Rightarrow> Spin t)
      else Ret 0 s)"
  by pat_completeness auto
termination
  by (relation "measure (\<lambda>(pt, va, src, len, s). unat len)") simp_all

function copyin_loop ::
  "addr \<Rightarrow> cstr \<Rightarrow> nat \<Rightarrow> addr \<Rightarrow> u64 \<Rightarrow> ('z kmem_scheme, int \<times> cstr) prog" where
  "copyin_loop pagetable dst k srcva len s =
     (if len > 0
      then let va0 = PGROUNDDOWN srcva in
        (case walkaddr pagetable va0 s of
           Ret pa0 t \<Rightarrow>
            (if pa0 = 0 then Ret (-1, dst) t
             else let n = chunk srcva len in
               copyin_loop pagetable (move_in dst k (mem t) (pa0 + (srcva - va0)) (unat n))
                 (k + unat n) (va0 + pgsz) (len - n) t)
         | Panic e \<Rightarrow> Panic e | Switch t \<Rightarrow> Switch t | Spin t \<Rightarrow> Spin t)
      else Ret (0, dst) s)"
  by pat_completeness auto
termination
  by (relation "measure (\<lambda>(pt, dst, k, va, len, s). unat len)") simp_all

definition copyin ::
  "addr \<Rightarrow> cstr \<Rightarrow> addr \<Rightarrow> u64 \<Rightarrow> ('z kmem_scheme, int \<times> cstr) prog" where
  "copyin pagetable dst srcva len = copyin_loop pagetable dst 0 srcva len"

fun copyinstr_page :: "memory \<Rightarrow> addr \<Rightarrow> nat \<Rightarrow> u64 \<Rightarrow> cstr \<Rightarrow> nat \<Rightarrow> bool \<times> u64 \<times> cstr \<times> nat" where
  "copyinstr_page m p 0 maxn dst k = (False, maxn, dst, k)"
| "copyinstr_page m p (Suc n) maxn dst k =
     (if m p = 0 then (True, maxn, dst(k := 0), k)
      else copyinstr_page m (p + 1) n (maxn - 1) (dst(k := m p)) (Suc k))"

lemma copyinstr_page_max:
  "copyinstr_page m p n maxn dst k = (False, r, d, j) \<Longrightarrow> r = maxn - of_nat n \<and> j = k + n"
  by (induction m p n maxn dst k rule: copyinstr_page.induct) (auto split: if_splits)

function copyinstr_loop ::
  "addr \<Rightarrow> cstr \<Rightarrow> nat \<Rightarrow> addr \<Rightarrow> u64 \<Rightarrow> ('z kmem_scheme, int \<times> cstr) prog" where
  "copyinstr_loop pagetable dst k srcva maxn s =
     (if maxn > 0
      then let va0 = PGROUNDDOWN srcva in
        (case walkaddr pagetable va0 s of
           Ret pa0 t \<Rightarrow>
            (if pa0 = 0 then Ret (-1, dst) t
             else (case copyinstr_page (mem t) (pa0 + (srcva - va0)) (unat (chunk srcva maxn))
                     maxn dst k of
                 (True, m', d', k') \<Rightarrow> Ret (0, d') t
               | (False, m', d', k') \<Rightarrow> copyinstr_loop pagetable d' k' (va0 + pgsz) m' t))
         | Panic e \<Rightarrow> Panic e | Switch t \<Rightarrow> Switch t | Spin t \<Rightarrow> Spin t)
      else Ret (-1, dst) s)"
  by pat_completeness auto
termination
  by (relation "measure (\<lambda>(pt, dst, k, va, maxn, s). unat maxn)")
     (auto dest!: copyinstr_page_max[OF sym])

definition copyinstr ::
  "addr \<Rightarrow> cstr \<Rightarrow> addr \<Rightarrow> u64 \<Rightarrow> ('z kmem_scheme, int \<times> cstr) prog" where
  "copyinstr pagetable dst srcva maxn = copyinstr_loop pagetable dst 0 srcva maxn"

declare uvmunmap_loop.simps [simp del] uvmalloc_loop.simps [simp del] uvmcopy_loop.simps [simp del]
  copyout.simps [simp del] copyin_loop.simps [simp del] copyinstr_loop.simps [simp del]
  freewalk_depth.simps [simp del]

end
