(* ===== verification/Frame.thy ===== *)
theory Frame
  imports Vm
begin

text \<open>
  What the memory and page-table code leaves alone: any part of the kernel's state that
  does not depend on the machine, on the contents of memory or on the free list is the same
  after \<open>kalloc\<close>, \<open>walk\<close>, \<open>mappages\<close>, \<open>uvmalloc\<close>, \<open>copyout\<close> and the rest of
  \<open>kernel/kalloc.c\<close> and \<open>kernel/vm.c\<close>. The clients (processes, pipes, the file system)
  interpret the locale on their own fields.
\<close>

text \<open>\<open>leaves f v r\<close>: the state in the outcome \<open>r\<close>, if any, has \<open>v\<close> in the part \<open>f\<close>.\<close>

definition leaves :: "('s \<Rightarrow> 'o) \<Rightarrow> 'o \<Rightarrow> ('s, 'a) outcome \<Rightarrow> bool" where
  "leaves f v r \<longleftrightarrow> (case r of Ret a t \<Rightarrow> f t = v | Switch t \<Rightarrow> f t = v | _ \<Rightarrow> True)"

lemma keeps_leaves: "keeps f m \<longleftrightarrow> (\<forall>s. leaves f (f s) (m s))"
  by (simp add: keeps_def ends_def leaves_def)

lemma leaves_simps [simp]:
  "leaves f v (Ret a t) \<longleftrightarrow> f t = v" "leaves f v (Switch t) \<longleftrightarrow> f t = v"
  "leaves f v (Panic e)" "leaves f v (Spin t)"
  by (simp_all add: leaves_def)

lemma leaves_case:
  assumes "keeps f m" "f s = v" "\<And>a t. m s = Ret a t \<Longrightarrow> f t = v \<Longrightarrow> leaves f v (g a t)"
  shows "leaves f v (case m s of Ret a t \<Rightarrow> g a t | Panic e \<Rightarrow> Panic e | Switch t \<Rightarrow> Switch t | Spin t \<Rightarrow> Spin t)"
proof (cases "m s")
  case (Ret a t)
  with assms keepsD[OF assms(1) Ret] show ?thesis by simp
next
  case (Switch t)
  with assms(2) keeps_SwitchD[OF assms(1) Switch] show ?thesis by simp
qed simp_all

lemma leaves_if:
  "(b \<Longrightarrow> leaves f v r) \<Longrightarrow> (\<not> b \<Longrightarrow> leaves f v r') \<Longrightarrow> leaves f v (if b then r else r')"
  by simp

lemma leaves_run: "keeps f m \<Longrightarrow> f s = v \<Longrightarrow> leaves f v (m s)"
  by (auto simp: keeps_leaves)

locale mem_frame =
  fixes f :: "'z kmem_scheme \<Rightarrow> 'o"
  assumes f_mc: "f (s\<lparr>mc := m\<rparr>) = f s"
    and f_mem: "f (s\<lparr>mem := x\<rparr>) = f s"
    and f_freelist: "f (s\<lparr>freelist := a\<rparr>) = f s"
begin

lemma keeps_acquire: "keeps f (acquire lk)" and keeps_release: "keeps f (release lk)"
  by (simp_all add: keeps_def wp_simps f_mc)

lemma keeps_set_mem: "keeps f (set_mem g)"
  by (simp add: set_mem_def keeps_modify f_mem)

lemma keeps_kalloc: "keeps f kalloc"
  unfolding kalloc_def
  by (intro keeps_intros keeps_acquire keeps_release keeps_set_mem) (simp_all add: f_freelist)

lemma keeps_kfree: "keeps f (kfree pa)"
  unfolding kfree_def
  by (intro keeps_intros keeps_acquire keeps_release keeps_set_mem) (simp_all add: f_freelist f_mem)

lemmas keeps_alloc = keeps_set_mem keeps_kalloc keeps_kfree

lemma keeps_pte: "keeps f (pte_at p)" "keeps f (set_pte p v)"
  by (simp_all add: pte_at_def set_pte_def keeps_set_mem keeps_intros)

lemma keeps_walk: "keeps f (walk pt va al)"
proof -
  have "keeps f (walk_levels ls pt va al)" for ls pt
    by (induction ls arbitrary: pt) (auto simp: Let_def intro!: keeps_intros keeps_alloc keeps_pte)
  then show ?thesis unfolding walk_def by (intro keeps_intros)
qed

lemma keeps_walkaddr: "keeps f (walkaddr pt va)"
  unfolding walkaddr_def by (intro keeps_intros keeps_walk keeps_pte)

lemma keeps_mappages: "keeps f (mappages pt va sz pa perm)"
proof -
  have "f s = v \<Longrightarrow> leaves f v (mappages_loop pt a lst pa perm s)" for a lst pa s v
  proof (induction pt a lst pa perm s rule: mappages_loop.induct)
    case (1 pt a lst pa perm s)
    show ?case
      by (subst mappages_loop.simps, rule leaves_case[OF keeps_walk 1(2)])
        (use 1(1) in \<open>auto simp: Let_def f_mem\<close>)
  qed
  then have "keeps f (mappages_loop pt a lst pa perm)" for a lst pa by (simp add: keeps_leaves)
  then show ?thesis unfolding mappages_def by (intro keeps_intros)
qed

lemma keeps_uvmunmap: "keeps f (uvmunmap pt va n d)"
proof -
  have "f s = v \<Longrightarrow> leaves f v (uvmunmap_loop pt a b d s)" for a b s v
  proof (induction pt a b d s rule: uvmunmap_loop.induct)
    case (1 pt a b d s)
    have opt: "keeps f (\<lambda>t. if d \<noteq> 0 then kfree pa t else Ret () t)" for pa
      using keeps_kfree by (simp add: keeps_leaves)
    show ?case
    proof (cases "a < b")
      case True
      show ?thesis
        unfolding uvmunmap_loop.simps[of pt a b d s] if_P[OF True]
      proof (rule leaves_case[OF keeps_walk 1(2)])
        fix pte t
        assume w: "walk pt a 0 s = Ret pte t" and ft: "f t = v"
        let ?e = "load64 (mem t) pte"
        have nxt: "leaves f v (uvmunmap_loop pt (a + pgsz) b d (u\<lparr>mem := store64 (mem u) pte 0\<rparr>))"
          if "pte \<noteq> 0" "?e AND PTE_V \<noteq> 0" "PTE_FLAGS ?e \<noteq> PTE_V"
            "(if d \<noteq> 0 then kfree (PTE2PA ?e) t else Ret () t) = Ret () u" "f u = v" for u
          by (rule 1(1)[OF True w that(1) refl that(2,3,4)]) (simp add: f_mem that(5))
        show "leaves f v (if pte = 0 then Panic ''uvmunmap: walk''
           else let e = load64 (mem t) pte in
           if e AND PTE_V = 0 then Panic ''uvmunmap: not mapped''
           else if PTE_FLAGS e = PTE_V then Panic ''uvmunmap: not a leaf''
           else (case (if d \<noteq> 0 then kfree (PTE2PA e) t else Ret () t) of
               Ret _ u \<Rightarrow> uvmunmap_loop pt (a + pgsz) b d (u\<lparr>mem := store64 (mem u) pte 0\<rparr>)
             | Panic e \<Rightarrow> Panic e | Switch u \<Rightarrow> Switch u | Spin u \<Rightarrow> Spin u))"
          unfolding Let_def
          by (intro leaves_if leaves_simps leaves_case[OF opt ft]) (rule nxt, auto)
      qed
    next
      case False
      with 1(2) show ?thesis by (simp add: uvmunmap_loop.simps[of pt a b d s])
    qed
  qed
  then have "keeps f (uvmunmap_loop pt a b d)" for a b by (simp add: keeps_leaves)
  then show ?thesis unfolding uvmunmap_def by (intro keeps_intros)
qed

lemma keeps_uvmcreate: "keeps f uvmcreate"
  unfolding uvmcreate_def by (intro keeps_intros keeps_alloc)

lemma keeps_uvmdealloc: "keeps f (uvmdealloc pt oldsz newsz)"
  unfolding uvmdealloc_def by (intro keeps_intros keeps_uvmunmap)

lemma keeps_uvmalloc: "keeps f (uvmalloc pt oldsz newsz x)"
proof -
  have e: "keeps f (bind (uvmdealloc pt a b) (\<lambda>_. ret (0 :: u64)))"
    "keeps f (bind (kfree pg) (\<lambda>_. bind (uvmdealloc pt a b) (\<lambda>_. ret (0 :: u64))))" for pt a b pg
    by (intro keeps_intros keeps_uvmdealloc keeps_kfree)+
  have "f s = v \<Longrightarrow> leaves f v (uvmalloc_loop pt old a new x s)" for old a new s v
  proof (induction pt old a new x s rule: uvmalloc_loop.induct)
    case (1 pt old a new x s)
    show ?case
      by (subst uvmalloc_loop.simps)
        (use 1 in \<open>auto simp: Let_def f_mem intro!: leaves_case[OF keeps_kalloc] leaves_case[OF keeps_mappages]
          leaves_run[OF e(1)] leaves_run[OF e(2)]\<close>)
  qed
  then have "keeps f (uvmalloc_loop pt old a new x)" for old a new by (simp add: keeps_leaves)
  then show ?thesis unfolding uvmalloc_def by (intro keeps_intros)
qed

lemma keeps_uvmfree: "keeps f (uvmfree pt sz)"
proof -
  have "keeps f (freewalk_depth n p)" for n p
  proof (induction n arbitrary: p)
    case 0
    show ?case unfolding freewalk_depth.simps by (intro keeps_intros)
  next
    case (Suc n)
    show ?case unfolding freewalk_depth.simps by (intro keeps_intros keeps_alloc keeps_pte Suc)
  qed
  then show ?thesis unfolding uvmfree_def freewalk_def by (intro keeps_intros keeps_uvmunmap)
qed

lemma keeps_uvmcopy: "keeps f (uvmcopy old new sz)"
proof -
  have e: "keeps f (uvmcopy_err new i)" "keeps f (bind (kfree pg) (\<lambda>_. uvmcopy_err new i))" for new i pg
    unfolding uvmcopy_err_def by (intro keeps_intros keeps_uvmunmap keeps_kfree)+
  have "f s = v \<Longrightarrow> leaves f v (uvmcopy_loop old new i sz s)" for i s v
  proof (induction old new i sz s rule: uvmcopy_loop.induct)
    case (1 old new i sz s)
    show ?case
      by (subst uvmcopy_loop.simps)
        (use 1 in \<open>auto simp: Let_def f_mem intro!: leaves_case[OF keeps_walk] leaves_case[OF keeps_kalloc]
          leaves_case[OF keeps_mappages] leaves_run[OF e(1)] leaves_run[OF e(2)]\<close>)
  qed
  then have "keeps f (uvmcopy_loop old new i sz)" for i by (simp add: keeps_leaves)
  then show ?thesis by (simp add: uvmcopy_def)
qed

lemma keeps_copyout: "keeps f (copyout pt va src n)"
proof -
  have "f s = v \<Longrightarrow> leaves f v (copyout pt va src n s)" for va src n s v
  proof (induction pt va src n s rule: copyout.induct)
    case (1 pt va src n s)
    show ?case
      by (subst copyout.simps) (use 1 in \<open>auto simp: Let_def f_mem intro!: leaves_case[OF keeps_walk]\<close>)
  qed
  then show ?thesis by (simp add: keeps_leaves)
qed

lemma keeps_copyin: "keeps f (copyin pt dst va n)"
proof -
  have "f s = v \<Longrightarrow> leaves f v (copyin_loop pt dst k va n s)" for dst k va n s v
  proof (induction pt dst k va n s rule: copyin_loop.induct)
    case (1 pt dst k va n s)
    show ?case
      by (subst copyin_loop.simps) (use 1 in \<open>auto simp: Let_def intro!: leaves_case[OF keeps_walkaddr]\<close>)
  qed
  then show ?thesis by (simp add: keeps_leaves copyin_def)
qed

lemmas keeps_vm = keeps_alloc keeps_pte keeps_walk keeps_walkaddr keeps_mappages keeps_uvmunmap
  keeps_uvmcreate keeps_uvmdealloc keeps_uvmalloc keeps_uvmfree keeps_uvmcopy keeps_copyout keeps_copyin

end

end
