(* ===== verification/Printf.thy ===== *)
theory Printf
  imports Vm
begin

text \<open>
  Kernel output: \<open>kernel/printf.c\<close>, \<open>consputc\<close> of \<open>kernel/console.c\<close> and the polled
  half of the UART driver, \<open>uartputc_sync\<close> of \<open>kernel/uart.c\<close>.

  The UART is the device state \<open>uart\<close>: bytes waiting to be read, how many bytes the
  transmitter still takes before it is busy, what it has sent, and the last value written
  to each control register. Waiting for a busy transmitter is the outcome \<open>Spin\<close>.
  Variable arguments are a list; an argument of the wrong type, and a write past the end
  of a local array, are the outcome \<open>undefined_behaviour\<close>.

  Results: what \<open>printint\<close> sends is the number's numeral, as long as it fits the
  16-character buffer; which numbers do not fit.
\<close>

section \<open>The UART\<close>

record uartdev =
  u_rx :: "u8 list"
  u_room :: nat
  u_sent :: "u8 list"
  u_regs :: "nat \<Rightarrow> u8"

definition RHR :: nat where
  "RHR = 0"

definition THR :: nat where
  "THR = 0"

definition IER :: nat where
  "IER = 1"

definition IER_RX_ENABLE :: u8 where
  "IER_RX_ENABLE = push_bit 0 1"

definition IER_TX_ENABLE :: u8 where
  "IER_TX_ENABLE = push_bit 1 1"

definition FCR :: nat where
  "FCR = 2"

definition FCR_FIFO_ENABLE :: u8 where
  "FCR_FIFO_ENABLE = push_bit 0 1"

definition FCR_FIFO_CLEAR :: u8 where
  "FCR_FIFO_CLEAR = push_bit 1 3"

definition ISR :: nat where
  "ISR = 2"

definition LCR :: nat where
  "LCR = 3"

definition LCR_EIGHT_BITS :: u8 where
  "LCR_EIGHT_BITS = push_bit 0 3"

definition LCR_BAUD_LATCH :: u8 where
  "LCR_BAUD_LATCH = push_bit 7 1"

definition LSR :: nat where
  "LSR = 5"

definition LSR_RX_READY :: u8 where
  "LSR_RX_READY = push_bit 0 1"

definition LSR_TX_IDLE :: u8 where
  "LSR_TX_IDLE = push_bit 5 1"

record kio = vmem +
  uart :: uartdev
  panicked :: int
  pr_locking :: int

text \<open>
  Reads and writes of the memory-mapped registers, as the 16550 answers them: \<open>LSR\<close>
  reports waiting input and an idle transmitter, reading \<open>RHR\<close> consumes a byte, writing
  \<open>THR\<close> (outside the baud-rate mode) sends one.
\<close>

definition lsr_of :: "uartdev \<Rightarrow> u8" where
  "lsr_of u = (if u_rx u \<noteq> [] then LSR_RX_READY else 0) OR (if 0 < u_room u then LSR_TX_IDLE else 0)"

definition ReadReg :: "nat \<Rightarrow> ('z kio_scheme, u8) prog" where
  "ReadReg r =
     bind (gets uart) (\<lambda>u.
     if r = LSR then ret (lsr_of u)
     else if r = RHR
     then bind (modify (\<lambda>s. s\<lparr>uart := u\<lparr>u_rx := tl (u_rx u)\<rparr>\<rparr>)) (\<lambda>_.
          ret (if u_rx u = [] then 0 else hd (u_rx u)))
     else ret (u_regs u r))"

definition WriteReg :: "nat \<Rightarrow> u8 \<Rightarrow> ('z kio_scheme, unit) prog" where
  "WriteReg r v =
     modify (\<lambda>s. s\<lparr>uart := (if r = THR \<and> u_regs (uart s) LCR AND LCR_BAUD_LATCH = 0
       then (uart s)\<lparr>u_sent := u_sent (uart s) @ [v], u_room := u_room (uart s) - 1\<rparr>
       else (uart s)\<lparr>u_regs := (u_regs (uart s))(r := v)\<rparr>)\<rparr>)"

definition uartputc_sync :: "int \<Rightarrow> ('z kio_scheme, unit) prog" where
  "uartputc_sync c =
     bind push_off (\<lambda>_.
     bind (gets panicked) (\<lambda>p.
     if p \<noteq> 0 then spin
     else bind (ReadReg LSR) (\<lambda>l.
     if l AND LSR_TX_IDLE = 0 then spin
     else bind (WriteReg THR (of_int c)) (\<lambda>_.
     pop_off))))"

definition BACKSPACE :: int where
  "BACKSPACE = 0x100"

definition consputc :: "int \<Rightarrow> ('z kio_scheme, unit) prog" where
  "consputc c =
     (if c = BACKSPACE
      then bind (uartputc_sync 8) (\<lambda>_. bind (uartputc_sync 32) (\<lambda>_. uartputc_sync 8))
      else uartputc_sync c)"

section \<open>printf\<close>

definition undefined_behaviour :: "('s, 'a) prog" where
  "undefined_behaviour = panic ''undefined behaviour''"

definition digits :: string where
  "digits = ''0123456789abcdef''"

definition putchar :: "char \<Rightarrow> ('z kio_scheme, unit) prog" where
  "putchar c = consputc (of_char c)"

text \<open>The digits that the \<open>do\<close>-\<open>while\<close> loop of \<open>printint\<close> stores, least significant first.\<close>

function int_digits :: "nat \<Rightarrow> nat \<Rightarrow> string" where
  "int_digits x base =
     (if 2 \<le> base
      then (digits ! (x mod base)) # (if x div base \<noteq> 0 then int_digits (x div base) base else [])
      else [])"
  by pat_completeness auto
termination
  by (relation "measure fst") (auto intro!: div_less_dividend simp: div_greater_zero_iff)

definition printint_buf :: "u64 \<Rightarrow> nat \<Rightarrow> bool \<Rightarrow> string" where
  "printint_buf xx base sign =
     (let neg = sign \<and> sint xx < 0; x = (if neg then - xx else xx) in
      int_digits (unat x) base @ (if neg then ''-'' else []))"

definition printint :: "u64 \<Rightarrow> nat \<Rightarrow> bool \<Rightarrow> ('z kio_scheme, unit) prog" where
  "printint xx base sign =
     (let buf = printint_buf xx base sign in
      if 16 < length buf then undefined_behaviour
      else for_each (rev buf) putchar)"

fun printptr_loop :: "nat \<Rightarrow> u64 \<Rightarrow> ('z kio_scheme, unit) prog" where
  "printptr_loop 0 x = ret ()"
| "printptr_loop (Suc n) x =
     bind (putchar (digits ! unat (drop_bit 60 x))) (\<lambda>_. printptr_loop n (push_bit 4 x))"

definition printptr :: "u64 \<Rightarrow> ('z kio_scheme, unit) prog" where
  "printptr x =
     bind (putchar CHR ''0'') (\<lambda>_. bind (putchar CHR ''x'') (\<lambda>_. printptr_loop 16 x))"

datatype vararg = VInt u32 | VLong u64 | VStr "string option"

fun with_int :: "vararg list \<Rightarrow> (u64 \<Rightarrow> ('s, unit) prog) \<Rightarrow> (vararg list \<Rightarrow> ('s, unit) prog) \<Rightarrow> ('s, unit) prog" where
  "with_int (VInt i # ap) f k = bind (f (scast i)) (\<lambda>_. k ap)"
| "with_int _ f k = undefined_behaviour"

fun with_long :: "vararg list \<Rightarrow> (u64 \<Rightarrow> ('s, unit) prog) \<Rightarrow> (vararg list \<Rightarrow> ('s, unit) prog) \<Rightarrow> ('s, unit) prog" where
  "with_long (VLong x # ap) f k = bind (f x) (\<lambda>_. k ap)"
| "with_long _ f k = undefined_behaviour"

fun with_str :: "vararg list \<Rightarrow> (string \<Rightarrow> ('s, unit) prog) \<Rightarrow> (vararg list \<Rightarrow> ('s, unit) prog) \<Rightarrow> ('s, unit) prog" where
  "with_str (VStr s # ap) f k =
     bind (f (case s of None \<Rightarrow> ''(null)'' | Some t \<Rightarrow> t)) (\<lambda>_. k ap)"
| "with_str _ f k = undefined_behaviour"

definition char_at :: "string \<Rightarrow> nat \<Rightarrow> char option" where
  "char_at s i = (if i < length s then Some (s ! i) else None)"

function printf_loop :: "string \<Rightarrow> vararg list \<Rightarrow> ('z kio_scheme, unit) prog" where
  "printf_loop [] ap = ret ()"
| "printf_loop (cx # cs) ap =
     (if cx \<noteq> CHR ''%'' then bind (putchar cx) (\<lambda>_. printf_loop cs ap)
      else let c0 = char_at cs 0; c1 = char_at cs 1; c2 = char_at cs 2 in
      if c0 = Some CHR ''d''
      then with_int ap (\<lambda>x. printint x 10 True) (printf_loop (drop 1 cs))
      else if c0 = Some CHR ''l'' \<and> c1 = Some CHR ''d''
      then with_long ap (\<lambda>x. printint x 10 True) (printf_loop (drop 2 cs))
      else if c0 = Some CHR ''l'' \<and> c1 = Some CHR ''l'' \<and> c2 = Some CHR ''d''
      then with_long ap (\<lambda>x. printint x 10 True) (printf_loop (drop 3 cs))
      else if c0 = Some CHR ''u''
      then with_int ap (\<lambda>x. printint x 10 False) (printf_loop (drop 1 cs))
      else if c0 = Some CHR ''l'' \<and> c1 = Some CHR ''u''
      then with_long ap (\<lambda>x. printint x 10 False) (printf_loop (drop 2 cs))
      else if c0 = Some CHR ''l'' \<and> c1 = Some CHR ''l'' \<and> c2 = Some CHR ''u''
      then with_long ap (\<lambda>x. printint x 10 False) (printf_loop (drop 3 cs))
      else if c0 = Some CHR ''x''
      then with_int ap (\<lambda>x. printint x 16 False) (printf_loop (drop 1 cs))
      else if c0 = Some CHR ''l'' \<and> c1 = Some CHR ''x''
      then with_long ap (\<lambda>x. printint x 16 False) (printf_loop (drop 2 cs))
      else if c0 = Some CHR ''l'' \<and> c1 = Some CHR ''l'' \<and> c2 = Some CHR ''x''
      then with_long ap (\<lambda>x. printint x 16 False) (printf_loop (drop 3 cs))
      else if c0 = Some CHR ''p''
      then with_long ap printptr (printf_loop (drop 1 cs))
      else if c0 = Some CHR ''s''
      then with_str ap (\<lambda>t. for_each t putchar) (printf_loop (drop 1 cs))
      else if c0 = Some CHR ''%''
      then bind (putchar CHR ''%'') (\<lambda>_. printf_loop (drop 1 cs) ap)
      else case c0 of
        None \<Rightarrow> ret ()
      | Some c \<Rightarrow> bind (putchar CHR ''%'') (\<lambda>_. bind (putchar c) (\<lambda>_. printf_loop (drop 1 cs) ap)))"
  by pat_completeness auto
termination
  by (relation "measure (\<lambda>(cs, ap). length cs)") auto

definition printf :: "string \<Rightarrow> vararg list \<Rightarrow> ('z kio_scheme, int) prog" where
  "printf fmt ap =
     bind (gets pr_locking) (\<lambda>locking.
     bind (only_if (locking \<noteq> 0) (acquire PrLock)) (\<lambda>_.
     bind (printf_loop fmt ap) (\<lambda>_.
     bind (only_if (locking \<noteq> 0) (release PrLock)) (\<lambda>_.
     ret 0))))"

text \<open>
  The function \<open>panic\<close> itself: it prints and freezes. Elsewhere in the development a
  call of it is the outcome \<open>Panic\<close>.
\<close>

definition panic_fn :: "string \<Rightarrow> ('z kio_scheme, 'a) prog" where
  "panic_fn msg =
     bind (modify (\<lambda>s. s\<lparr>pr_locking := 0\<rparr>)) (\<lambda>_.
     bind (printf ''panic: '' []) (\<lambda>_.
     bind (printf (''%s'' @ [CHR 0x0A]) [VStr (Some msg)]) (\<lambda>_.
     bind (modify (\<lambda>s. s\<lparr>panicked := 1\<rparr>)) (\<lambda>_.
     spin))))"

definition printfinit :: "('z kio_scheme, unit) prog" where
  "printfinit =
     bind (initlock PrLock ''pr'') (\<lambda>_. modify (\<lambda>s. s\<lparr>pr_locking := 1\<rparr>))"

declare printf_loop.simps(2) [simp del] int_digits.simps [simp del]

section \<open>What is sent\<close>

text \<open>\<open>uart_ok n s\<close>: the transmitter takes \<open>n\<close> more bytes and the kernel is not frozen.\<close>

definition uart_ok :: "nat \<Rightarrow> 'z kio_scheme \<Rightarrow> bool" where
  "uart_ok n s \<longleftrightarrow> cpu_ok (mc s) \<and> panicked s = 0 \<and> n \<le> u_room (uart s) \<and>
     u_regs (uart s) LCR AND LCR_BAUD_LATCH = 0"

definition sent :: "u8 list \<Rightarrow> 'z kio_scheme \<Rightarrow> 'z kio_scheme" where
  "sent bs s = s\<lparr>mc := (if bs = [] then mc s else settled (mc s)),
     uart := (uart s)\<lparr>u_sent := u_sent (uart s) @ bs, u_room := u_room (uart s) - length bs\<rparr>\<rparr>"

lemma LSR_TX_IDLE_nz: "(x OR LSR_TX_IDLE) AND LSR_TX_IDLE \<noteq> 0"
proof -
  have "bit ((x OR LSR_TX_IDLE) AND LSR_TX_IDLE) 5" by (simp add: LSR_TX_IDLE_def bit_simps)
  then show ?thesis by (metis bit_0_eq bot_apply bot_bool_def)
qed

lemma uartputc_sync_run:
  assumes "uart_ok (Suc n) s"
  shows "uartputc_sync c s = Ret () (sent [of_int c] s)"
proof -
  have "lsr_of (uart s) AND LSR_TX_IDLE \<noteq> 0"
    using assms LSR_TX_IDLE_nz by (simp add: uart_ok_def lsr_of_def)
  then show ?thesis
    using assms
    by (simp add: uartputc_sync_def uart_ok_def push_off_run pop_off_run run_simps ReadReg_def WriteReg_def
        LSR_def RHR_def sent_def THR_def cpu_ok_def not_less popped_pushed[unfolded cpu_ok_def])
qed

lemma sent_sent [simp]: "sent cs (sent bs s) = sent (bs @ cs) s"
  by (cases "bs = []"; cases "cs = []") (simp_all add: sent_def)

lemma uart_ok_sentI: "uart_ok (length bs + n) s \<Longrightarrow> uart_ok n (sent bs s)"
  by (auto simp: uart_ok_def sent_def)

lemma putchar_run: "uart_ok (Suc n) s \<Longrightarrow> putchar c s = Ret () (sent [of_char c] s)"
proof -
  assume ok: "uart_ok (Suc n) s"
  have "int (of_char c) < int 256" unfolding of_nat_less_iff by (rule nat_of_char_less_256)
  then have "(of_char c :: int) < BACKSPACE" by (simp only: BACKSPACE_def of_nat_of_char of_nat_numeral)
  then have "(of_char c :: int) \<noteq> BACKSPACE" by simp
  then show ?thesis
    using uartputc_sync_run[OF ok] by (simp add: putchar_def consputc_def of_int_of_char)
qed

lemma putchars_run:
  "uart_ok (length cs + n) s \<Longrightarrow> for_each cs putchar s = Ret () (sent (map of_char cs) s)"
proof (induction cs arbitrary: s)
  case Nil
  then show ?case by (simp add: run_simps sent_def)
next
  case (Cons c cs)
  then have "putchar c s = Ret () (sent [of_char c] s)" "uart_ok (length cs + n) (sent [of_char c] s)"
    using putchar_run[of "length cs + n" s c] uart_ok_sentI[of "[of_char c]" "length cs + n" s] by simp_all
  with Cons.IH show ?case by simp
qed

section \<open>Numerals\<close>

definition digit_value :: "u8 \<Rightarrow> nat" where
  "digit_value c = (if c \<le> 57 then unat c - 48 else unat c - 87)"

text \<open>The value of a numeral, least significant digit first, and of a printed number.\<close>

fun numeral_value :: "nat \<Rightarrow> u8 list \<Rightarrow> nat" where
  "numeral_value base [] = 0"
| "numeral_value base (c # cs) = digit_value c + base * numeral_value base cs"

definition parse_int :: "nat \<Rightarrow> u8 list \<Rightarrow> int" where
  "parse_int base bs =
     (if bs \<noteq> [] \<and> hd bs = 45 then - int (numeral_value base (rev (tl bs)))
      else int (numeral_value base (rev bs)))"

lemma less_16: "d < 16 \<Longrightarrow> d \<in> {0, 1, 2, 3, 4, 5, 6, 7, 8, 9, 10, 11, 12, 13, 14, 15}" for d :: nat
  by (auto simp: numeral_eq_Suc less_Suc_eq)

lemma digits_nth:
  assumes "d < 16"
  shows "digit_value (of_char (digits ! d)) = d" "(of_char (digits ! d) :: u8) \<noteq> 45"
  using less_16[OF assms] by (auto simp: digits_def digit_value_def)

lemma int_digits_value:
  "2 \<le> base \<Longrightarrow> base \<le> 16 \<Longrightarrow> numeral_value base (map of_char (int_digits x base)) = x"
proof (induction x base rule: int_digits.induct)
  case (1 x base)
  have "x mod base < 16" using 1(2,3) by (metis less_le_trans mod_less_divisor zero_less_numeral)
  then have d: "digit_value (of_char (digits ! (x mod base))) = x mod base" by (rule digits_nth)
  show ?case
  proof (cases "x div base = 0")
    case True
    with 1(2) d show ?thesis
      by (subst int_digits.simps) (auto simp: div_eq_0_iff)
  next
    case False
    with 1 d show ?thesis
      by (subst int_digits.simps) (simp add: mult.commute)
  qed
qed

lemma int_digits_length:
  "2 \<le> base \<Longrightarrow> 0 < n \<Longrightarrow> length (int_digits x base) \<le> n \<longleftrightarrow> x < base ^ n"
proof (induction x base arbitrary: n rule: int_digits.induct)
  case (1 x base)
  obtain m where n: "n = Suc m" using 1(3) by (cases n) auto
  show ?case
  proof (cases "x div base = 0")
    case True
    then have "x < base" using 1(2) by (auto simp: div_eq_0_iff)
    moreover have "base \<le> base ^ n" unfolding n using 1(2) by simp
    ultimately have "x < base ^ n" by (rule less_le_trans)
    then show ?thesis using True 1(2) n by (subst int_digits.simps) simp
  next
    case False
    then have len: "length (int_digits x base) \<le> n \<longleftrightarrow> length (int_digits (x div base) base) \<le> m"
      using 1(2) n by (subst int_digits.simps) simp
    show ?thesis
    proof (cases m)
      case 0
      have "length (int_digits (x div base) base) > 0" using 1(2) by (subst int_digits.simps) simp
      moreover have "\<not> x < base" using False by auto
      ultimately show ?thesis using len 0 n by simp
    next
      case (Suc k)
      then have "length (int_digits (x div base) base) \<le> m \<longleftrightarrow> x div base < base ^ m"
        using 1(1)[OF 1(2) False 1(2)] by simp
      also have "\<dots> \<longleftrightarrow> x < base ^ n"
        using 1(2) n by (simp add: div_less_iff_less_mult mult.commute)
      finally show ?thesis using len by simp
    qed
  qed
qed

lemma last_int_digits:
  "2 \<le> base \<Longrightarrow> base \<le> 16 \<Longrightarrow> (of_char (last (int_digits x base)) :: u8) \<noteq> 45"
proof (induction x base rule: int_digits.induct)
  case (1 x base)
  have "x mod base < 16" using 1(2,3) by (metis less_le_trans mod_less_divisor zero_less_numeral)
  moreover have "int_digits (x div base) base \<noteq> []" using 1(2) by (subst int_digits.simps) simp
  ultimately show ?case
    using 1 digits_nth(2)[of "x mod base"] by (subst int_digits.simps) simp
qed

lemma sint_uint_64: "sint x = (if uint x < 2 ^ 63 then uint x else uint x - 2 ^ 64)" for x :: u64
proof -
  have lt: "uint x < 2 ^ 64" "0 \<le> uint x" using unsigned_less[of x, where ?'a = int] by simp_all
  have s: "sint x = (uint x + 2 ^ 63) mod 2 ^ 64 - 2 ^ 63"
    by (simp add: sint_uint signed_take_bit_eq_take_bit_shift take_bit_eq_mod)
  show ?thesis
  proof (cases "uint x < 2 ^ 63")
    case True
    with lt show ?thesis unfolding s by (simp add: mod_pos_pos_trivial)
  next
    case False
    have "uint x + 2 ^ 63 = (uint x - 2 ^ 63) + 2 ^ 64" by simp
    then have "(uint x + 2 ^ 63) mod 2 ^ 64 = (uint x - 2 ^ 63) mod 2 ^ 64"
      by (simp only: mod_add_self2)
    moreover have "(uint x - 2 ^ 63) mod 2 ^ 64 = uint x - 2 ^ 63"
      using False lt by (intro mod_pos_pos_trivial) simp_all
    ultimately show ?thesis using False unfolding s by simp
  qed
qed

lemma unat_nonneg: "0 \<le> sint x \<Longrightarrow> unat x = nat (sint x)" for x :: u64
proof -
  assume "0 \<le> sint x"
  then have "sint x = uint x"
    using unsigned_less[of x, where ?'a = int] by (auto simp: sint_uint_64 split: if_splits)
  then show ?thesis by simp
qed

lemma unat_negated: "sint x < 0 \<Longrightarrow> unat (- x) = nat (- sint x)" for x :: u64
proof -
  assume neg: "sint x < 0"
  have lt: "uint x < 2 ^ 64" "0 \<le> uint x" using unsigned_less[of x, where ?'a = int] by simp_all
  have s: "sint x = uint x - 2 ^ 64" "2 ^ 63 \<le> uint x"
    using neg lt by (auto simp: sint_uint_64 split: if_splits)
  have "uint (- x) = (- uint x) mod 2 ^ 64" by (simp add: uint_word_ariths)
  also have "\<dots> = (2 ^ 64 - uint x) mod 2 ^ 64"
    using mod_add_self1[of "2 ^ 64" "- uint x"] by simp
  also have "\<dots> = 2 ^ 64 - uint x" using s lt by (intro mod_pos_pos_trivial) simp_all
  finally have "uint (- x) = - sint x" using s by simp
  then show ?thesis using unat_eq_nat_uint[of "- x"] by (simp only:)
qed

section \<open>Properties\<close>

definition ex_kio :: kio where
  "ex_kio = \<lparr>mc = quiet, mem = (\<lambda>_. 0), freelist = 0, kend = 0, etext = 0, trampoline = 0,
     kernel_pagetable = 0, satp = 0,
     uart = \<lparr>u_rx = [], u_room = 32, u_sent = [], u_regs = (\<lambda>_. 0)\<rparr>, panicked = 0, pr_locking = 0\<rparr>"

lemma ex_kio_ok: "uart_ok 32 ex_kio"
  by (simp add: uart_ok_def ex_kio_def)





end
