(* ===== verification/Proc.thy ===== *)
theory Proc
  imports Frame Printf
begin

text \<open>
  The process table and the scheduler: \<open>kernel/proc.h\<close> and the parts of
  \<open>kernel/proc.c\<close> that need no file system.

  A process is its index in \<open>proc[NPROC]\<close>; a null \<open>struct proc *\<close> is \<open>None\<close>.
  Sleep channels are the addresses the code sleeps on, as a datatype. A call of
  \<open>sched\<close> is the outcome \<open>Switch\<close>; what a sleeper does when it is switched back to is
  \<open>sleep_end\<close>. Every \<open>sleep\<close> of the kernel sits in a loop that tests its condition
  again, so a run that sleeps ends there and the resumed code is a new run from the head
  of that loop. One turn of \<open>scheduler\<close> is \<open>scheduler_dispatch\<close> up to \<open>swtch\<close> and
  \<open>scheduler_return\<close> after it.

  Results: which process each scheduling mode picks; what \<open>wakeup\<close>, \<open>kill\<close> and
  \<open>update_time\<close> change and what they leave alone; no process ever runs on two CPUs.
\<close>

section \<open>State\<close>

datatype procstate = UNUSED | USED | SLEEPING | RUNNABLE | RUNNING | ZOMBIE

datatype chan =
    ChProc nat
  | ChTicks
  | ChLog
  | ChSleepLock slock
  | ChPipeRead addr
  | ChPipeWrite addr
  | ChConsR
  | ChUartTxR
  | ChBuf nat
  | ChDiskFree

record proc =
  pstate :: procstate
  pchan :: "chan option"
  pkilled :: int
  pxstate :: int
  ppid :: int
  pparent :: "nat option"
  pkstack :: addr
  psz :: u64
  ppagetable :: addr
  ptrapframe :: addr
  pcontext :: swtch_context
  pofile :: "nat \<Rightarrow> nat option"
  pcwd :: "nat option"
  pname :: cstr
  creation_time :: u32
  run_time :: u32
  waiting_time :: u32
  turnaround_time :: u32
  finish_time :: u32

record kproc = kio +
  procs :: "nat \<Rightarrow> proc"
  initproc :: "nat option"
  nextpid :: int
  ticks :: u32
  sched_mode :: int
  forkret_addr :: addr

definition SCHED_ROUND_ROBIN :: int where
  "SCHED_ROUND_ROBIN = 0"

definition SCHED_FCFS :: int where
  "SCHED_FCFS = 1"

definition SCHED_PRIORITY :: int where
  "SCHED_PRIORITY = 3"

definition getp :: "nat \<Rightarrow> (proc \<Rightarrow> 'a) \<Rightarrow> ('z kproc_scheme, 'a) prog" where
  "getp p f = gets (\<lambda>s. f (procs s p))"

definition updp :: "nat \<Rightarrow> (proc \<Rightarrow> proc) \<Rightarrow> ('z kproc_scheme, unit) prog" where
  "updp p f = modify (\<lambda>s. s\<lparr>procs := (procs s)(p := f (procs s p))\<rparr>)"

section \<open>Process table\<close>

definition procinit :: "('z kproc_scheme, unit) prog" where
  "procinit =
     bind (initlock PidLock ''nextpid'') (\<lambda>_.
     bind (initlock WaitLock ''wait_lock'') (\<lambda>_.
     for_each [0..<NPROC] (\<lambda>p.
       bind (initlock (ProcLock p) ''proc'') (\<lambda>_.
       updp p (\<lambda>q. q\<lparr>pstate := UNUSED, pkstack := KSTACK p\<rparr>)))))"

definition myproc :: "('z kproc_scheme, nat option) prog" where
  "myproc =
     bind push_off (\<lambda>_.
     bind mycpu (\<lambda>c.
     bind (getm (\<lambda>m. cproc (cpus m c))) (\<lambda>p.
     bind pop_off (\<lambda>_.
     ret p))))"

text \<open>Code that dereferences \<open>myproc()\<close> without a test; a null pointer faults.\<close>

definition curproc :: "('z kproc_scheme, nat) prog" where
  "curproc = bind myproc (\<lambda>p. case p of None \<Rightarrow> panic ''null proc'' | Some i \<Rightarrow> ret i)"

definition allocpid :: "('z kproc_scheme, int) prog" where
  "allocpid =
     bind (acquire PidLock) (\<lambda>_.
     bind (gets nextpid) (\<lambda>pid.
     bind (modify (\<lambda>s. s\<lparr>nextpid := nextpid s + 1\<rparr>)) (\<lambda>_.
     bind (release PidLock) (\<lambda>_.
     ret pid))))"

definition proc_pagetable :: "nat \<Rightarrow> ('z kproc_scheme, addr) prog" where
  "proc_pagetable p =
     bind uvmcreate (\<lambda>pagetable.
     if pagetable = 0 then ret 0
     else bind (gets trampoline) (\<lambda>tr.
     bind (mappages pagetable TRAMPOLINE pgsz tr (PTE_R OR PTE_X)) (\<lambda>r.
     if r < 0 then bind (uvmfree pagetable 0) (\<lambda>_. ret 0)
     else bind (getp p ptrapframe) (\<lambda>tf.
     bind (mappages pagetable TRAPFRAME pgsz tf (PTE_R OR PTE_W)) (\<lambda>r.
     if r < 0
     then bind (uvmunmap pagetable TRAMPOLINE 1 0) (\<lambda>_.
          bind (uvmfree pagetable 0) (\<lambda>_. ret 0))
     else ret pagetable)))))"

definition proc_freepagetable :: "addr \<Rightarrow> u64 \<Rightarrow> ('z kproc_scheme, unit) prog" where
  "proc_freepagetable pagetable sz =
     bind (uvmunmap pagetable TRAMPOLINE 1 0) (\<lambda>_.
     bind (uvmunmap pagetable TRAPFRAME 1 0) (\<lambda>_.
     uvmfree pagetable sz))"

definition freeproc :: "nat \<Rightarrow> ('z kproc_scheme, unit) prog" where
  "freeproc p =
     bind (getp p ptrapframe) (\<lambda>tf.
     bind (only_if (tf \<noteq> 0) (kfree tf)) (\<lambda>_.
     bind (updp p (\<lambda>q. q\<lparr>ptrapframe := 0\<rparr>)) (\<lambda>_.
     bind (getp p (\<lambda>q. (ppagetable q, psz q))) (\<lambda>(pt, sz).
     bind (only_if (pt \<noteq> 0) (proc_freepagetable pt sz)) (\<lambda>_.
     updp p (\<lambda>q. q\<lparr>ppagetable := 0, psz := 0, ppid := 0, pparent := None,
       pname := (pname q)(0 := 0), pchan := None, pkilled := 0, pxstate := 0, pstate := UNUSED,
       creation_time := 0, run_time := 0, waiting_time := 0, turnaround_time := 0,
       finish_time := 0\<rparr>))))))"

definition allocproc_found :: "nat \<Rightarrow> ('z kproc_scheme, nat option) prog" where
  "allocproc_found p =
     bind allocpid (\<lambda>pid.
     bind (updp p (\<lambda>q. q\<lparr>ppid := pid, pstate := USED\<rparr>)) (\<lambda>_.
     bind kalloc (\<lambda>tf.
     bind (updp p (\<lambda>q. q\<lparr>ptrapframe := tf\<rparr>)) (\<lambda>_.
     if tf = 0
     then bind (freeproc p) (\<lambda>_. bind (release (ProcLock p)) (\<lambda>_. ret None))
     else bind (proc_pagetable p) (\<lambda>pt.
     bind (updp p (\<lambda>q. q\<lparr>ppagetable := pt\<rparr>)) (\<lambda>_.
     if pt = 0
     then bind (freeproc p) (\<lambda>_. bind (release (ProcLock p)) (\<lambda>_. ret None))
     else bind (gets (\<lambda>s. (forkret_addr s, ticks s))) (\<lambda>(fr, tk).
     bind (updp p (\<lambda>q. q\<lparr>pcontext := zero_context\<lparr>c_ra := fr, c_sp := pkstack q + pgsz\<rparr>,
       creation_time := tk, run_time := 0, waiting_time := 0, turnaround_time := 0,
       finish_time := 0\<rparr>)) (\<lambda>_.
     ret (Some p)))))))))"

definition allocproc :: "('z kproc_scheme, nat option) prog" where
  "allocproc =
     bind (for_until [0..<NPROC] (\<lambda>p.
       bind (acquire (ProcLock p)) (\<lambda>_.
       bind (getp p pstate) (\<lambda>st.
       if st = UNUSED then ret (Some p)
       else bind (release (ProcLock p)) (\<lambda>_. ret None))))) (\<lambda>r.
     case r of None \<Rightarrow> ret None | Some p \<Rightarrow> allocproc_found p)"

definition growproc :: "int \<Rightarrow> ('z kproc_scheme, int) prog" where
  "growproc n =
     bind curproc (\<lambda>p.
     bind (getp p (\<lambda>q. (psz q, ppagetable q))) (\<lambda>(sz, pt).
     if n > 0
     then bind (uvmalloc pt sz (sz + of_int n) PTE_W) (\<lambda>sz.
          if sz = 0 then ret (-1)
          else bind (updp p (\<lambda>q. q\<lparr>psz := sz\<rparr>)) (\<lambda>_. ret 0))
     else if n < 0
     then bind (uvmdealloc pt sz (sz + of_int n)) (\<lambda>sz.
          bind (updp p (\<lambda>q. q\<lparr>psz := sz\<rparr>)) (\<lambda>_. ret 0))
     else bind (updp p (\<lambda>q. q\<lparr>psz := sz\<rparr>)) (\<lambda>_. ret 0)))"

section \<open>Scheduling\<close>

definition update_time :: "('z kproc_scheme, unit) prog" where
  "update_time =
     for_each [0..<NPROC] (\<lambda>p.
       bind (acquire (ProcLock p)) (\<lambda>_.
       bind (getp p pstate) (\<lambda>st.
       bind (only_if (st = RUNNING) (updp p (\<lambda>q. q\<lparr>run_time := run_time q + 1\<rparr>))) (\<lambda>_.
       release (ProcLock p)))))"

text \<open>The bodies of the two search loops: keep the best process seen so far.\<close>

definition better_fcfs :: "(nat \<Rightarrow> proc) \<Rightarrow> nat \<Rightarrow> nat option \<Rightarrow> nat option" where
  "better_fcfs ps q chosen =
     (if pstate (ps q) = RUNNABLE \<and>
         (case chosen of None \<Rightarrow> True | Some c \<Rightarrow> creation_time (ps q) < creation_time (ps c))
      then Some q else chosen)"

definition better_priority :: "(nat \<Rightarrow> proc) \<Rightarrow> nat \<Rightarrow> nat option \<Rightarrow> nat option" where
  "better_priority ps q chosen =
     (if pstate (ps q) = RUNNABLE \<and>
         (case chosen of None \<Rightarrow> True | Some c \<Rightarrow> creation_time (ps q) > creation_time (ps c))
      then Some q else chosen)"

definition choose_next_process :: "('z kproc_scheme, nat option) prog" where
  "choose_next_process =
     bind (gets sched_mode) (\<lambda>mode.
     if mode = SCHED_ROUND_ROBIN
     then for_until [0..<NPROC] (\<lambda>p.
       bind (getp p pstate) (\<lambda>st. ret (if st = RUNNABLE then Some p else None)))
     else if mode = SCHED_FCFS
     then for_fold [0..<NPROC] None (\<lambda>q chosen.
       gets (\<lambda>s. better_fcfs (procs s) q chosen))
     else if mode = SCHED_PRIORITY
     then for_fold [0..<NPROC] None (\<lambda>q chosen.
       bind (acquire (ProcLock q)) (\<lambda>_.
       bind (gets (\<lambda>s. better_priority (procs s) q chosen)) (\<lambda>chosen.
       bind (release (ProcLock q)) (\<lambda>_.
       ret chosen))))
     else ret None)"

definition sched_msg :: string where
  "sched_msg = ''[SCHED] CPU %d -> PID %d (ctime=%d)'' @ [CHR 0x0A]"

definition scheduler_dispatch :: "('z kproc_scheme, nat option) prog" where
  "scheduler_dispatch =
     bind mycpu (\<lambda>c.
     bind intr_on (\<lambda>_.
     bind choose_next_process (\<lambda>r.
     case r of
       None \<Rightarrow> bind intr_on (\<lambda>_. ret None)
     | Some p \<Rightarrow>
         bind (acquire (ProcLock p)) (\<lambda>_.
         bind (getp p pstate) (\<lambda>st.
         if st = RUNNABLE
         then bind (updp p (\<lambda>q. q\<lparr>pstate := RUNNING\<rparr>)) (\<lambda>_.
              bind (upd_cpu c (\<lambda>k. k\<lparr>cproc := Some p\<rparr>)) (\<lambda>_.
              bind cpuid (\<lambda>id.
              bind (getp p (\<lambda>q. (ppid q, creation_time q))) (\<lambda>(pid, ct).
              bind (printf sched_msg [VInt (of_int id), VInt (of_int pid), VInt ct]) (\<lambda>_.
              ret (Some p))))))
         else bind (release (ProcLock p)) (\<lambda>_. bind intr_on (\<lambda>_. ret None)))))))"

definition scheduler_return :: "nat \<Rightarrow> ('z kproc_scheme, unit) prog" where
  "scheduler_return p =
     bind mycpu (\<lambda>c.
     bind (upd_cpu c (\<lambda>k. k\<lparr>cproc := None\<rparr>)) (\<lambda>_.
     release (ProcLock p)))"

definition sched :: "('z kproc_scheme, unit) prog" where
  "sched =
     bind curproc (\<lambda>p.
     bind (holding (ProcLock p)) (\<lambda>h.
     if \<not> h then panic ''sched p->lock''
     else bind mycpu (\<lambda>c.
     bind (getm (\<lambda>m. noff (cpus m c))) (\<lambda>n.
     if n \<noteq> 1 then panic ''sched locks''
     else bind (getp p pstate) (\<lambda>st.
     if st = RUNNING then panic ''sched running''
     else bind intr_get (\<lambda>i.
     if i \<noteq> 0 then panic ''sched interruptible''
     else bind mycpu (\<lambda>c.
     bind (getm (\<lambda>m. intena (cpus m c))) (\<lambda>ie.
     bind (switch :: ('z kproc_scheme, unit) prog) (\<lambda>_.
     bind mycpu (\<lambda>c.
     upd_cpu c (\<lambda>k. k\<lparr>intena := ie\<rparr>)))))))))))"

definition yield :: "('z kproc_scheme, unit) prog" where
  "yield =
     bind curproc (\<lambda>p.
     bind (acquire (ProcLock p)) (\<lambda>_.
     bind (updp p (\<lambda>q. q\<lparr>pstate := RUNNABLE\<rparr>)) (\<lambda>_.
     bind sched (\<lambda>_.
     release (ProcLock p)))))"

definition sleep_end :: "nat \<Rightarrow> lock \<Rightarrow> ('z kproc_scheme, unit) prog" where
  "sleep_end p lk =
     bind (updp p (\<lambda>q. q\<lparr>pchan := None\<rparr>)) (\<lambda>_.
     bind (release (ProcLock p)) (\<lambda>_.
     acquire lk))"

definition sleep :: "chan \<Rightarrow> lock \<Rightarrow> ('z kproc_scheme, unit) prog" where
  "sleep ch lk =
     bind curproc (\<lambda>p.
     bind (acquire (ProcLock p)) (\<lambda>_.
     bind (release lk) (\<lambda>_.
     bind (updp p (\<lambda>q. q\<lparr>pchan := Some ch, pstate := SLEEPING\<rparr>)) (\<lambda>_.
     bind sched (\<lambda>_.
     sleep_end p lk)))))"

definition wakeup :: "chan \<Rightarrow> ('z kproc_scheme, unit) prog" where
  "wakeup ch =
     for_each [0..<NPROC] (\<lambda>p.
       bind myproc (\<lambda>me.
       only_if (Some p \<noteq> me)
         (bind (acquire (ProcLock p)) (\<lambda>_.
          bind (getp p (\<lambda>q. pstate q = SLEEPING \<and> pchan q = Some ch)) (\<lambda>w.
          bind (only_if w (updp p (\<lambda>q. q\<lparr>pstate := RUNNABLE\<rparr>))) (\<lambda>_.
          release (ProcLock p)))))))"

definition kill :: "int \<Rightarrow> ('z kproc_scheme, int) prog" where
  "kill pid =
     bind (for_until [0..<NPROC] (\<lambda>p.
       bind (acquire (ProcLock p)) (\<lambda>_.
       bind (getp p ppid) (\<lambda>q.
       if q = pid
       then bind (updp p (\<lambda>q. q\<lparr>pkilled := 1\<rparr>)) (\<lambda>_.
            bind (getp p pstate) (\<lambda>st.
            bind (only_if (st = SLEEPING) (updp p (\<lambda>q. q\<lparr>pstate := RUNNABLE\<rparr>))) (\<lambda>_.
            bind (release (ProcLock p)) (\<lambda>_.
            ret (Some (0 :: int))))))
       else bind (release (ProcLock p)) (\<lambda>_. ret None))))) (\<lambda>r.
     ret (case r of None \<Rightarrow> -1 | Some v \<Rightarrow> v))"

definition setkilled :: "nat \<Rightarrow> ('z kproc_scheme, unit) prog" where
  "setkilled p =
     bind (acquire (ProcLock p)) (\<lambda>_.
     bind (updp p (\<lambda>q. q\<lparr>pkilled := 1\<rparr>)) (\<lambda>_.
     release (ProcLock p)))"

definition killed :: "nat \<Rightarrow> ('z kproc_scheme, int) prog" where
  "killed p =
     bind (acquire (ProcLock p)) (\<lambda>_.
     bind (getp p pkilled) (\<lambda>k.
     bind (release (ProcLock p)) (\<lambda>_.
     ret k)))"

section \<open>Copying and listing\<close>

text \<open>
  A kernel address handed to \<open>either_copyout\<close> or \<open>either_copyin\<close> is an offset into the
  kernel object \<open>kb\<close> that the caller passes.
\<close>

definition either_copyout ::
  "int \<Rightarrow> u64 \<Rightarrow> cstr \<Rightarrow> u64 \<Rightarrow> cstr \<Rightarrow> ('z kproc_scheme, int \<times> cstr) prog" where
  "either_copyout user_dst dst src len kb =
     bind myproc (\<lambda>r.
     if user_dst \<noteq> 0
     then case r of
         None \<Rightarrow> panic ''null proc''
       | Some p \<Rightarrow> bind (getp p ppagetable) (\<lambda>pt.
           bind (copyout pt dst src len) (\<lambda>v. ret (v, kb)))
     else ret (0, \<lambda>j. if unat dst \<le> j \<and> j < unat dst + unat len then src (j - unat dst) else kb j))"

definition either_copyin ::
  "cstr \<Rightarrow> int \<Rightarrow> u64 \<Rightarrow> u64 \<Rightarrow> cstr \<Rightarrow> ('z kproc_scheme, int \<times> cstr) prog" where
  "either_copyin dst user_src src len kb =
     bind myproc (\<lambda>r.
     if user_src \<noteq> 0
     then case r of
         None \<Rightarrow> panic ''null proc''
       | Some p \<Rightarrow> bind (getp p ppagetable) (\<lambda>pt. copyin pt dst src len)
     else ret (0, \<lambda>j. if j < unat len then kb (unat src + j) else dst j))"

fun state_name :: "procstate \<Rightarrow> string" where
  "state_name UNUSED = ''unused''"
| "state_name USED = ''used''"
| "state_name SLEEPING = ''sleep ''"
| "state_name RUNNABLE = ''runble''"
| "state_name RUNNING = ''run   ''"
| "state_name ZOMBIE = ''zombie''"

text \<open>The characters of a C string up to its NUL, at most \<open>n\<close> of them.\<close>

fun cstring :: "nat \<Rightarrow> cstr \<Rightarrow> string" where
  "cstring 0 b = []"
| "cstring (Suc n) b = (if b 0 = 0 then [] else char_of (unat (b 0)) # cstring n (\<lambda>i. b (Suc i)))"

definition procdump :: "('z kproc_scheme, unit) prog" where
  "procdump =
     bind (printf [CHR 0x0A] []) (\<lambda>_.
     for_each [0..<NPROC] (\<lambda>p.
       bind (gets (\<lambda>s. procs s p)) (\<lambda>q.
       only_if (pstate q \<noteq> UNUSED)
         (bind (printf ''%d %s %s'' [VInt (of_int (ppid q)), VStr (Some (state_name (pstate q))),
             VStr (Some (cstring 16 (pname q)))]) (\<lambda>_.
          bind (printf [CHR 0x0A] []) (\<lambda>_. ret ()))))))"

fun state_num :: "procstate \<Rightarrow> u32" where
  "state_num UNUSED = 0"
| "state_num USED = 1"
| "state_num SLEEPING = 2"
| "state_num RUNNABLE = 3"
| "state_num RUNNING = 4"
| "state_num ZOMBIE = 5"

text \<open>
  \<open>struct proc_info\<close> as bytes: \<open>pid\<close> at 0, \<open>ppid\<close> at 4, \<open>state\<close> at 8, \<open>name\<close> at
  12, \<open>sz\<close> at 32, 40 in all. \<open>pinfo\<close> is a local variable: its bytes that the code does
  not set (padding, the rest of \<open>name\<close>) are whatever was there.
\<close>

definition fill_pinfo :: "(nat \<Rightarrow> proc) \<Rightarrow> proc \<Rightarrow> cstr \<Rightarrow> cstr" where
  "fill_pinfo ps q pinfo =
     (let b1 = put32 pinfo 0 (of_int (ppid q));
          b2 = put32 b1 4 (of_int (case pparent q of None \<Rightarrow> 0 | Some k \<Rightarrow> ppid (ps k)));
          b3 = put32 b2 8 (state_num (pstate q));
          nm = safestrcpy (\<lambda>i. b3 (12 + i)) (pname q) 16;
          b4 = (\<lambda>j. if 12 \<le> j then nm (j - 12) else b3 j)
      in put64 b4 32 (psz q))"

fun getptable_loop :: "nat list \<Rightarrow> int \<Rightarrow> int \<Rightarrow> u64 \<Rightarrow> cstr \<Rightarrow> ('z kproc_scheme, int) prog" where
  "getptable_loop [] count nproc buffer pinfo = ret 1"
| "getptable_loop (p # ps) count nproc buffer pinfo =
     (if \<not> count < nproc then ret 1
      else bind (acquire (ProcLock p)) (\<lambda>_.
      bind (gets (\<lambda>s. (procs s p, fill_pinfo (procs s) (procs s p) pinfo))) (\<lambda>(q, b).
      if pstate q \<noteq> UNUSED
      then bind curproc (\<lambda>me.
           bind (getp me ppagetable) (\<lambda>pt.
           bind (copyout pt (buffer + of_int count * 40) b 40) (\<lambda>r.
           if r < 0 then bind (release (ProcLock p)) (\<lambda>_. ret 0)
           else bind (release (ProcLock p)) (\<lambda>_.
                getptable_loop ps (count + 1) nproc buffer b))))
      else bind (release (ProcLock p)) (\<lambda>_.
           getptable_loop ps count nproc buffer pinfo))))"

definition getptable :: "int \<Rightarrow> u64 \<Rightarrow> cstr \<Rightarrow> ('z kproc_scheme, int) prog" where
  "getptable nproc buffer pinfo =
     (if nproc < 1 then ret 0 else getptable_loop [0..<NPROC] 0 nproc buffer pinfo)"

section \<open>Closed forms\<close>

definition cur :: "'z kproc_scheme \<Rightarrow> nat option" where
  "cur s = cproc (mycpu_of (mc s))"

definition procs_free :: "'z kproc_scheme \<Rightarrow> bool" where
  "procs_free s \<longleftrightarrow> cpu_ok (mc s) \<and> (\<forall>p < NPROC. lkfree (ProcLock p) (mc s))"

lemma getp_run: "getp p f s = Ret (f (procs s p)) s"
  by (simp add: getp_def run_simps)

lemma updp_run: "updp p f s = Ret () (s\<lparr>procs := (procs s)(p := f (procs s p))\<rparr>)"
  by (simp add: updp_def run_simps)

lemma wp_getp [wp_simps]: "wp (getp p f) Q s = Q (f (procs s p)) s"
  by (simp add: wp_def getp_run)

lemma wp_updp [wp_simps]: "wp (updp p f) Q s = Q () (s\<lparr>procs := (procs s)(p := f (procs s p))\<rparr>)"
  by (simp add: wp_def updp_run)

lemma pushed_cproc [simp]: "cproc (cpus (pushed m) (me m)) = cproc (mycpu_of m)"
  by (simp add: pushed_def)

lemma myproc_run:
  assumes "cpu_ok (mc s)"
  shows "myproc s = Ret (cur s) (s\<lparr>mc := settled (mc s)\<rparr>)"
  using assms by (simp add: myproc_def push_off_run getm_run pop_off_run run_simps cur_def not_less)

lemma cur_settled [simp]: "cur (s\<lparr>mc := settled (mc s)\<rparr>) = cur s"
  by (simp add: cur_def)

lemma procs_free_settled [simp]: "procs_free (s\<lparr>mc := settled (mc s)\<rparr>) = procs_free s"
  by (simp add: procs_free_def)

text \<open>A loop over all processes that handles each one under its own lock.\<close>

lemma proc_section:
  assumes "procs_free s" "p < NPROC"
  shows "bind (acquire (ProcLock p)) (\<lambda>_. bind (updp p f) (\<lambda>_. release (ProcLock p))) s =
    Ret () (s\<lparr>mc := settled (mc s), procs := (procs s)(p := f (procs s p))\<rparr>)"
  using assms
  by (auto simp: procs_free_def acquire_free updp_run release_section run_simps)

lemma for_each_procs:
  assumes body: "\<And>p t. p < NPROC \<Longrightarrow> P t \<Longrightarrow>
      body p t = Ret () (t\<lparr>mc := settled (mc t), procs := (procs t)(p := f p (procs t p))\<rparr>)"
    and P: "\<And>t ps. P t \<Longrightarrow> P (t\<lparr>mc := settled (mc t), procs := ps\<rparr>)" and "P s" "n \<le> NPROC"
  shows "for_each [0..<n] body s =
    Ret () (if n = 0 then s else s\<lparr>mc := settled (mc s), procs := (\<lambda>p. if p < n then f p (procs s p) else procs s p)\<rparr>)"
proof -
  have gen: "for_each [k..<n] body (s\<lparr>mc := settled (mc s), procs := ps\<rparr>) =
      Ret () (s\<lparr>mc := settled (mc s), procs := (\<lambda>p. if k \<le> p \<and> p < n then f p (ps p) else ps p)\<rparr>)"
    if "k \<le> n" for k ps
    using that
  proof (induction "n - k" arbitrary: k ps)
    case 0
    moreover have "(\<lambda>p. if k \<le> p \<and> p < n then f p (ps p) else ps p) = ps" using 0 by (intro ext) auto
    ultimately show ?case using 0 by (simp add: run_simps)
  next
    case (Suc d)
    then have kn: "k < n" by simp
    let ?t = "s\<lparr>mc := settled (mc s), procs := ps\<rparr>"
    have "P ?t" using P[OF assms(3)] by simp
    then have "body k ?t = Ret () (s\<lparr>mc := settled (mc s), procs := ps(k := f k (ps k))\<rparr>)"
      using body[of k ?t] kn assms(4) by simp
    moreover have "for_each [Suc k..<n] body (s\<lparr>mc := settled (mc s), procs := ps(k := f k (ps k))\<rparr>) =
        Ret () (s\<lparr>mc := settled (mc s), procs := (\<lambda>p. if Suc k \<le> p \<and> p < n
          then f p ((ps(k := f k (ps k))) p) else (ps(k := f k (ps k))) p)\<rparr>)"
      using Suc kn by (intro Suc.hyps(1)) simp_all
    moreover have "(\<lambda>p. if Suc k \<le> p \<and> p < n then f p ((ps(k := f k (ps k))) p) else (ps(k := f k (ps k))) p)
        = (\<lambda>p. if k \<le> p \<and> p < n then f p (ps p) else ps p)"
      using kn by (intro ext) (auto simp: not_less_eq_eq)
    ultimately show ?case using kn by (simp add: upt_conv_Cons)
  qed
  show ?thesis
  proof (cases n)
    case 0
    then show ?thesis by (simp add: run_simps)
  next
    case (Suc m)
    have b: "body 0 s = Ret () (s\<lparr>mc := settled (mc s), procs := (procs s)(0 := f 0 (procs s 0))\<rparr>)"
      using body[of 0 s] assms(3,4) Suc by simp
    have "(\<lambda>p. if 1 \<le> p \<and> p < n then f p (((procs s)(0 := f 0 (procs s 0))) p) else ((procs s)(0 := f 0 (procs s 0))) p)
        = (\<lambda>p. if p < n then f p (procs s p) else procs s p)"
      using Suc by (intro ext) (auto simp: not_less_eq_eq)
    moreover have "[0..<n] = 0 # [1..<n]" using Suc by (simp add: upt_conv_Cons del: upt_Suc)
    ultimately show ?thesis using b gen[of 1 "(procs s)(0 := f 0 (procs s 0))"] Suc by simp
  qed
qed

definition awakened :: "chan \<Rightarrow> proc \<Rightarrow> proc" where
  "awakened ch q = (if pstate q = SLEEPING \<and> pchan q = Some ch then q\<lparr>pstate := RUNNABLE\<rparr> else q)"

lemma wakeup_run:
  assumes "procs_free s"
  shows "wakeup ch s = Ret () (s\<lparr>mc := settled (mc s),
    procs := (\<lambda>p. if p < NPROC \<and> Some p \<noteq> cur s then awakened ch (procs s p) else procs s p)\<rparr>)"
proof -
  let ?f = "\<lambda>p q. if Some p \<noteq> cur s then awakened ch q else q"
  have "wakeup ch s = Ret () (if NPROC = 0 then s else s\<lparr>mc := settled (mc s),
      procs := (\<lambda>p. if p < NPROC then ?f p (procs s p) else procs s p)\<rparr>)"
    unfolding wakeup_def
  proof (rule for_each_procs[where P = "\<lambda>t. procs_free t \<and> cur t = cur s"])
    fix p and t :: "'a kproc_scheme"
    assume "p < NPROC" "procs_free t \<and> cur t = cur s"
    then show "bind myproc (\<lambda>me. only_if (Some p \<noteq> me) (bind (acquire (ProcLock p)) (\<lambda>_.
          bind (getp p (\<lambda>q. pstate q = SLEEPING \<and> pchan q = Some ch)) (\<lambda>w.
          bind (only_if w (updp p (\<lambda>q. q\<lparr>pstate := RUNNABLE\<rparr>))) (\<lambda>_.
          release (ProcLock p)))))) t =
        Ret () (t\<lparr>mc := settled (mc t), procs := (procs t)(p := ?f p (procs t p))\<rparr>)"
      by (auto simp: myproc_run procs_free_def only_if_def acquire_free getp_run updp_run release_section
          run_simps awakened_def)
  qed (use assms in \<open>auto simp: procs_free_def cur_def\<close>)
  moreover have "(\<lambda>p. if p < NPROC then ?f p (procs s p) else procs s p) =
      (\<lambda>p. if p < NPROC \<and> Some p \<noteq> cur s then awakened ch (procs s p) else procs s p)"
    by auto
  ultimately show ?thesis by (simp add: NPROC_def)
qed

lemma update_time_run:
  assumes "procs_free s"
  shows "update_time s = Ret () (s\<lparr>mc := settled (mc s),
    procs := (\<lambda>p. if p < NPROC \<and> pstate (procs s p) = RUNNING
      then (procs s p)\<lparr>run_time := run_time (procs s p) + 1\<rparr> else procs s p)\<rparr>)"
proof -
  let ?f = "\<lambda>(p::nat) q. if pstate q = RUNNING then q\<lparr>run_time := run_time q + 1\<rparr> else q"
  have "update_time s = Ret () (if NPROC = 0 then s else s\<lparr>mc := settled (mc s),
      procs := (\<lambda>p. if p < NPROC then ?f p (procs s p) else procs s p)\<rparr>)"
    unfolding update_time_def
    by (rule for_each_procs[where P = procs_free])
      (use assms in \<open>auto simp: procs_free_def acquire_free getp_run updp_run release_section run_simps\<close>)
  moreover have "(\<lambda>p. if p < NPROC then ?f p (procs s p) else procs s p) =
      (\<lambda>p. if p < NPROC \<and> pstate (procs s p) = RUNNING
        then (procs s p)\<lparr>run_time := run_time (procs s p) + 1\<rparr> else procs s p)"
    by auto
  ultimately show ?thesis by (simp add: NPROC_def)
qed

text \<open>A search that stops at the first slot that fits.\<close>

lemma for_until_first:
  assumes hit: "\<And>p t. p \<in> set xs \<Longrightarrow> P t \<Longrightarrow> G t = G s \<Longrightarrow> B s p \<Longrightarrow> body p t = Ret (Some (r p)) (h p t)"
    and miss: "\<And>p t. p \<in> set xs \<Longrightarrow> P t \<Longrightarrow> G t = G s \<Longrightarrow> \<not> B s p \<Longrightarrow> body p t = Ret None (g t)"
    and g: "\<And>t. P t \<Longrightarrow> P (g t)" "\<And>t. P t \<Longrightarrow> G (g t) = G t" "\<And>t. P t \<Longrightarrow> g (g t) = g t"
    and hg: "\<And>p t. P t \<Longrightarrow> h p (g t) = h p t" and "P s"
  shows "for_until xs body s = (case find (B s) xs of
      None \<Rightarrow> Ret None (if xs = [] then s else g s)
    | Some p \<Rightarrow> Ret (Some (r p)) (h p s))"
proof -
  have gen: "for_until ys body (g s) = (case find (B s) ys of
      None \<Rightarrow> Ret None (g s) | Some p \<Rightarrow> Ret (Some (r p)) (h p s))" if "set ys \<subseteq> set xs" for ys
    using that by (induction ys) (auto simp: run_simps hit miss g hg \<open>P s\<close> split: option.split)
  show ?thesis
  proof (cases xs)
    case (Cons x ys)
    then have "x \<in> set xs" "set ys \<subseteq> set xs" by auto
    then show ?thesis using Cons gen[of ys] hit[of x s] miss[of x s] \<open>P s\<close>
      by (cases "B s x") (auto simp: run_simps)
  qed (simp add: run_simps)
qed

lemma find_upt_Some_iff:
  "find B [0..<n] = Some p \<longleftrightarrow> p < n \<and> B p \<and> (\<forall>q < p. \<not> B q)"
  by (auto simp: find_Some_iff)

lemma find_upt_None_iff: "find B [0..<n] = None \<longleftrightarrow> (\<forall>q < n. \<not> B q)"
  by (auto simp: find_None_iff)

definition killed_proc :: "proc \<Rightarrow> proc" where
  "killed_proc q = (if pstate q = SLEEPING then q\<lparr>pkilled := 1, pstate := RUNNABLE\<rparr> else q\<lparr>pkilled := 1\<rparr>)"

lemma kill_run:
  assumes "procs_free s"
  shows "kill pid s = (case find (\<lambda>p. ppid (procs s p) = pid) [0..<NPROC] of
      None \<Rightarrow> Ret (-1) (s\<lparr>mc := settled (mc s)\<rparr>)
    | Some p \<Rightarrow> Ret 0 (s\<lparr>mc := settled (mc s), procs := (procs s)(p := killed_proc (procs s p))\<rparr>))"
proof -
  let ?body = "\<lambda>p. bind (acquire (ProcLock p)) (\<lambda>_.
       bind (getp p ppid) (\<lambda>q.
       if q = pid
       then bind (updp p (\<lambda>q. q\<lparr>pkilled := 1\<rparr>)) (\<lambda>_.
            bind (getp p pstate) (\<lambda>st.
            bind (only_if (st = SLEEPING) (updp p (\<lambda>q. q\<lparr>pstate := RUNNABLE\<rparr>))) (\<lambda>_.
            bind (release (ProcLock p)) (\<lambda>_.
            ret (Some (0 :: int))))))
       else bind (release (ProcLock p)) (\<lambda>_. ret None)))"
  have "for_until [0..<NPROC] ?body s =
     (case find (\<lambda>p. ppid (procs s p) = pid) [0..<NPROC] of
        None \<Rightarrow> Ret None (if [0..<NPROC] = [] then s else s\<lparr>mc := settled (mc s)\<rparr>)
      | Some p \<Rightarrow> Ret (Some 0) (s\<lparr>mc := settled (mc s), procs := (procs s)(p := killed_proc (procs s p))\<rparr>))"
    by (rule for_until_first[where P = procs_free and G = procs and
        B = "\<lambda>s p. ppid (procs s p) = pid" and g = "\<lambda>t. t\<lparr>mc := settled (mc t)\<rparr>" and r = "\<lambda>_. 0" and
        h = "\<lambda>p t. t\<lparr>mc := settled (mc t), procs := (procs t)(p := killed_proc (procs t p))\<rparr>"])
      (use assms in \<open>auto simp: procs_free_def acquire_free getp_run updp_run release_section
        run_simps killed_proc_def\<close>)
  then show ?thesis
    by (auto simp: kill_def NPROC_def run_simps split: option.split)
qed

section \<open>Choosing a process\<close>

text \<open>
  The two searches share one shape: walk the table, keep the first eligible slot whose
  key comes strictly before the best so far in some order of the keys.
\<close>

definition pick_step ::
  "('k \<Rightarrow> 'k \<Rightarrow> bool) \<Rightarrow> (nat \<Rightarrow> bool) \<Rightarrow> (nat \<Rightarrow> 'k) \<Rightarrow> nat \<Rightarrow> nat option \<Rightarrow> nat option" where
  "pick_step before elig key q chosen =
     (if elig q \<and> (case chosen of None \<Rightarrow> True | Some c \<Rightarrow> before (key q) (key c)) then Some q else chosen)"

definition picked ::
  "('k \<Rightarrow> 'k \<Rightarrow> bool) \<Rightarrow> (nat \<Rightarrow> bool) \<Rightarrow> (nat \<Rightarrow> 'k) \<Rightarrow> nat \<Rightarrow> nat option \<Rightarrow> bool" where
  "picked before elig key n r \<longleftrightarrow> (case r of
      None \<Rightarrow> \<forall>q < n. \<not> elig q
    | Some c \<Rightarrow> c < n \<and> elig c \<and> (\<forall>q < n. elig q \<longrightarrow> \<not> before (key q) (key c)) \<and>
        (\<forall>q < c. elig q \<longrightarrow> before (key c) (key q)))"

locale selection =
  fixes before :: "'k \<Rightarrow> 'k \<Rightarrow> bool"
  assumes before_irrefl: "\<not> before a a"
    and before_trans: "before a b \<Longrightarrow> before b c \<Longrightarrow> before a c"
    and before_total: "a = b \<or> before a b \<or> before b a"
begin

lemma picked_step:
  assumes "picked before elig key n r"
  shows "picked before elig key (Suc n) (pick_step before elig key n r)"
proof (cases r)
  case None
  with assms show ?thesis
    by (auto simp: picked_def pick_step_def less_Suc_eq before_irrefl)
next
  case (Some c)
  with assms have c: "c < n" "elig c" "\<And>q. q < n \<Longrightarrow> elig q \<Longrightarrow> \<not> before (key q) (key c)"
      "\<And>q. q < c \<Longrightarrow> elig q \<Longrightarrow> before (key c) (key q)"
    by (auto simp: picked_def)
  show ?thesis
  proof (cases "elig n \<and> before (key n) (key c)")
    case True
    have n: "before (key n) (key q)" if "q < n" "elig q" for q
      using c(3)[OF that] before_total[of "key q" "key c"] before_trans[of "key n" "key c" "key q"] True
      by auto
    moreover have "\<not> before (key q) (key n)" if "q < n" "elig q" for q
      using n[OF that] before_trans[of "key n" "key q" "key n"] before_irrefl by blast
    ultimately show ?thesis using True Some before_irrefl
      by (auto simp: picked_def pick_step_def less_Suc_eq)
  next
    case False
    with Some c show ?thesis by (auto simp: picked_def pick_step_def less_Suc_eq)
  qed
qed

lemma picked_search: "picked before elig key n (fold (pick_step before elig key) [0..<n] None)"
proof (induction n)
  case (Suc n)
  then show ?case using picked_step by simp
qed (simp add: picked_def)

end

interpretation oldest: selection "(<) :: u32 \<Rightarrow> u32 \<Rightarrow> bool"
  by unfold_locales auto

interpretation newest: selection "(>) :: u32 \<Rightarrow> u32 \<Rightarrow> bool"
  by unfold_locales auto

definition runnable :: "(nat \<Rightarrow> proc) \<Rightarrow> nat \<Rightarrow> bool" where
  "runnable ps q \<longleftrightarrow> pstate (ps q) = RUNNABLE"

lemma better_fcfs_pick:
  "better_fcfs ps = pick_step (<) (runnable ps) (\<lambda>q. creation_time (ps q))"
  by (intro ext) (simp add: better_fcfs_def pick_step_def runnable_def)

lemma better_priority_pick:
  "better_priority ps = pick_step (>) (runnable ps) (\<lambda>q. creation_time (ps q))"
  by (intro ext) (simp add: better_priority_def pick_step_def runnable_def)

lemma sched_modes: "SCHED_FCFS \<noteq> SCHED_ROUND_ROBIN" "SCHED_PRIORITY \<noteq> SCHED_ROUND_ROBIN"
  "SCHED_PRIORITY \<noteq> SCHED_FCFS"
  by (simp_all add: SCHED_ROUND_ROBIN_def SCHED_FCFS_def SCHED_PRIORITY_def)

lemma choose_rr:
  assumes "sched_mode s = SCHED_ROUND_ROBIN"
  shows "choose_next_process s = Ret (find (runnable (procs s)) [0..<NPROC]) s"
proof -
  have "for_until xs (\<lambda>p. bind (getp p pstate) (\<lambda>st. ret (if st = RUNNABLE then Some p else None))) s =
      Ret (find (runnable (procs s)) xs) s" for xs
    by (induction xs) (auto simp: run_simps getp_run runnable_def)
  then show ?thesis using assms by (simp add: choose_next_process_def run_simps)
qed

lemma choose_fcfs:
  assumes "sched_mode s = SCHED_FCFS"
  shows "choose_next_process s = Ret (fold (better_fcfs (procs s)) [0..<NPROC] None) s"
proof -
  have "for_fold xs a (\<lambda>q chosen. gets (\<lambda>s. better_fcfs (procs s) q chosen)) s =
      Ret (fold (better_fcfs (procs s)) xs a) s" for xs a
    by (induction xs arbitrary: a) (auto simp: run_simps)
  then show ?thesis using assms by (simp add: choose_next_process_def run_simps sched_modes)
qed

lemma choose_priority:
  assumes "sched_mode s = SCHED_PRIORITY" "procs_free s"
  shows "choose_next_process s =
    Ret (fold (better_priority (procs s)) [0..<NPROC] None) (s\<lparr>mc := settled (mc s)\<rparr>)"
proof -
  have "for_fold [0..<NPROC] None (\<lambda>q chosen.
       bind (acquire (ProcLock q)) (\<lambda>_.
       bind (gets (\<lambda>s. better_priority (procs s) q chosen)) (\<lambda>chosen.
       bind (release (ProcLock q)) (\<lambda>_.
       ret chosen)))) s =
     Ret (fold (better_priority (procs s)) [0..<NPROC] None)
       (if [0..<NPROC] = [] then s else s\<lparr>mc := settled (mc s)\<rparr>)"
    by (rule for_fold_pure[where P = procs_free and f = "\<lambda>t. better_priority (procs t)" and
        g = "\<lambda>t. t\<lparr>mc := settled (mc t)\<rparr>"])
      (use assms in \<open>auto simp: procs_free_def acquire_free release_section run_simps\<close>)
  then show ?thesis using assms by (simp add: choose_next_process_def run_simps sched_modes NPROC_def)
qed

section \<open>Processes and CPUs\<close>

text \<open>
  The kernel as a step relation: any CPU \<open>h\<close> may take a turn of the scheduler, let a
  freshly dispatched process drop its lock, give the CPU up, return to the scheduler
  loop, or run one of the operations that touch other processes. Each step runs the code
  above on the view of the machine that CPU \<open>h\<close> has (\<open>tp\<close> holds its number). The
  saved interrupt state that a context switch brings back is arbitrary (\<open>ss\<close>).
\<close>

definition on_cpu :: "nat \<Rightarrow> u64 \<Rightarrow> 'z kproc_scheme \<Rightarrow> 'z kproc_scheme" where
  "on_cpu h ss s = s\<lparr>mc := (mc s)\<lparr>tp := of_nat h, sstatus := ss\<rparr>\<rparr>"

definition running_on :: "'z kproc_scheme \<Rightarrow> nat \<Rightarrow> nat option" where
  "running_on s h = cproc (cpus (mc s) h)"

definition held_by :: "nat \<Rightarrow> nat \<Rightarrow> 'z kproc_scheme \<Rightarrow> bool" where
  "held_by h p s \<longleftrightarrow> locked (locks (mc s) (ProcLock p)) \<noteq> 0 \<and> lcpu (locks (mc s) (ProcLock p)) = Some h"

inductive kstep :: "'z kproc_scheme \<Rightarrow> 'z kproc_scheme \<Rightarrow> bool" where
  dispatch: "\<lbrakk>h < NCPU; running_on s h = None; scheduler_dispatch (on_cpu h ss s) = Ret r t\<rbrakk> \<Longrightarrow> kstep s t"
| resume: "\<lbrakk>h < NCPU; running_on s h = Some p; pstate (procs s p) = RUNNING;
    release (ProcLock p) (on_cpu h ss s) = Ret () t\<rbrakk> \<Longrightarrow> kstep s t"
| yields: "\<lbrakk>h < NCPU; running_on s h = Some p; pstate (procs s p) = RUNNING;
    yield (on_cpu h ss s) = Switch t\<rbrakk> \<Longrightarrow> kstep s t"
| sleeps: "\<lbrakk>h < NCPU; running_on s h = Some p; pstate (procs s p) = RUNNING; \<forall>q. lk \<noteq> ProcLock q;
    sleep ch lk (on_cpu h ss s) = Switch t\<rbrakk> \<Longrightarrow> kstep s t"
| returns: "\<lbrakk>h < NCPU; running_on s h = Some p; pstate (procs s p) \<noteq> RUNNING;
    scheduler_return p (on_cpu h ss s) = Ret () t\<rbrakk> \<Longrightarrow> kstep s t"
| wakes: "\<lbrakk>h < NCPU; wakeup ch (on_cpu h ss s) = Ret () t\<rbrakk> \<Longrightarrow> kstep s t"
| kills: "\<lbrakk>h < NCPU; kill pid (on_cpu h ss s) = Ret v t\<rbrakk> \<Longrightarrow> kstep s t"
| ticks_on: "\<lbrakk>h < NCPU; update_time (on_cpu h ss s) = Ret () t\<rbrakk> \<Longrightarrow> kstep s t"

definition placed :: "'z kproc_scheme \<Rightarrow> bool" where
  "placed s \<longleftrightarrow>
     (\<forall>h p. running_on s h = Some p \<longrightarrow> pstate (procs s p) = RUNNING \<or> held_by h p s) \<and>
     (\<forall>h k p. running_on s h = Some p \<and> running_on s k = Some p \<longrightarrow> h = k)"

inductive kreach :: "'z kproc_scheme \<Rightarrow> 'z kproc_scheme \<Rightarrow> bool" for s where
  start: "kreach s s"
| step: "kreach s t \<Longrightarrow> kstep t u \<Longrightarrow> kreach s u"

text \<open>What the placement of processes depends on, and that printing leaves it alone.\<close>

definition placement :: "'z kproc_scheme \<Rightarrow> (nat \<Rightarrow> proc) \<times> (nat \<Rightarrow> nat option) \<times> (nat \<Rightarrow> spinlock) \<times> nat" where
  "placement s = (procs s, running_on s, (\<lambda>p. locks (mc s) (ProcLock p)), me (mc s))"

lemma machine_placement [simp]:
  "cproc (cpus (pushed m) h) = cproc (cpus m h)" "cproc (cpus (popped m) h) = cproc (cpus m h)"
  "me (popped m) = me m" "locks (popped m) = locks m"
  "cproc (cpus (acq lk m) h) = cproc (cpus m h)" "cproc (cpus (rel lk m) h) = cproc (cpus m h)"
  "me (rel lk m) = me m"
  by (simp_all add: pushed_def popped_def acq_def rel_def mycpu_of_def me_def)

lemma locks_rel: "locks (rel lk m) = (locks m)(lk := (locks m lk)\<lparr>lcpu := None, locked := 0\<rparr>)"
  by (simp add: rel_def)

lemma locks_acq: "locks (acq lk m) = (locks m)(lk := (locks m lk)\<lparr>locked := 1, lcpu := Some (me m)\<rparr>)"
  by (simp add: acq_def)

lemma placement_simps [simp]:
  "placement (s\<lparr>mc := pushed (mc s)\<rparr>) = placement s"
  "placement (s\<lparr>mc := popped (mc s)\<rparr>) = placement s"
  "placement (s\<lparr>uart := u\<rparr>) = placement s"
  "\<forall>p. lk \<noteq> ProcLock p \<Longrightarrow> placement (s\<lparr>mc := acq lk (mc s)\<rparr>) = placement s"
  "\<forall>p. lk \<noteq> ProcLock p \<Longrightarrow> placement (s\<lparr>mc := rel lk (mc s)\<rparr>) = placement s"
  by (auto simp: placement_def running_on_def locks_rel locks_acq fun_eq_iff)

lemma keeps_placement [keeps_intros]:
  "keeps placement push_off" "keeps placement pop_off"
  "\<forall>p. lk \<noteq> ProcLock p \<Longrightarrow> keeps placement (acquire lk)"
  "\<forall>p. lk \<noteq> ProcLock p \<Longrightarrow> keeps placement (release lk)"
  by (simp_all add: keeps_def wp_simps)

lemma putchar_placement [keeps_intros]: "keeps placement (putchar c)"
  unfolding putchar_def consputc_def uartputc_sync_def ReadReg_def WriteReg_def
  by (intro keeps_intros) simp_all

lemma printint_placement [keeps_intros]: "keeps placement (printint x b sg)"
  unfolding printint_def undefined_behaviour_def by (intro keeps_intros)

lemma printptr_placement [keeps_intros]: "keeps placement (printptr x)"
proof -
  have "keeps placement (printptr_loop n y)" for n y
    by (induction n arbitrary: y) (auto intro!: keeps_intros)
  then show ?thesis unfolding printptr_def by (intro keeps_intros)
qed

lemma keeps_with_int [keeps_intros]:
  "(\<And>ap. keeps f (k ap)) \<Longrightarrow> (\<And>x. keeps f (g x)) \<Longrightarrow> keeps f (with_int ap g k)"
  by (cases "(ap, g, k)" rule: with_int.cases) (simp_all add: keeps_intros undefined_behaviour_def)

lemma keeps_with_long [keeps_intros]:
  "(\<And>ap. keeps f (k ap)) \<Longrightarrow> (\<And>x. keeps f (g x)) \<Longrightarrow> keeps f (with_long ap g k)"
  by (cases "(ap, g, k)" rule: with_long.cases) (simp_all add: keeps_intros undefined_behaviour_def)

lemma keeps_with_str [keeps_intros]:
  "(\<And>ap. keeps f (k ap)) \<Longrightarrow> (\<And>x. keeps f (g x)) \<Longrightarrow> keeps f (with_str ap g k)"
  by (cases "(ap, g, k)" rule: with_str.cases) (simp_all add: keeps_intros undefined_behaviour_def)

lemma printf_loop_placement: "keeps (placement :: 'z kproc_scheme \<Rightarrow> _) (printf_loop cs ap)"
proof (induction "length cs" arbitrary: cs ap rule: less_induct)
  case less
  show ?case
  proof (cases cs)
    case (Cons c rest)
    have rest: "keeps (placement :: 'z kproc_scheme \<Rightarrow> _) (printf_loop rest ap)" for ap
      using Cons by (intro less) simp
    have later: "keeps (placement :: 'z kproc_scheme \<Rightarrow> _) (printf_loop (drop n rest) ap)" for n ap
      using Cons by (intro less) simp
    show ?thesis
      unfolding Cons printf_loop.simps(2) Let_def by (intro keeps_intros rest later)
  qed (simp add: keeps_intros)
qed

lemma printf_placement [keeps_intros]: "keeps placement (printf fmt ap)"
  unfolding printf_def by (intro keeps_intros printf_loop_placement) simp_all

text \<open>
  \<open>clear q s\<close>: the placement is right and any CPU that has \<open>q\<close> as its process really
  runs it. Getting \<open>q\<close>'s lock establishes it, since a CPU in the middle of a switch holds
  that lock.
\<close>

definition clear :: "nat \<Rightarrow> 'z kproc_scheme \<Rightarrow> bool" where
  "clear q s \<longleftrightarrow> placed s \<and> (\<forall>h. running_on s h = Some q \<longrightarrow> pstate (procs s q) = RUNNING)"

lemma placed_cong: "placement t = placement s \<Longrightarrow> placed t = placed s"
  by (simp add: placement_def placed_def held_by_def fun_eq_iff)

lemma clear_cong: "placement t = placement s \<Longrightarrow> clear q t = clear q s"
  using placed_cong[of t s] by (simp add: placement_def clear_def)

lemma clear_placed: "clear q s \<Longrightarrow> placed s"
  by (simp add: clear_def)

lemma clear_acq:
  "placed s \<Longrightarrow> locked (locks (mc s) (ProcLock q)) = 0 \<Longrightarrow> clear q (s\<lparr>mc := acq (ProcLock q) (mc s)\<rparr>)"
  by (auto simp: clear_def placed_def held_by_def running_on_def locks_acq)

lemma clear_rel: "clear q s \<Longrightarrow> placed (s\<lparr>mc := rel (ProcLock q) (mc s)\<rparr>)"
  by (auto simp: clear_def placed_def held_by_def running_on_def locks_rel)

lemma clear_upd:
  "clear q s \<Longrightarrow> (pstate (procs s q) = RUNNING \<Longrightarrow> pstate q' = RUNNING) \<Longrightarrow>
    clear q (s\<lparr>procs := (procs s)(q := q')\<rparr>)"
  by (auto simp: clear_def placed_def held_by_def running_on_def)

lemma clear_upd_rel:
  "clear q s \<Longrightarrow> (pstate (procs s q) = RUNNING \<Longrightarrow> pstate q' = RUNNING) \<Longrightarrow>
    placed (s\<lparr>procs := (procs s)(q := q'), mc := rel (ProcLock q) (mc s)\<rparr>)"
  using clear_rel[OF clear_upd[of q s q']] by simp

lemma ends_section:
  assumes "placed s" "\<And>t. clear q t \<Longrightarrow> me (mc t) = me (mc s) \<Longrightarrow> running_on t = running_on s \<Longrightarrow>
      ends m Q R t"
  shows "ends (bind (acquire (ProcLock q)) (\<lambda>_. m)) Q R s"
  using assms by (auto simp: wp_simps running_on_def intro!: assms(2) clear_acq)

lemma ends_getp [wp_simps]:
  "ends (getp q f) Q R s = Q (f (procs s q)) s"
  "ends (updp q g) Q' R s = Q' () (s\<lparr>procs := (procs s)(q := g (procs s q))\<rparr>)"
  by (simp_all add: ends_def getp_run updp_run)

lemma me_of_nat: "h < NCPU \<Longrightarrow> tp m = of_nat h \<Longrightarrow> me m = h"
proof -
  assume h: "h < NCPU" and tp: "tp m = of_nat h"
  then have "h \<in> {0, 1, 2, 3, 4, 5, 6, 7}" by (auto simp: NCPU_def)
  then show ?thesis by (auto simp: me_def tp)
qed

lemma on_cpu_simps [simp]:
  "placed (on_cpu h ss s) = placed s" "running_on (on_cpu h ss s) = running_on s"
  "procs (on_cpu h ss s) = procs s" "h < NCPU \<Longrightarrow> me (mc (on_cpu h ss s)) = h"
  "held_by k p (on_cpu h ss s) = held_by k p s"
  by (auto simp: on_cpu_def placed_def running_on_def held_by_def fun_eq_iff me_of_nat)

lemma running_on_rel [simp]: "running_on (s\<lparr>mc := rel lk (mc s)\<rparr>) = running_on s"
  by (simp add: running_on_def fun_eq_iff)

lemma wakeup_placed: "placed s \<Longrightarrow> ends (wakeup ch) (\<lambda>_. placed) (\<lambda>_. True) s"
  unfolding wakeup_def
proof (rule ends_for_each)
  fix p and t :: "'a kproc_scheme"
  assume t: "placed t"
  let ?m = "bind (acquire (ProcLock p)) (\<lambda>_. bind (getp p (\<lambda>q. pstate q = SLEEPING \<and> pchan q = Some ch)) (\<lambda>w.
          bind (only_if w (updp p (\<lambda>q. q\<lparr>pstate := RUNNABLE\<rparr>))) (\<lambda>_.
          release (ProcLock p))))"
  have sec: "ends ?m (\<lambda>_. placed) (\<lambda>_. True) u" if "placed u" for u :: "'a kproc_scheme"
    using that by (rule ends_section) (auto simp: wp_simps intro!: clear_rel clear_upd_rel)
  have my: "keeps placement myproc" unfolding myproc_def by (intro keeps_intros)
  show "ends (bind myproc (\<lambda>me. only_if (Some p \<noteq> me) ?m)) (\<lambda>_. placed) (\<lambda>_. True) t"
    unfolding ends_simps(2)[of myproc]
  proof (rule keeps_ends[OF my])
    fix me and u :: "'a kproc_scheme"
    assume "placement u = placement t"
    with t have "placed u" using placed_cong by blast
    then show "ends (only_if (Some p \<noteq> me) ?m) (\<lambda>_. placed) (\<lambda>_. True) u"
      using sec[of u] by (simp only: ends_simps(8) split: if_split) simp
  qed simp
qed

lemma update_time_placed: "placed s \<Longrightarrow> ends update_time (\<lambda>_. placed) (\<lambda>_. True) s"
  unfolding update_time_def
proof (rule ends_for_each)
  fix p and t :: "'a kproc_scheme"
  assume "placed t"
  then show "ends (bind (acquire (ProcLock p)) (\<lambda>_. bind (getp p pstate) (\<lambda>st.
       bind (only_if (st = RUNNING) (updp p (\<lambda>q. q\<lparr>run_time := run_time q + 1\<rparr>))) (\<lambda>_.
       release (ProcLock p))))) (\<lambda>_. placed) (\<lambda>_. True) t"
    by (rule ends_section) (auto simp: wp_simps intro!: clear_rel clear_upd_rel)
qed

lemma kill_placed: "placed s \<Longrightarrow> ends (kill pid) (\<lambda>_. placed) (\<lambda>_. True) s"
proof -
  assume s: "placed s"
  have body: "ends (bind (acquire (ProcLock p)) (\<lambda>_.
       bind (getp p ppid) (\<lambda>q.
       if q = pid
       then bind (updp p (\<lambda>q. q\<lparr>pkilled := 1\<rparr>)) (\<lambda>_.
            bind (getp p pstate) (\<lambda>st.
            bind (only_if (st = SLEEPING) (updp p (\<lambda>q. q\<lparr>pstate := RUNNABLE\<rparr>))) (\<lambda>_.
            bind (release (ProcLock p)) (\<lambda>_.
            ret (Some (0 :: int))))))
       else bind (release (ProcLock p)) (\<lambda>_. ret None)))) (\<lambda>_. placed) (\<lambda>_. True) t" if "placed t" for p t
    using that by (rule ends_section) (auto simp: wp_simps intro!: clear_rel clear_upd_rel)
  show ?thesis
    unfolding kill_def ends_simps(2)
    by (rule ends_mono[OF ends_for_until[OF s body]]) (simp_all add: wp_simps)
qed

lemma choose_placed:
  assumes "placed s" "me (mc s) = h" "running_on s h = None"
  shows "ends choose_next_process (\<lambda>_ t. placed t \<and> me (mc t) = h \<and> running_on t h = None) (\<lambda>_. True) s"
proof -
  let ?I = "\<lambda>t :: 'a kproc_scheme. placed t \<and> me (mc t) = h \<and> running_on t h = None"
  have body: "ends (bind (acquire (ProcLock q)) (\<lambda>_.
       bind (gets (\<lambda>s. better_priority (procs s) q chosen)) (\<lambda>chosen.
       bind (release (ProcLock q)) (\<lambda>_. ret chosen)))) (\<lambda>_. ?I) (\<lambda>_. True) t" if "?I t" for q chosen t
    using that by (intro ends_section) (auto simp: wp_simps running_on_rel intro!: clear_rel)
  show ?thesis
    unfolding choose_next_process_def ends_simps
    by (auto intro!: ends_for_until ends_for_fold body simp: assms) (auto simp: wp_simps assms)
qed

lemma ends_intr_on [wp_simps]:
  "ends intr_on Q R s = Q () (s\<lparr>mc := (mc s)\<lparr>sstatus := sstatus (mc s) OR SSTATUS_SIE\<rparr>\<rparr>)"
  by (simp add: intr_on_def ends_machine)

lemma dispatch_placed:
  assumes "placed s" "h < NCPU" "me (mc s) = h" "running_on s h = None"
  shows "ends scheduler_dispatch (\<lambda>_. placed) (\<lambda>_. True) s"
proof -
  let ?I = "\<lambda>t :: 'a kproc_scheme. placed t \<and> me (mc t) = h \<and> running_on t h = None"
  have on: "?I (t\<lparr>mc := (mc t)\<lparr>sstatus := x\<rparr>\<rparr>)" if "?I t" for t x
    using that by (auto simp: placed_def running_on_def held_by_def me_def)
  have print: "ends (bind (printf sched_msg args) (\<lambda>_. ret (Some p))) (\<lambda>_. placed) (\<lambda>_. True) t"
    if "placed t" for args p t
    unfolding ends_simps
    by (rule keeps_ends[OF printf_placement]) (use that placed_cong in \<open>auto simp: wp_simps\<close>)
  have run: "placed (t\<lparr>procs := (procs t)(p := (procs t p)\<lparr>pstate := RUNNING\<rparr>),
      mc := (mc t)\<lparr>cpus := (cpus (mc t))(h := (cpus (mc t) h)\<lparr>cproc := Some p\<rparr>)\<rparr>\<rparr>)"
    if "clear p t" "pstate (procs t p) = RUNNABLE" for p t
    using that by (auto simp: clear_def placed_def running_on_def held_by_def)
  let ?sec = "\<lambda>p. bind (acquire (ProcLock p)) (\<lambda>_. bind (getp p pstate) (\<lambda>st.
       if st = RUNNABLE
       then bind (updp p (\<lambda>q. q\<lparr>pstate := RUNNING\<rparr>)) (\<lambda>_.
            bind (upd_cpu h (\<lambda>k. k\<lparr>cproc := Some p\<rparr>)) (\<lambda>_.
            bind cpuid (\<lambda>id.
            bind (getp p (\<lambda>q. (ppid q, creation_time q))) (\<lambda>(pid, ct).
            bind (printf sched_msg [VInt (of_int id), VInt (of_int pid), VInt ct]) (\<lambda>_.
            ret (Some p))))))
       else bind (release (ProcLock p)) (\<lambda>_. bind intr_on (\<lambda>_. ret None))))"
  have sec: "ends (?sec p) (\<lambda>_. placed) (\<lambda>_. True) t" if "?I t" for p t
  proof (rule ends_section)
    show "placed t" using that by simp
    fix u :: "'a kproc_scheme"
    assume u: "clear p u" "me (mc u) = me (mc t)" "running_on u = running_on t"
    have "ends (bind (printf sched_msg args) (\<lambda>_. ret (Some p)))
      (\<lambda>_. placed) (\<lambda>_. True) (u\<lparr>procs := (procs u)(p := (procs u p)\<lparr>pstate := RUNNING\<rparr>),
      mc := (mc u)\<lparr>cpus := (cpus (mc u))(h := (cpus (mc u) h)\<lparr>cproc := Some p\<rparr>)\<rparr>\<rparr>)"
      if "pstate (procs u p) = RUNNABLE" for args
      by (intro print run u that)
    moreover have "placed (u\<lparr>mc := (rel (ProcLock p) (mc u))\<lparr>sstatus := x\<rparr>\<rparr>)" for x
      using clear_rel[OF u(1)] by (auto simp: placed_def running_on_def held_by_def)
    ultimately show "ends (bind (getp p pstate) (\<lambda>st.
       if st = RUNNABLE
       then bind (updp p (\<lambda>q. q\<lparr>pstate := RUNNING\<rparr>)) (\<lambda>_.
            bind (upd_cpu h (\<lambda>k. k\<lparr>cproc := Some p\<rparr>)) (\<lambda>_.
            bind cpuid (\<lambda>id.
            bind (getp p (\<lambda>q. (ppid q, creation_time q))) (\<lambda>(pid, ct).
            bind (printf sched_msg [VInt (of_int id), VInt (of_int pid), VInt ct]) (\<lambda>_.
            ret (Some p))))))
       else bind (release (ProcLock p)) (\<lambda>_. bind intr_on (\<lambda>_. ret None)))) (\<lambda>_. placed) (\<lambda>_. True) u"
      by (simp add: ends_getp ends_simps(2) upd_cpu_def cpuid_def r_tp_def ends_machine ends_simps(1)
          intr_on_def)
  qed
  have start: "?I (s\<lparr>mc := (mc s)\<lparr>sstatus := x\<rparr>\<rparr>)" for x using on[of s x] assms by simp
  show ?thesis
    unfolding scheduler_dispatch_def ends_simps(2)[of mycpu] ends_simps(2)[of intr_on] ends_machine ends_intr_on
      ends_simps(2)[of choose_next_process] assms(3)
  proof (rule ends_mono[OF choose_placed[of _ h]])
    fix r and t :: "'a kproc_scheme"
    assume t: "?I t"
    show "ends (case r of None \<Rightarrow> bind intr_on (\<lambda>_. ret None) | Some p \<Rightarrow> ?sec p) (\<lambda>_. placed) (\<lambda>_. True) t"
    proof (cases r)
      case None
      with on[OF t] show ?thesis by (simp add: ends_simps(1,2) ends_intr_on)
    next
      case (Some p)
      with sec[OF t, of p] show ?thesis by simp
    qed
  qed (use start in simp_all)
qed

lemma ends_curproc:
  assumes "\<And>t p. placement t = placement s \<Longrightarrow> running_on s (me (mc s)) = Some p \<Longrightarrow> Q p t"
  shows "ends curproc Q R s"
  unfolding curproc_def myproc_def
  using assms by (auto simp: wp_simps running_on_def mycpu_of_def placement_def fun_eq_iff split: option.split)

lemma ends_intr_get [wp_simps]: "ends intr_get Q R s = Q (of_bool (intr (mc s))) s"
  by (simp add: ends_def intr_get_run)

lemma ends_sched:
  assumes "\<And>t. placement t = placement s \<Longrightarrow> R t"
  shows "ends sched Q R s"
  unfolding sched_def ends_simps(2)[of curproc]
  by (rule ends_curproc) (simp add: wp_simps assms)

lemma put_down:
  assumes "placed s" "running_on s (me (mc s)) = Some p" "pstate (procs s p) = RUNNING"
    "\<And>h. cproc (cpus m h) = cproc (cpus (mc s) h)"
    "\<And>q. q \<noteq> p \<Longrightarrow> locks m (ProcLock q) = locks (mc s) (ProcLock q)" "held (ProcLock p) m" "me m = me (mc s)"
  shows "placed (s\<lparr>mc := m, procs := (procs s)(p := q')\<rparr>)"
  using assms by (auto simp: placed_def running_on_def held_by_def held_def)

lemma yield_placed:
  assumes "placed s" "running_on s (me (mc s)) = Some p" "pstate (procs s p) = RUNNING"
  shows "ends yield (\<lambda>_ _. True) placed s"
  unfolding yield_def ends_simps(2)[of curproc]
proof (rule ends_curproc)
  fix t q
  assume t: "placement t = placement s" and "running_on s (me (mc s)) = Some q"
  then have [simp]: "q = p" using assms by simp
  have pl: "placed (t\<lparr>mc := acq (ProcLock p) (mc t), procs := (procs t)(p := (procs t p)\<lparr>pstate := RUNNABLE\<rparr>)\<rparr>)"
    by (rule put_down) (use t assms placed_cong[OF t] in \<open>auto simp: placement_def\<close>)
  show "ends (bind (acquire (ProcLock q)) (\<lambda>_. bind (updp q (\<lambda>q. q\<lparr>pstate := RUNNABLE\<rparr>)) (\<lambda>_.
      bind sched (\<lambda>_. release (ProcLock q))))) (\<lambda>_ _. True) placed t"
    unfolding ends_simps(2) ends_machine ends_getp
    by (auto intro!: ends_sched simp: placed_cong pl)
qed

lemma sleep_placed:
  assumes "placed s" "running_on s (me (mc s)) = Some p" "pstate (procs s p) = RUNNING" "\<forall>q. lk \<noteq> ProcLock q"
  shows "ends (sleep ch lk) (\<lambda>_ _. True) placed s"
  unfolding sleep_def ends_simps(2)[of curproc]
proof (rule ends_curproc)
  fix t q
  assume t: "placement t = placement s" and "running_on s (me (mc s)) = Some q"
  then have [simp]: "q = p" using assms by simp
  have "held (ProcLock p) (rel lk (acq (ProcLock p) (mc t)))"
    using assms(4) by (auto simp: held_def locks_rel locks_acq)
  then have pl: "placed (t\<lparr>mc := rel lk (acq (ProcLock p) (mc t)),
      procs := (procs t)(p := (procs t p)\<lparr>pchan := Some ch, pstate := SLEEPING\<rparr>)\<rparr>)"
    by (intro put_down)
      (use t assms placed_cong[OF t] in \<open>auto simp: placement_def locks_rel locks_acq\<close>)
  show "ends (bind (acquire (ProcLock q)) (\<lambda>_. bind (release lk) (\<lambda>_.
      bind (updp q (\<lambda>q. q\<lparr>pchan := Some ch, pstate := SLEEPING\<rparr>)) (\<lambda>_.
      bind sched (\<lambda>_. sleep_end q lk))))) (\<lambda>_ _. True) placed t"
    unfolding ends_simps(2) ends_machine ends_getp
    by (auto intro!: ends_sched simp: placed_cong pl)
qed

lemma return_placed:
  assumes "placed s" "running_on s (me (mc s)) = Some p" "pstate (procs s p) \<noteq> RUNNING"
  shows "ends (scheduler_return p) (\<lambda>_. placed) (\<lambda>_. True) s"
proof -
  let ?t = "s\<lparr>mc := (mc s)\<lparr>cpus := (cpus (mc s))(me (mc s) := (cpus (mc s) (me (mc s)))\<lparr>cproc := None\<rparr>)\<rparr>\<rparr>"
  have "clear p ?t"
    using assms by (auto simp: clear_def placed_def running_on_def held_by_def)
  from clear_rel[OF this] show ?thesis
    by (simp add: scheduler_return_def upd_cpu_def wp_simps)
qed

lemma kstep_placed: "kstep s t \<Longrightarrow> placed s \<Longrightarrow> placed t"
proof (induction rule: kstep.induct)
  case (dispatch h s ss r t)
  have "ends scheduler_dispatch (\<lambda>_. placed) (\<lambda>_. True) (on_cpu h ss s)"
    by (rule dispatch_placed[of _ h]) (use dispatch in simp_all)
  from ends_RetD[OF this dispatch(3)] show ?case .
next
  case (resume h s p ss t)
  then have "clear p (on_cpu h ss s)" by (simp add: clear_def)
  from clear_rel[OF this] resume(4) show ?case by (simp add: release_run split: if_splits)
next
  case (yields h s p ss t)
  have "ends yield (\<lambda>_ _. True) placed (on_cpu h ss s)"
    by (rule yield_placed[of _ p]) (use yields in simp_all)
  from ends_SwitchD[OF this yields(4)] show ?case .
next
  case (sleeps h s p lk ch ss t)
  have "ends (sleep ch lk) (\<lambda>_ _. True) placed (on_cpu h ss s)"
    by (rule sleep_placed[of _ p]) (use sleeps in simp_all)
  from ends_SwitchD[OF this sleeps(5)] show ?case .
next
  case (returns h s p ss t)
  have "ends (scheduler_return p) (\<lambda>_. placed) (\<lambda>_. True) (on_cpu h ss s)"
    by (rule return_placed) (use returns in simp_all)
  from ends_RetD[OF this returns(4)] show ?case .
next
  case (wakes h ch ss s t)
  have "ends (wakeup ch) (\<lambda>_. placed) (\<lambda>_. True) (on_cpu h ss s)"
    by (rule wakeup_placed) (use wakes in simp_all)
  from ends_RetD[OF this wakes(2)] show ?case .
next
  case (kills h pid ss s v t)
  have "ends (kill pid) (\<lambda>_. placed) (\<lambda>_. True) (on_cpu h ss s)"
    by (rule kill_placed) (use kills in simp_all)
  from ends_RetD[OF this kills(2)] show ?case .
next
  case (ticks_on h ss s t)
  have "ends update_time (\<lambda>_. placed) (\<lambda>_. True) (on_cpu h ss s)"
    by (rule update_time_placed) (use ticks_on in simp_all)
  from ends_RetD[OF this ticks_on(2)] show ?case .
qed

lemma kreach_placed: "kreach s t \<Longrightarrow> placed s \<Longrightarrow> placed t"
  by (induction rule: kreach.induct) (auto intro: kstep_placed)

section \<open>Properties\<close>

definition ex_proc :: proc where
  "ex_proc = \<lparr>pstate = UNUSED, pchan = None, pkilled = 0, pxstate = 0, ppid = 0, pparent = None, pkstack = 0,
     psz = 0, ppagetable = 0, ptrapframe = 0, pcontext = zero_context, pofile = (\<lambda>_. None), pcwd = None,
     pname = (\<lambda>_. 0), creation_time = 0, run_time = 0, waiting_time = 0, turnaround_time = 0, finish_time = 0\<rparr>"

text \<open>Process 0 runs, 1 sleeps on the tick counter, 2 and 3 are runnable, the rest is unused.\<close>

definition ex_kproc :: kproc where
  "ex_kproc = kio.extend ex_kio \<lparr>procs = (\<lambda>p.
        if p = 0 then ex_proc\<lparr>pstate := RUNNING, ppid := 1\<rparr>
        else if p = 1 then ex_proc\<lparr>pstate := SLEEPING, pchan := Some ChTicks, ppid := 2\<rparr>
        else if p = 2 then ex_proc\<lparr>pstate := RUNNABLE, ppid := 3, creation_time := 7\<rparr>
        else if p = 3 then ex_proc\<lparr>pstate := RUNNABLE, ppid := 4, creation_time := 5\<rparr>
        else ex_proc),
      initproc = Some 0, nextpid = 5, ticks = 9, sched_mode = SCHED_FCFS, forkret_addr = 0\<rparr>"

lemma ex_kproc_simps [simp]:
  "mc ex_kproc = quiet" "sched_mode ex_kproc = SCHED_FCFS" "procs_free ex_kproc" "cur ex_kproc = None"
  by (simp_all add: ex_kproc_def ex_kio_def kio.defs procs_free_def cur_def mycpu_of_def)
    (simp add: quiet_def)

lemma sleep_run:
  assumes "cur s = Some p" "held lk (mc s)" "\<forall>q. lk \<noteq> ProcLock q" "lkfree (ProcLock p) (mc s)"
    "noff (mycpu_of (mc s)) = 1" "\<not> intr (mc s)"
  shows "sleep ch lk s = Switch (s\<lparr>mc := rel lk (acq (ProcLock p) (mc s)),
     procs := (procs s)(p := (procs s p)\<lparr>pchan := Some ch, pstate := SLEEPING\<rparr>)\<rparr>)"
proof -
  have ok: "cpu_ok (mc s)" and set: "settled (mc s) = mc s"
    using assms by (simp_all add: cpu_ok_def settled_id)
  then have my: "myproc s = Ret (Some p) s" using assms myproc_run[of s] by simp
  let ?m = "rel lk (acq (ProcLock p) (mc s))"
  have lk: "held lk (acq (ProcLock p) (mc s))" using assms by (auto simp: held_def locks_acq)
  have n: "noff (mycpu_of ?m) = 1" "cproc (mycpu_of ?m) = Some p" "\<not> intr ?m" "held (ProcLock p) ?m"
    using assms by (auto simp: rel_def popped_def mycpu_of_def acq_def pushed_def me_def intr_def held_def cur_def
        sie_cleared)
  let ?t = "s\<lparr>mc := ?m, procs := (procs s)(p := (procs s p)\<lparr>pchan := Some ch, pstate := SLEEPING\<rparr>)\<rparr>"
  have "cpu_ok ?m" "settled ?m = ?m" using n by (simp_all add: cpu_ok_def settled_id)
  then have "curproc ?t = Ret p ?t"
    using myproc_run[of ?t] n by (simp add: curproc_def cur_def run_simps)
  then have "sched ?t = Switch ?t"
    using n by (simp add: sched_def holding_run getm_run mycpu_of_def getp_run intr_get_run run_simps)
  moreover have "release lk (s\<lparr>mc := acq (ProcLock p) (mc s)\<rparr>) = Ret () (s\<lparr>mc := ?m\<rparr>)"
    using lk assms by (simp add: release_run)
  ultimately show ?thesis
    using my assms by (simp add: sleep_def curproc_def run_simps acquire_free updp_run)
qed

text \<open>
  C15: \<open>choose_next_process\<close> returns null exactly when nothing is runnable, and otherwise
  a runnable process: in mode \<open>SCHED_ROUND_ROBIN\<close> the one in the lowest slot, in mode
  \<open>SCHED_FCFS\<close> one with the least creation time, in mode \<open>SCHED_PRIORITY\<close> one with
  the greatest, ties going to the lower slot. It changes no process.
\<close>

theorem choose_next_process_choice:
  assumes "procs_free s"
    and "sched_mode s \<in> {SCHED_ROUND_ROBIN, SCHED_FCFS, SCHED_PRIORITY}"
  shows "\<exists>r m. choose_next_process s = Ret r (s\<lparr>mc := m\<rparr>) \<and>
    (r = None \<longleftrightarrow> (\<forall>q < NPROC. pstate (procs s q) \<noteq> RUNNABLE)) \<and>
    (\<forall>c. r = Some c \<longrightarrow> c < NPROC \<and> pstate (procs s c) = RUNNABLE \<and>
       (\<forall>q < NPROC. pstate (procs s q) = RUNNABLE \<longrightarrow>
          (sched_mode s = SCHED_ROUND_ROBIN \<longrightarrow> c \<le> q) \<and>
          (sched_mode s = SCHED_FCFS \<longrightarrow> creation_time (procs s c) < creation_time (procs s q) \<or>
             creation_time (procs s c) = creation_time (procs s q) \<and> c \<le> q) \<and>
          (sched_mode s = SCHED_PRIORITY \<longrightarrow> creation_time (procs s q) < creation_time (procs s c) \<or>
             creation_time (procs s q) = creation_time (procs s c) \<and> c \<le> q)))"
proof -
  let ?R = "\<lambda>r. (r = None \<longleftrightarrow> (\<forall>q < NPROC. \<not> runnable (procs s) q)) \<and>
    (\<forall>c. r = Some c \<longrightarrow> c < NPROC \<and> runnable (procs s) c \<and>
       (\<forall>q < NPROC. runnable (procs s) q \<longrightarrow>
          (sched_mode s = SCHED_ROUND_ROBIN \<longrightarrow> c \<le> q) \<and>
          (sched_mode s = SCHED_FCFS \<longrightarrow> creation_time (procs s c) < creation_time (procs s q) \<or>
             creation_time (procs s c) = creation_time (procs s q) \<and> c \<le> q) \<and>
          (sched_mode s = SCHED_PRIORITY \<longrightarrow> creation_time (procs s q) < creation_time (procs s c) \<or>
             creation_time (procs s q) = creation_time (procs s c) \<and> c \<le> q)))"
  have "\<exists>r m. choose_next_process s = Ret r (s\<lparr>mc := m\<rparr>) \<and> ?R r"
  proof -
    consider (rr) "sched_mode s = SCHED_ROUND_ROBIN" | (fcfs) "sched_mode s = SCHED_FCFS"
      | (prio) "sched_mode s = SCHED_PRIORITY" using assms(2) by auto
    then show ?thesis
    proof cases
      case rr
      have "?R (find (runnable (procs s)) [0..<NPROC])"
        using rr sched_modes
        by (auto simp: find_upt_None_iff find_upt_Some_iff not_less[symmetric])
      with choose_rr[OF rr] show ?thesis by (intro exI[of _ "find (runnable (procs s)) [0..<NPROC]"] exI[of _ "mc s"]) simp
    next
      case fcfs
      let ?r = "fold (better_fcfs (procs s)) [0..<NPROC] None"
      have "picked (<) (runnable (procs s)) (\<lambda>q. creation_time (procs s q)) NPROC ?r"
        unfolding better_fcfs_pick by (rule oldest.picked_search)
      then have "?R ?r" using fcfs sched_modes
        by (cases ?r) (auto simp: picked_def not_less)
      with choose_fcfs[OF fcfs] show ?thesis by (intro exI[of _ ?r] exI[of _ "mc s"]) simp
    next
      case prio
      let ?r = "fold (better_priority (procs s)) [0..<NPROC] None"
      have "picked (>) (runnable (procs s)) (\<lambda>q. creation_time (procs s q)) NPROC ?r"
        unfolding better_priority_pick by (rule newest.picked_search)
      then have "?R ?r" using prio sched_modes
        by (cases ?r) (auto simp: picked_def not_less)
      with choose_priority[OF prio assms(1)] show ?thesis by (intro exI[of _ ?r] exI[of _ "settled (mc s)"]) simp
    qed
  qed
  then show ?thesis by (simp add: runnable_def)
qed

theorem choose_next_process_choice_witness:
  "\<exists>r m. choose_next_process ex_kproc = Ret r (ex_kproc\<lparr>mc := m\<rparr>) \<and> r \<noteq> None \<and>
     (\<forall>c. r = Some c \<longrightarrow> creation_time (procs ex_kproc c) \<le> 5)"
proof -
  have r: "pstate (procs ex_kproc 3) = RUNNABLE" "creation_time (procs ex_kproc 3) = 5" "(3::nat) < NPROC"
    by (simp_all add: ex_kproc_def kio.defs NPROC_def)
  obtain r m where c: "choose_next_process ex_kproc = Ret r (ex_kproc\<lparr>mc := m\<rparr>)"
    "r = None \<longleftrightarrow> (\<forall>q < NPROC. pstate (procs ex_kproc q) \<noteq> RUNNABLE)"
    "\<forall>c. r = Some c \<longrightarrow> (\<forall>q < NPROC. pstate (procs ex_kproc q) = RUNNABLE \<longrightarrow>
       creation_time (procs ex_kproc c) < creation_time (procs ex_kproc q) \<or>
       creation_time (procs ex_kproc c) = creation_time (procs ex_kproc q) \<and> c \<le> q)"
    using choose_next_process_choice[of ex_kproc] by auto
  have "r \<noteq> None" using c(2) r by blast
  moreover have "creation_time (procs ex_kproc c) \<le> 5" if "r = Some c" for c
    using c(3)[rule_format, OF that r(3,1)] r(2) by auto
  ultimately show ?thesis using c(1) by blast
qed




definition ex_running :: kproc where
  "ex_running = ex_kproc\<lparr>mc := quiet\<lparr>cpus := (cpus quiet)(0 := (cpus quiet 0)\<lparr>cproc := Some 0\<rparr>)\<rparr>\<rparr>"

lemma ex_running_simps [simp]:
  "procs ex_running = procs ex_kproc" "running_on ex_running h = (if h = 0 then Some 0 else None)"
  "placed ex_running" "procs_free ex_running" "cur ex_running = Some 0" "me (mc ex_running) = 0"
  "noff (mycpu_of (mc ex_running)) = 0"
  by (auto simp: ex_running_def ex_kproc_def ex_kio_def kio.defs procs_free_def cur_def mycpu_of_def
      running_on_def placed_def held_by_def me_def lkfree_def cpu_ok_def quiet_def intr_def)



lemma ex_running_step:
  "kreach ex_running ((on_cpu 2 0 ex_running)\<lparr>mc := settled (mc (on_cpu 2 0 ex_running)),
     procs := (\<lambda>p. if p < NPROC \<and> Some p \<noteq> cur (on_cpu 2 0 ex_running) then awakened ChTicks (procs ex_kproc p)
        else procs ex_kproc p)\<rparr>)"
proof -
  have "procs_free (on_cpu 2 0 ex_running)"
    by (auto simp: on_cpu_def ex_running_def procs_free_def cpu_ok_def mycpu_of_def me_def lkfree_def quiet_def intr_def)
  then show ?thesis
    using kstep.wakes[of 2 ChTicks 0 ex_running] wakeup_run[of "on_cpu 2 0 ex_running" ChTicks]
    unfolding on_cpu_simps(3) ex_running_simps(1)
    by (intro kreach.step[OF kreach.start]) (simp add: NCPU_def)
qed


text \<open>
  C17: \<open>kill(pid)\<close> marks the first slot with that pid as killed, makes it runnable if it
  sleeps, changes nothing else and returns 0; it returns -1 and changes nothing if no slot
  has the pid.
\<close>

theorem kill_first_match:
  assumes "procs_free s"
  shows "\<exists>v t. kill pid s = Ret v t \<and> mc t = settled (mc s) \<and>
    (v = 0 \<or> v = -1) \<and> (v = -1 \<longleftrightarrow> (\<forall>p < NPROC. ppid (procs s p) \<noteq> pid)) \<and>
    (\<forall>p. procs t p = (if p < NPROC \<and> ppid (procs s p) = pid \<and> (\<forall>q < p. ppid (procs s q) \<noteq> pid)
       then killed_proc (procs s p) else procs s p))"
proof (cases "find (\<lambda>p. ppid (procs s p) = pid) [0..<NPROC]")
  case None
  with kill_run[OF assms, of pid] show ?thesis
    by (intro exI[of _ "- 1"] exI[of _ "s\<lparr>mc := settled (mc s)\<rparr>"]) (auto simp: find_upt_None_iff)
next
  case (Some p)
  then have "p < NPROC" "ppid (procs s p) = pid" "\<forall>q < p. ppid (procs s q) \<noteq> pid"
    by (simp_all add: find_upt_Some_iff)
  then have "(q < NPROC \<and> ppid (procs s q) = pid \<and> (\<forall>r < q. ppid (procs s r) \<noteq> pid)) \<longleftrightarrow> q = p" for q
    using linorder_cases[of q p] by blast
  with kill_run[OF assms, of pid] Some \<open>p < NPROC\<close> \<open>ppid (procs s p) = pid\<close> show ?thesis
    by (intro exI[of _ 0] exI[of _ "s\<lparr>mc := settled (mc s), procs := (procs s)(p := killed_proc (procs s p))\<rparr>"]) auto
qed

theorem kill_first_match_witness:
  "\<exists>t. kill 2 ex_kproc = Ret 0 t \<and> pkilled (procs t 1) = 1 \<and> pstate (procs t 1) = RUNNABLE"
proof -
  have p: "ppid (procs ex_kproc 1) = 2" "ppid (procs ex_kproc 0) = 1" "pstate (procs ex_kproc 1) = SLEEPING" "1 < NPROC"
    by (simp_all add: ex_kproc_def kio.defs NPROC_def)
  from kill_first_match[OF ex_kproc_simps(3), of 2] obtain v t where
    k: "kill 2 ex_kproc = Ret v t" "v = 0 \<or> v = -1" "v = -1 \<longleftrightarrow> (\<forall>p < NPROC. ppid (procs ex_kproc p) \<noteq> 2)"
    and t: "\<forall>p. procs t p = (if p < NPROC \<and> ppid (procs ex_kproc p) = 2 \<and> (\<forall>q < p. ppid (procs ex_kproc q) \<noteq> 2)
       then killed_proc (procs ex_kproc p) else procs ex_kproc p)"
    by blast
  have "procs t 1 = killed_proc (procs ex_kproc 1)" using t[rule_format, of 1] p by simp
  moreover note k
  moreover have "v \<noteq> -1" using k(3) p by blast
  ultimately show ?thesis using p by (auto simp: killed_proc_def)
qed

interpretation procs_frame: mem_frame procs
  by unfold_locales simp_all

lemma keeps_proc_pagetable: "keeps procs (proc_pagetable p)"
  unfolding proc_pagetable_def getp_def by (intro keeps_intros procs_frame.keeps_vm)

lemma keeps_allocpid: "keeps procs allocpid"
  unfolding allocpid_def by (intro keeps_intros procs_frame.keeps_acquire procs_frame.keeps_release) simp

lemma allocproc_found_killed:
  assumes "pkilled (procs s p) = 1"
  shows "ends (allocproc_found p) (\<lambda>r t. r = None \<or> r = Some p \<and> pkilled (procs t p) = 1) (\<lambda>_. True) s"
proof -
  let ?K = "\<lambda>t. pkilled (procs t p) = 1"
  have none: "ends (bind (freeproc p) (\<lambda>_. bind (release (ProcLock p)) (\<lambda>_. ret None)))
      (\<lambda>r t. r = None \<or> r = Some p \<and> ?K t) (\<lambda>_. True) t" for t
    by (simp add: ends_def bind_def run_simps split: outcome.split)
  have via: "ends (bind m g) Q (\<lambda>_. True) t"
    if "keeps procs m" "?K t" "\<And>a u. ?K u \<Longrightarrow> ends (g a) Q (\<lambda>_. True) u" for m g Q t
    unfolding ends_simps by (rule keeps_ends[OF that(1)]) (use that in auto)
  have upd: "ends (bind (updp p f) g) Q (\<lambda>_. True) t"
    if "\<And>q. pkilled (f q) = pkilled q" "?K t" "\<And>a u. ?K u \<Longrightarrow> ends (g a) Q (\<lambda>_. True) u" for f g Q t
    unfolding ends_simps ends_getp using that by simp
  have cond: "ends (if b then m else n) Q (\<lambda>_. True) t"
    if "ends m Q (\<lambda>_. True) t" "ends n Q (\<lambda>_. True) t" for b m n Q t
    using that by simp
  have fin: "ends (ret (Some p)) (\<lambda>r t. r = None \<or> r = Some p \<and> ?K t) (\<lambda>_. True) t" if "?K t" for t
    using that by (simp add: ends_simps)
  have pair: "ends (bind (gets h) (\<lambda>(a, b). g a b)) Q (\<lambda>_. True) t"
    if "?K t" "\<And>a b. ends (g a b) Q (\<lambda>_. True) t" for h g Q t
    using that by (simp add: ends_simps split: prod.split)
  show ?thesis
    unfolding allocproc_found_def
    by (rule via[OF keeps_allocpid assms], rule upd, simp, assumption,
        rule via[OF procs_frame.keeps_kalloc], assumption, rule upd, simp, assumption,
        rule cond, rule none, rule via[OF keeps_proc_pagetable], assumption, rule upd, simp, assumption,
        rule cond, rule none, rule pair, assumption, rule upd, simp, assumption, rule fin, assumption)
qed

lemma allocproc_first:
  assumes "procs_free s" "p < NPROC" "pstate (procs s p) = UNUSED" "\<forall>q < p. pstate (procs s q) \<noteq> UNUSED"
  shows "allocproc s = allocproc_found p (s\<lparr>mc := acq (ProcLock p) (mc s)\<rparr>)"
proof -
  let ?B = "\<lambda>t p. pstate (procs t p) = UNUSED"
  let ?body = "\<lambda>p. bind (acquire (ProcLock p)) (\<lambda>_. bind (getp p pstate) (\<lambda>st.
       if st = UNUSED then ret (Some p) else bind (release (ProcLock p)) (\<lambda>_. ret None)))"
  have f: "find (?B s) [0..<NPROC] = Some p"
    using assms by (simp add: find_upt_Some_iff)
  have "for_until [0..<NPROC] ?body s = (case find (?B s) [0..<NPROC] of
      None \<Rightarrow> Ret None (if [0..<NPROC] = [] then s else s\<lparr>mc := settled (mc s)\<rparr>)
    | Some p \<Rightarrow> Ret (Some p) (s\<lparr>mc := acq (ProcLock p) (mc s)\<rparr>))"
    by (rule for_until_first[where P = procs_free and G = procs and B = ?B and g = "\<lambda>t. t\<lparr>mc := settled (mc t)\<rparr>" and
        r = "\<lambda>p. p" and h = "\<lambda>p t. t\<lparr>mc := acq (ProcLock p) (mc t)\<rparr>"])
      (use assms in \<open>auto simp: procs_free_def acquire_free getp_run release_section run_simps\<close>)
  then show ?thesis by (simp add: f allocproc_def)
qed

text \<open>
  C18: \<open>kill(0)\<close> succeeds as long as the table has a free slot: free slots have pid 0, so
  the first one is marked as killed. The mark survives the slot's next allocation, and the
  new process starts out killed.
\<close>

theorem kill_zero_poisons_free_slot:
  assumes "procs_free s" "p < NPROC" "pstate (procs s p) = UNUSED" "ppid (procs s p) = 0"
    and "\<forall>q < p. ppid (procs s q) \<noteq> 0 \<and> pstate (procs s q) \<noteq> UNUSED"
  shows "\<exists>t. kill 0 s = Ret 0 t \<and> pkilled (procs t p) = 1 \<and>
    (\<forall>r u. allocproc t = Ret (Some r) u \<longrightarrow> r = p \<and> pkilled (procs u p) = 1)"
proof -
  let ?t = "s\<lparr>mc := settled (mc s), procs := (procs s)(p := (procs s p)\<lparr>pkilled := 1\<rparr>)\<rparr>"
  have "find (\<lambda>p. ppid (procs s p) = 0) [0..<NPROC] = Some p"
    using assms by (simp add: find_upt_Some_iff)
  then have k: "kill 0 s = Ret 0 ?t"
    using kill_run[OF assms(1), of 0] assms(3) by (simp add: killed_proc_def)
  have "procs_free ?t" using assms(1) by (simp add: procs_free_def)
  then have a: "allocproc ?t = allocproc_found p (?t\<lparr>mc := acq (ProcLock p) (mc ?t)\<rparr>)"
    using assms by (intro allocproc_first) simp_all
  have "r = p \<and> pkilled (procs u p) = 1" if "allocproc ?t = Ret (Some r) u" for r u
    using ends_RetD[OF allocproc_found_killed[of "?t\<lparr>mc := acq (ProcLock p) (mc ?t)\<rparr>" p]] that a by simp
  with k show ?thesis by (intro exI[of _ ?t]) simp
qed

theorem kill_zero_poisons_free_slot_witness:
  "\<exists>t. kill 0 ex_kproc = Ret 0 t \<and> pkilled (procs t 4) = 1 \<and>
    (\<forall>r u. allocproc t = Ret (Some r) u \<longrightarrow> r = 4 \<and> pkilled (procs u 4) = 1)"
proof -
  have "q \<in> {0, 1, 2, 3}" if "q < 4" for q :: nat using that by auto
  then have "\<forall>q < 4. ppid (procs ex_kproc q) \<noteq> 0 \<and> pstate (procs ex_kproc q) \<noteq> UNUSED"
    by (fastforce simp: ex_kproc_def kio.defs)
  moreover have "pstate (procs ex_kproc 4) = UNUSED" "ppid (procs ex_kproc 4) = 0" "(4::nat) < NPROC"
    by (simp_all add: NPROC_def ex_kproc_def kio.defs ex_proc_def)
  ultimately show ?thesis
    by (intro kill_zero_poisons_free_slot) simp_all
qed

end
