(* ===== verification/Sleeplock.thy ===== *)
theory Sleeplock
  imports Proc
begin

text \<open>
  Sleep locks (\<open>kernel/sleeplock.h\<close>, \<open>kernel/sleeplock.c\<close>): a flag and the owner's pid,
  protected by a spin lock; a thread that finds the flag set sleeps on the lock.
  Results: exactly the process that acquired a lock holds it, and releasing it lets the
  sleepers run.
\<close>

record sleeplock =
  sl_locked :: u32
  sl_name :: string
  sl_pid :: int

record kslp = kproc +
  slocks :: "slock \<Rightarrow> sleeplock"

definition updsl :: "slock \<Rightarrow> (sleeplock \<Rightarrow> sleeplock) \<Rightarrow> ('z kslp_scheme, unit) prog" where
  "updsl lk f = modify (\<lambda>s. s\<lparr>slocks := (slocks s)(lk := f (slocks s lk))\<rparr>)"

definition initsleeplock :: "slock \<Rightarrow> string \<Rightarrow> ('z kslp_scheme, unit) prog" where
  "initsleeplock lk name =
     bind (initlock (SleepLk lk) ''sleep lock'') (\<lambda>_.
     updsl lk (\<lambda>_. \<lparr>sl_locked = 0, sl_name = name, sl_pid = 0\<rparr>))"

definition acquiresleep :: "slock \<Rightarrow> ('z kslp_scheme, unit) prog" where
  "acquiresleep lk =
     bind (acquire (SleepLk lk)) (\<lambda>_.
     bind (gets (\<lambda>s. sl_locked (slocks s lk))) (\<lambda>l.
     bind (only_if (l \<noteq> 0) (sleep (ChSleepLock lk) (SleepLk lk))) (\<lambda>_.
     bind (updsl lk (\<lambda>k. k\<lparr>sl_locked := 1\<rparr>)) (\<lambda>_.
     bind curproc (\<lambda>p.
     bind (getp p ppid) (\<lambda>pid.
     bind (updsl lk (\<lambda>k. k\<lparr>sl_pid := pid\<rparr>)) (\<lambda>_.
     release (SleepLk lk))))))))"

definition releasesleep :: "slock \<Rightarrow> ('z kslp_scheme, unit) prog" where
  "releasesleep lk =
     bind (acquire (SleepLk lk)) (\<lambda>_.
     bind (updsl lk (\<lambda>k. k\<lparr>sl_locked := 0\<rparr>)) (\<lambda>_.
     bind (updsl lk (\<lambda>k. k\<lparr>sl_pid := 0\<rparr>)) (\<lambda>_.
     bind (wakeup (ChSleepLock lk)) (\<lambda>_.
     release (SleepLk lk)))))"

definition holdingsleep :: "slock \<Rightarrow> ('z kslp_scheme, bool) prog" where
  "holdingsleep lk =
     bind (acquire (SleepLk lk)) (\<lambda>_.
     bind (gets (\<lambda>s. sl_locked (slocks s lk))) (\<lambda>l.
     bind (if l = 0 then ret False
           else bind curproc (\<lambda>p.
           bind (getp p ppid) (\<lambda>pid.
           gets (\<lambda>s. sl_pid (slocks s lk) = pid)))) (\<lambda>r.
     bind (release (SleepLk lk)) (\<lambda>_.
     ret r))))"

section \<open>Closed forms\<close>

text \<open>
  \<open>calm s p\<close>: process \<open>p\<close> runs on this CPU and no spin lock is held by anybody. The
  operations below all start and end in such a state.
\<close>

definition calm :: "'z kproc_scheme \<Rightarrow> nat \<Rightarrow> bool" where
  "calm s p \<longleftrightarrow> cpu_ok (mc s) \<and> (\<forall>lk. lkfree lk (mc s)) \<and> cur s = Some p"

lemma calm_procs_free: "calm s p \<Longrightarrow> procs_free s"
  by (simp add: calm_def procs_free_def)

lemma calm_simps [simp]:
  "calm (s\<lparr>mc := settled m\<rparr>) p = calm (s\<lparr>mc := m\<rparr>) p" "calm (s\<lparr>procs := ps\<rparr>) p = calm s p"
  by (simp_all add: calm_def cur_def)

lemma curproc_run: "cpu_ok (mc s) \<Longrightarrow> cur s = Some p \<Longrightarrow> curproc s = Ret p (s\<lparr>mc := settled (mc s)\<rparr>)"
  by (simp add: curproc_def myproc_run run_simps)

lemma acquiresleep_run:
  assumes "calm s p" "sl_locked (slocks s lk) = 0"
  shows "acquiresleep lk s = Ret () (s\<lparr>mc := settled (mc s),
    slocks := (slocks s)(lk := (slocks s lk)\<lparr>sl_locked := 1, sl_pid := ppid (procs s p)\<rparr>)\<rparr>)"
  using assms
  by (auto simp: acquiresleep_def updsl_def calm_def acquire_free run_simps curproc_run cur_def getp_run
      release_section)

lemma holdingsleep_run:
  assumes "calm s p"
  shows "holdingsleep lk s = Ret (sl_locked (slocks s lk) \<noteq> 0 \<and> sl_pid (slocks s lk) = ppid (procs s p))
    (s\<lparr>mc := settled (mc s)\<rparr>)"
  using assms
  by (auto simp: holdingsleep_def calm_def acquire_free run_simps curproc_run cur_def getp_run release_section)

text \<open>The processes after \<open>wakeup\<close>.\<close>

definition awakened_all :: "chan \<Rightarrow> nat option \<Rightarrow> (nat \<Rightarrow> proc) \<Rightarrow> nat \<Rightarrow> proc" where
  "awakened_all ch mine ps = (\<lambda>q. if q < NPROC \<and> Some q \<noteq> mine then awakened ch (ps q) else ps q)"

lemma wakeup_all:
  "procs_free s \<Longrightarrow> wakeup ch s = Ret () (s\<lparr>mc := settled (mc s), procs := awakened_all ch (cur s) (procs s)\<rparr>)"
  by (simp add: wakeup_run awakened_all_def)

lemma awakened_ppid [simp]: "ppid (awakened_all ch mine ps q) = ppid (ps q)"
  by (simp add: awakened_all_def awakened_def)

lemma releasesleep_run:
  assumes "calm s p"
  shows "releasesleep lk s = Ret () (s\<lparr>mc := settled (mc s),
    slocks := (slocks s)(lk := (slocks s lk)\<lparr>sl_locked := 0, sl_pid := 0\<rparr>),
    procs := awakened_all (ChSleepLock lk) (Some p) (procs s)\<rparr>)"
proof -
  let ?t = "s\<lparr>mc := acq (SleepLk lk) (mc s),
      slocks := (slocks s)(lk := (slocks s lk)\<lparr>sl_locked := 0, sl_pid := 0\<rparr>)\<rparr>"
  have "procs_free ?t" "cur ?t = Some p" using assms by (auto simp: calm_def procs_free_def cur_def)
  from wakeup_all[OF this(1), of "ChSleepLock lk"] this(2)
  have "wakeup (ChSleepLock lk) ?t = Ret () (?t\<lparr>procs := awakened_all (ChSleepLock lk) (Some p) (procs s)\<rparr>)"
    using assms by (simp add: calm_def)
  then show ?thesis
    using assms by (auto simp: releasesleep_def updsl_def acquire_free run_simps calm_def release_section)
qed

lemma acquiresleep_waits:
  assumes "calm s p" "noff (mycpu_of (mc s)) = 0" "sl_locked (slocks s lk) \<noteq> 0"
  shows "acquiresleep lk s = Switch (s\<lparr>mc := rel (SleepLk lk) (acq (ProcLock p) (acq (SleepLk lk) (mc s))),
     procs := (procs s)(p := (procs s p)\<lparr>pchan := Some (ChSleepLock lk), pstate := SLEEPING\<rparr>)\<rparr>)"
proof -
  let ?s = "s\<lparr>mc := acq (SleepLk lk) (mc s)\<rparr>"
  have "sleep (ChSleepLock lk) (SleepLk lk) ?s = Switch (?s\<lparr>mc := rel (SleepLk lk) (acq (ProcLock p) (mc ?s)),
     procs := (procs ?s)(p := (procs ?s p)\<lparr>pchan := Some (ChSleepLock lk), pstate := SLEEPING\<rparr>)\<rparr>)"
    by (rule sleep_run) (use assms in \<open>auto simp: calm_def cur_def\<close>)
  then show ?thesis
    using assms by (auto simp: acquiresleep_def calm_def acquire_free run_simps)
qed

section \<open>Properties\<close>

text \<open>
  C13: a sleep lock is handed over. A process that finds the lock taken goes to sleep on it and
  leaves it alone; when the owner releases the lock the sleeper becomes runnable and the lock is
  free; and the process that then acquires it is the one that holds it.
\<close>

theorem sleeplock_handover:
  fixes s :: "'z kslp_scheme"
  assumes "calm s p" "noff (mycpu_of (mc s)) = 0" "sl_locked (slocks s lk) \<noteq> 0" "p < NPROC"
  shows "\<exists>t. acquiresleep lk s = Switch t \<and> slocks t = slocks s \<and> pstate (procs t p) = SLEEPING \<and>
    (\<forall>(u :: 'z kslp_scheme) q. calm u q \<and> q \<noteq> p \<and> procs u p = procs t p \<longrightarrow>
      (\<exists>v. releasesleep lk u = Ret () v \<and> pstate (procs v p) = RUNNABLE \<and> sl_locked (slocks v lk) = 0 \<and>
         (\<forall>w :: 'z kslp_scheme. calm w p \<and> slocks w lk = slocks v lk \<longrightarrow>
           (\<exists>x y. acquiresleep lk w = Ret () x \<and> holdingsleep lk x = Ret True y))))"
proof -
  have a: "\<exists>x y. acquiresleep lk w = Ret () x \<and> holdingsleep lk x = Ret True y"
    if "calm w p" "sl_locked (slocks w lk) = 0" for w :: "'z kslp_scheme"
  proof -
    let ?x = "w\<lparr>mc := settled (mc w),
      slocks := (slocks w)(lk := (slocks w lk)\<lparr>sl_locked := 1, sl_pid := ppid (procs w p)\<rparr>)\<rparr>"
    have "calm ?x p" using that(1) by (simp add: calm_def cur_def)
    from holdingsleep_run[OF this, of lk] acquiresleep_run[OF that] show ?thesis by auto
  qed
  let ?q = "(procs s p)\<lparr>pchan := Some (ChSleepLock lk), pstate := SLEEPING\<rparr>"
  have r: "\<exists>v. releasesleep lk u = Ret () v \<and> pstate (procs v p) = RUNNABLE \<and> sl_locked (slocks v lk) = 0"
    if "calm u q" "q \<noteq> p" "procs u p = ?q" for u :: "'z kslp_scheme" and q
    using releasesleep_run[OF that(1), of lk] that assms(4)
    by (auto simp: awakened_all_def awakened_def)
  have "\<exists>v. releasesleep lk u = Ret () v \<and> pstate (procs v p) = RUNNABLE \<and> sl_locked (slocks v lk) = 0 \<and>
      (\<forall>w :: 'z kslp_scheme. calm w p \<and> slocks w lk = slocks v lk \<longrightarrow>
        (\<exists>x y. acquiresleep lk w = Ret () x \<and> holdingsleep lk x = Ret True y))"
    if "calm u q" "q \<noteq> p" "procs u p = ?q" for u :: "'z kslp_scheme" and q
    using r[OF that] a by fastforce
  with acquiresleep_waits[OF assms(1-3)] show ?thesis by fastforce
qed

definition ex_kslp :: "nat \<Rightarrow> kslp" where
  "ex_kslp p = kproc.extend (ex_kproc\<lparr>mc := quiet\<lparr>cpus := (cpus quiet)(0 := (cpus quiet 0)\<lparr>cproc := Some p\<rparr>)\<rparr>\<rparr>)
     \<lparr>slocks = (\<lambda>_. \<lparr>sl_locked = 1, sl_name = [], sl_pid = 7\<rparr>)\<rparr>"

lemma ex_kslp_simps:
  "calm (ex_kslp p) p" "noff (mycpu_of (mc (ex_kslp p))) = 0" "sl_locked (slocks (ex_kslp p) lk) = 1"
  by (simp_all add: ex_kslp_def kproc.defs calm_def cur_def mycpu_of_def me_def cpu_ok_def lkfree_def quiet_def)

theorem sleeplock_handover_witness:
  "\<exists>t v. acquiresleep (BufLock 3) (ex_kslp 0) = Switch t \<and>
     releasesleep (BufLock 3) ((ex_kslp 2)\<lparr>procs := procs t\<rparr>) = Ret () v \<and> pstate (procs v 0) = RUNNABLE"
proof -
  from sleeplock_handover[OF ex_kslp_simps(1,2)[of 0], of "BufLock 3"] obtain t where
    t: "acquiresleep (BufLock 3) (ex_kslp 0) = Switch t"
    "\<forall>(u :: kslp) q. calm u q \<and> q \<noteq> 0 \<and> procs u 0 = procs t 0 \<longrightarrow>
      (\<exists>v. releasesleep (BufLock 3) u = Ret () v \<and> pstate (procs v 0) = RUNNABLE)"
    by (fastforce simp: ex_kslp_simps NPROC_def)
  have "calm ((ex_kslp 2)\<lparr>procs := procs t\<rparr>) 2" using ex_kslp_simps(1)[of 2] by simp
  with t(2)[rule_format, of "(ex_kslp 2)\<lparr>procs := procs t\<rparr>" 2] t(1) show ?thesis by auto
qed

end
