(* ===== verification/Bio.thy ===== *)
theory Bio
  imports Sleeplock
begin

text \<open>
  The buffer cache (\<open>kernel/buf.h\<close>, \<open>kernel/bio.c\<close>) over the disk.

  A buffer is its index in \<open>bcache.buf[NBUF]\<close>; the list through \<open>prev\<close> and
  \<open>next\<close> also passes through \<open>bcache.head\<close>, so its nodes are \<open>bref\<close>s. A walk
  along the list that does not come back to the head within \<open>NBUF + 1\<close> steps never
  does, and is \<open>spin\<close>.

  \<open>virtio_disk_rw\<close> is here a whole request as its caller sees it: by the time the call
  returns the device has moved the block. \<open>disk\<close> holds the blocks by number; \<open>dwrites\<close> is
  a ghost variable, the blocks written so far in the order they reached the disk, from which
  the states a crash can leave are computed. A block is written atomically.

  Results: the list always is a list of all the buffers in order of use; \<open>bread\<close> returns a
  locked buffer with the block's contents and evicts the least recently used free buffer;
  no block is ever in two buffers.
\<close>

section \<open>State\<close>

definition BSIZE :: nat where
  "BSIZE = 1024"

datatype bref = BHead | Buf nat

record buf =
  bvalid :: int
  bdisk :: int
  bdev :: u32
  bblockno :: u32
  brefcnt :: u32
  bdata :: cstr

record kbuf = kslp +
  bufs :: "nat \<Rightarrow> buf"
  bprev :: "bref \<Rightarrow> bref"
  bnext :: "bref \<Rightarrow> bref"
  disk :: "u32 \<Rightarrow> cstr"
  dwrites :: "(u32 \<times> cstr) list"

definition getb :: "nat \<Rightarrow> (buf \<Rightarrow> 'a) \<Rightarrow> ('z kbuf_scheme, 'a) prog" where
  "getb b f = gets (\<lambda>s. f (bufs s b))"

definition updb :: "nat \<Rightarrow> (buf \<Rightarrow> buf) \<Rightarrow> ('z kbuf_scheme, unit) prog" where
  "updb b f = modify (\<lambda>s. s\<lparr>bufs := (bufs s)(b := f (bufs s b))\<rparr>)"

section \<open>Operations\<close>

definition binit :: "('z kbuf_scheme, unit) prog" where
  "binit =
     bind (initlock BcacheLock ''bcache'') (\<lambda>_.
     bind (modify (\<lambda>s. s\<lparr>bprev := (bprev s)(BHead := BHead)\<rparr>)) (\<lambda>_.
     bind (modify (\<lambda>s. s\<lparr>bnext := (bnext s)(BHead := BHead)\<rparr>)) (\<lambda>_.
     for_each [0..<NBUF] (\<lambda>b.
       bind (modify (\<lambda>s. s\<lparr>bnext := (bnext s)(Buf b := bnext s BHead)\<rparr>)) (\<lambda>_.
       bind (modify (\<lambda>s. s\<lparr>bprev := (bprev s)(Buf b := BHead)\<rparr>)) (\<lambda>_.
       bind (initsleeplock (BufLock b) ''buffer'') (\<lambda>_.
       bind (modify (\<lambda>s. s\<lparr>bprev := (bprev s)(bnext s BHead := Buf b)\<rparr>)) (\<lambda>_.
       modify (\<lambda>s. s\<lparr>bnext := (bnext s)(BHead := Buf b)\<rparr>)))))))))"

text \<open>Walk from \<open>r\<close> along \<open>step\<close> to the first buffer that satisfies \<open>P\<close>, or to the head.\<close>

fun bscan :: "nat \<Rightarrow> (bref \<Rightarrow> bref) \<Rightarrow> (nat \<Rightarrow> bool) \<Rightarrow> bref \<Rightarrow> nat option option" where
  "bscan 0 step P r = None"
| "bscan (Suc n) step P BHead = Some None"
| "bscan (Suc n) step P (Buf i) = (if P i then Some (Some i) else bscan n step P (step (Buf i)))"

definition bget :: "u32 \<Rightarrow> u32 \<Rightarrow> ('z kbuf_scheme, nat) prog" where
  "bget dev blockno =
     bind (acquire BcacheLock) (\<lambda>_.
     bind (gets (\<lambda>s. bscan (Suc NBUF) (bnext s)
        (\<lambda>i. bdev (bufs s i) = dev \<and> bblockno (bufs s i) = blockno) (bnext s BHead))) (\<lambda>hit.
     case hit of
       None \<Rightarrow> spin
     | Some (Some b) \<Rightarrow>
         bind (updb b (\<lambda>k. k\<lparr>brefcnt := brefcnt k + 1\<rparr>)) (\<lambda>_.
         bind (release BcacheLock) (\<lambda>_.
         bind (acquiresleep (BufLock b)) (\<lambda>_.
         ret b)))
     | Some None \<Rightarrow>
         bind (gets (\<lambda>s. bscan (Suc NBUF) (bprev s) (\<lambda>i. brefcnt (bufs s i) = 0) (bprev s BHead))) (\<lambda>lru.
         case lru of
           None \<Rightarrow> spin
         | Some (Some b) \<Rightarrow>
             bind (updb b (\<lambda>k. k\<lparr>bdev := dev, bblockno := blockno, bvalid := 0, brefcnt := 1\<rparr>)) (\<lambda>_.
             bind (release BcacheLock) (\<lambda>_.
             bind (acquiresleep (BufLock b)) (\<lambda>_.
             ret b)))
         | Some None \<Rightarrow> panic ''bget: no buffers'')))"

definition virtio_disk_rw :: "nat \<Rightarrow> int \<Rightarrow> ('z kbuf_scheme, unit) prog" where
  "virtio_disk_rw b write =
     (if write \<noteq> 0
      then modify (\<lambda>s. let n = bblockno (bufs s b); d = bdata (bufs s b) in
        s\<lparr>disk := (disk s)(n := d), dwrites := dwrites s @ [(n, d)]\<rparr>)
      else modify (\<lambda>s. s\<lparr>bufs := (bufs s)(b := (bufs s b)\<lparr>bdata := disk s (bblockno (bufs s b))\<rparr>)\<rparr>))"

definition bread :: "u32 \<Rightarrow> u32 \<Rightarrow> ('z kbuf_scheme, nat) prog" where
  "bread dev blockno =
     bind (bget dev blockno) (\<lambda>b.
     bind (getb b bvalid) (\<lambda>v.
     bind (only_if (v = 0)
       (bind (virtio_disk_rw b 0) (\<lambda>_. updb b (\<lambda>k. k\<lparr>bvalid := 1\<rparr>)))) (\<lambda>_.
     ret b)))"

definition bwrite :: "nat \<Rightarrow> ('z kbuf_scheme, unit) prog" where
  "bwrite b =
     bind (holdingsleep (BufLock b)) (\<lambda>h.
     if \<not> h then panic ''bwrite'' else virtio_disk_rw b 1)"

definition brelse :: "nat \<Rightarrow> ('z kbuf_scheme, unit) prog" where
  "brelse b =
     bind (holdingsleep (BufLock b)) (\<lambda>h.
     if \<not> h then panic ''brelse''
     else bind (releasesleep (BufLock b)) (\<lambda>_.
     bind (acquire BcacheLock) (\<lambda>_.
     bind (updb b (\<lambda>k. k\<lparr>brefcnt := brefcnt k - 1\<rparr>)) (\<lambda>_.
     bind (getb b brefcnt) (\<lambda>r.
     bind (only_if (r = 0)
       (bind (modify (\<lambda>s. s\<lparr>bprev := (bprev s)(bnext s (Buf b) := bprev s (Buf b))\<rparr>)) (\<lambda>_.
        bind (modify (\<lambda>s. s\<lparr>bnext := (bnext s)(bprev s (Buf b) := bnext s (Buf b))\<rparr>)) (\<lambda>_.
        bind (modify (\<lambda>s. s\<lparr>bnext := (bnext s)(Buf b := bnext s BHead)\<rparr>)) (\<lambda>_.
        bind (modify (\<lambda>s. s\<lparr>bprev := (bprev s)(Buf b := BHead)\<rparr>)) (\<lambda>_.
        bind (modify (\<lambda>s. s\<lparr>bprev := (bprev s)(bnext s BHead := Buf b)\<rparr>)) (\<lambda>_.
        modify (\<lambda>s. s\<lparr>bnext := (bnext s)(BHead := Buf b)\<rparr>)))))))) (\<lambda>_.
     release BcacheLock))))))"

definition bpin :: "nat \<Rightarrow> ('z kbuf_scheme, unit) prog" where
  "bpin b =
     bind (acquire BcacheLock) (\<lambda>_.
     bind (updb b (\<lambda>k. k\<lparr>brefcnt := brefcnt k + 1\<rparr>)) (\<lambda>_.
     release BcacheLock))"

definition bunpin :: "nat \<Rightarrow> ('z kbuf_scheme, unit) prog" where
  "bunpin b =
     bind (acquire BcacheLock) (\<lambda>_.
     bind (updb b (\<lambda>k. k\<lparr>brefcnt := brefcnt k - 1\<rparr>)) (\<lambda>_.
     release BcacheLock))"

section \<open>The list\<close>

text \<open>\<open>chain prv nxt a rs b\<close>: the nodes \<open>rs\<close> lead from \<open>a\<close> to \<open>b\<close>, both ways.\<close>

fun chain :: "(bref \<Rightarrow> bref) \<Rightarrow> (bref \<Rightarrow> bref) \<Rightarrow> bref \<Rightarrow> bref list \<Rightarrow> bref \<Rightarrow> bool" where
  "chain prv nxt a [] b \<longleftrightarrow> nxt a = b \<and> prv b = a"
| "chain prv nxt a (r # rs) b \<longleftrightarrow> nxt a = r \<and> prv r = a \<and> chain prv nxt r rs b"

definition lru :: "(bref \<Rightarrow> bref) \<Rightarrow> (bref \<Rightarrow> bref) \<Rightarrow> nat list \<Rightarrow> bool" where
  "lru prv nxt xs \<longleftrightarrow> chain prv nxt BHead (map Buf xs) BHead \<and> distinct xs \<and> set xs = {..<NBUF}"

lemma chain_append:
  "chain prv nxt a (rs @ r # ts) b \<longleftrightarrow> chain prv nxt a rs r \<and> chain prv nxt r ts b"
  by (induction rs arbitrary: a) auto

lemma chain_next_upd:
  "chain prv nxt a rs b \<Longrightarrow> x \<notin> set (a # rs) \<Longrightarrow> chain prv (nxt(x := y)) a rs b"
  by (induction rs arbitrary: a) auto

lemma chain_prev_upd:
  "chain prv nxt a rs b \<Longrightarrow> x \<notin> set (rs @ [b]) \<Longrightarrow> chain (prv(x := y)) nxt a rs b"
  by (induction rs arbitrary: a) auto

lemma chain_rev: "chain prv nxt a rs b \<longleftrightarrow> chain nxt prv b (rev rs) a"
proof (induction rs arbitrary: a)
  case (Cons r rs)
  then show ?case by (auto simp: chain_append)
qed auto

lemma bscan_chain:
  "chain prv nxt a (map Buf xs) BHead \<Longrightarrow> length xs < n \<Longrightarrow> bscan n nxt P (nxt a) = Some (find P xs)"
proof (induction xs arbitrary: a n)
  case Nil
  then show ?case by (cases n) auto
next
  case (Cons x xs)
  then obtain m where "n = Suc m" by (cases n) auto
  with Cons show ?case by simp
qed

lemma lru_length: "lru prv nxt xs \<Longrightarrow> length xs = NBUF"
  using distinct_card[of xs] by (simp add: lru_def)

lemma bscan_forward: "lru prv nxt xs \<Longrightarrow> bscan (Suc NBUF) nxt P (nxt BHead) = Some (find P xs)"
  using bscan_chain[of prv nxt BHead xs "Suc NBUF" P] lru_length[of prv nxt xs] by (simp add: lru_def)

lemma bscan_backward: "lru prv nxt xs \<Longrightarrow> bscan (Suc NBUF) prv P (prv BHead) = Some (find P (rev xs))"
proof -
  assume l: "lru prv nxt xs"
  then have "chain nxt prv BHead (map Buf (rev xs)) BHead"
    using chain_rev[of prv nxt BHead "map Buf xs" BHead] by (simp add: lru_def rev_map)
  then show ?thesis by (rule bscan_chain) (simp add: lru_length[OF l])
qed

lemma chain_relink_end:
  assumes "chain prv nxt a rs r" "distinct (a # rs)" "n \<notin> set rs"
  shows "chain (prv(n := last (a # rs))) (nxt(last (a # rs) := n)) a rs n"
  using assms
proof (induction rs arbitrary: a)
  case (Cons x rs)
  moreover have "last (x # rs) \<in> set (x # rs)" by (rule last_in_set) simp
  ultimately show ?case by auto
qed simp

lemma chain_last: "chain prv nxt a rs r \<Longrightarrow> prv r = last (a # rs)"
  by (induction rs arbitrary: a) auto

lemma chain_unlink:
  assumes "chain prv nxt a (rs @ r # ts) b" "distinct (rs @ r # ts)" "a \<notin> set (rs @ r # ts)" "b \<notin> set (rs @ r # ts)"
  shows "chain (prv(nxt r := prv r)) (nxt(prv r := nxt r)) a (rs @ ts) b"
proof -
  have c: "chain prv nxt a rs r" "chain prv nxt r ts b"
    using assms(1) by (auto simp: chain_append)
  have p: "prv r = last (a # rs)" using chain_last[OF c(1)] .
  have last: "last (a # rs) \<in> set (a # rs)" by (rule last_in_set) simp
  show ?thesis
  proof (cases ts)
    case Nil
    with c have "nxt r = b" by simp
    with Nil chain_relink_end[OF c(1), of b] assms p show ?thesis by auto
  next
    case (Cons t us)
    with c have n: "nxt r = t" "chain prv nxt t us b" by auto
    have "chain (prv(t := last (a # rs))) (nxt(last (a # rs) := t)) a rs t"
      using assms Cons by (intro chain_relink_end[OF c(1)]) auto
    moreover have "chain (prv(t := last (a # rs))) (nxt(last (a # rs) := t)) t us b"
      using assms Cons last by (intro chain_prev_upd chain_next_upd n(2)) auto
    ultimately show ?thesis by (simp only: p n Cons chain_append)
  qed
qed

lemma chain_insert_front:
  assumes "chain prv nxt a rs b" "r \<noteq> a" "r \<noteq> b" "r \<notin> set rs" "distinct rs" "a \<notin> set rs" "b \<notin> set rs"
  shows "chain ((prv(r := a))(nxt a := r)) ((nxt(r := nxt a))(a := r)) a (r # rs) b"
proof (cases rs)
  case (Cons z zs)
  with assms have n: "nxt a = z" "chain prv nxt z zs b" by auto
  have "chain ((prv(r := a))(z := r)) ((nxt(r := z))(a := r)) z zs b"
    using assms Cons by (intro chain_prev_upd chain_next_upd n(2)) auto
  with assms n Cons show ?thesis by auto
qed (use assms in auto)

text \<open>The pointer updates of \<open>brelse\<close> move a buffer to the front.\<close>

definition to_front :: "nat \<Rightarrow> (bref \<Rightarrow> bref) \<times> (bref \<Rightarrow> bref) \<Rightarrow> (bref \<Rightarrow> bref) \<times> (bref \<Rightarrow> bref)" where
  "to_front b = (\<lambda>(prv, nxt).
     let prv1 = prv(nxt (Buf b) := prv (Buf b));
         nxt1 = nxt(prv1 (Buf b) := nxt (Buf b));
         nxt2 = nxt1(Buf b := nxt1 BHead);
         prv2 = prv1(Buf b := BHead);
         prv3 = prv2(nxt2 BHead := Buf b);
         nxt3 = nxt2(BHead := Buf b)
     in (prv3, nxt3))"

lemma to_front_lru:
  assumes "lru prv nxt (xs @ b # ys)"
  shows "lru (fst (to_front b (prv, nxt))) (snd (to_front b (prv, nxt))) (b # xs @ ys)"
proof -
  have d: "distinct (xs @ b # ys)" "set (xs @ b # ys) = {..<NBUF}"
    and c: "chain prv nxt BHead (map Buf xs @ Buf b # map Buf ys) BHead"
    using assms by (auto simp: lru_def)
  have ne: "nxt (Buf b) \<noteq> Buf b"
    using c d by (cases ys) (auto simp: chain_append)
  let ?p = "prv(nxt (Buf b) := prv (Buf b))" and ?n = "nxt(prv (Buf b) := nxt (Buf b))"
  have m: "distinct (map Buf xs @ Buf b # map Buf ys)" "BHead \<notin> set (map Buf xs @ Buf b # map Buf ys)"
    using d(1) by (auto simp: distinct_map inj_on_def)
  have u: "chain ?p ?n BHead (map Buf xs @ map Buf ys) BHead"
    by (rule chain_unlink[OF c m m(2)])
  have "chain ((?p(Buf b := BHead))(?n BHead := Buf b)) ((?n(Buf b := ?n BHead))(BHead := Buf b)) BHead
      (Buf b # (map Buf xs @ map Buf ys)) BHead"
    by (rule chain_insert_front[OF u]) (use m in simp_all)
  moreover have "to_front b (prv, nxt) =
      ((?p(Buf b := BHead))(?n BHead := Buf b), (?n(Buf b := ?n BHead))(BHead := Buf b))"
    using ne by (simp add: to_front_def Let_def)
  moreover have "distinct (b # xs @ ys)" "set (b # xs @ ys) = {..<NBUF}" using d by auto
  ultimately show ?thesis by (simp only: lru_def fst_conv snd_conv list.map map_append simp_thms)
qed

section \<open>What the cache holds\<close>

text \<open>
  A block is its first \<open>BSIZE\<close> bytes. \<open>content s n\<close> is block \<open>n\<close> as a reader sees it,
  in the cache or on the disk; \<open>refs s n\<close> its reference count.
\<close>

definition clip :: "cstr \<Rightarrow> cstr" where
  "clip d = (\<lambda>i. if i < BSIZE then d i else 0)"

definition has :: "'z kbuf_scheme \<Rightarrow> nat \<Rightarrow> u32 \<Rightarrow> bool" where
  "has s i n \<longleftrightarrow> i < NBUF \<and> bdev (bufs s i) = ROOTDEV \<and> bblockno (bufs s i) = n"

definition content :: "'z kbuf_scheme \<Rightarrow> u32 \<Rightarrow> cstr" where
  "content s n = (case find (\<lambda>i. has s i n \<and> bvalid (bufs s i) \<noteq> 0) [0..<NBUF] of
      None \<Rightarrow> clip (disk s n)
    | Some i \<Rightarrow> clip (bdata (bufs s i)))"

definition refs :: "'z kbuf_scheme \<Rightarrow> u32 \<Rightarrow> nat" where
  "refs s n = (case find (\<lambda>i. has s i n) [0..<NBUF] of None \<Rightarrow> 0 | Some i \<Rightarrow> unat (brefcnt (bufs s i)))"

definition busy :: "'z kbuf_scheme \<Rightarrow> nat" where
  "busy s = card {i. i < NBUF \<and> brefcnt (bufs s i) \<noteq> 0}"

text \<open>
  The invariant of the cache: the list is in order, no block of the root device is in two
  buffers, and an unused buffer holds what is on the disk.
\<close>

definition uniq :: "'z kbuf_scheme \<Rightarrow> bool" where
  "uniq s \<longleftrightarrow> (\<forall>i j n. has s i n \<and> has s j n \<longrightarrow> i = j)"

definition bcache_ok :: "'z kbuf_scheme \<Rightarrow> bool" where
  "bcache_ok s \<longleftrightarrow> (\<exists>xs. lru (bprev s) (bnext s) xs) \<and>
     uniq s \<and>
     (\<forall>i n. has s i n \<and> bvalid (bufs s i) \<noteq> 0 \<and> brefcnt (bufs s i) = 0 \<longrightarrow>
        clip (bdata (bufs s i)) = clip (disk s n))"

text \<open>\<open>opened s p H\<close>: process \<open>p\<close> has exactly the buffers \<open>H\<close> locked, and is using them.\<close>

definition opened :: "'z kbuf_scheme \<Rightarrow> nat \<Rightarrow> nat set \<Rightarrow> bool" where
  "opened s p H \<longleftrightarrow> calm s p \<and> bcache_ok s \<and> H \<subseteq> {..<NBUF} \<and>
     (\<forall>i < NBUF. if i \<in> H
        then sl_locked (slocks s (BufLock i)) \<noteq> 0 \<and> sl_pid (slocks s (BufLock i)) = ppid (procs s p) \<and>
             brefcnt (bufs s i) \<noteq> 0 \<and> bvalid (bufs s i) \<noteq> 0
        else sl_locked (slocks s (BufLock i)) = 0)"

text \<open>Nothing but the cache and the disk changes, except that sleepers may have been woken.\<close>

definition woken :: "(nat \<Rightarrow> proc) \<Rightarrow> (nat \<Rightarrow> proc) \<Rightarrow> bool" where
  "woken ps qs \<longleftrightarrow> (\<forall>q. qs q = ps q \<or> pstate (ps q) = SLEEPING \<and> qs q = (ps q)\<lparr>pstate := RUNNABLE\<rparr>)"

definition rest :: "'z kbuf_scheme \<Rightarrow> 'z kbuf_scheme \<Rightarrow> bool" where
  "rest s t \<longleftrightarrow> t = s\<lparr>mc := mc t, procs := procs t, slocks := slocks t, bufs := bufs t, bprev := bprev t,
       bnext := bnext t, disk := disk t, dwrites := dwrites t\<rparr> \<and>
     woken (procs s) (procs t) \<and> (\<forall>j. slocks t (InodeLock j) = slocks s (InodeLock j))"

lemma clip_clip [simp]: "clip (clip d) = clip d"
  by (auto simp: clip_def)

lemma woken_refl [simp]: "woken ps ps"
  by (simp add: woken_def)

lemma woken_trans: "woken ps qs \<Longrightarrow> woken qs rs \<Longrightarrow> woken ps rs"
proof -
  assume a: "woken ps qs" "woken qs rs"
  show ?thesis unfolding woken_def
  proof
    fix q
    show "rs q = ps q \<or> pstate (ps q) = SLEEPING \<and> rs q = (ps q)\<lparr>pstate := RUNNABLE\<rparr>"
      using a[unfolded woken_def, rule_format, of q] by auto
  qed
qed

lemma woken_ppid: "woken ps qs \<Longrightarrow> ppid (qs q) = ppid (ps q)"
  unfolding woken_def by (metis proc.select_convs(5) proc.surjective proc.update_convs(1))

lemma woken_all: "woken ps (awakened_all ch mine ps)"
  by (simp add: woken_def awakened_all_def awakened_def)

lemma rest_refl [simp]: "rest s s"
  by (simp add: rest_def)

lemma rest_trans: "rest s t \<Longrightarrow> rest t u \<Longrightarrow> rest s u"
proof -
  assume st: "rest s t" and tu: "rest t u"
  have "u = t\<lparr>mc := mc u, procs := procs u, slocks := slocks u, bufs := bufs u, bprev := bprev u,
       bnext := bnext u, disk := disk u, dwrites := dwrites u\<rparr>"
    using tu by (simp add: rest_def)
  moreover have "t = s\<lparr>mc := mc t, procs := procs t, slocks := slocks t, bufs := bufs t, bprev := bprev t,
       bnext := bnext t, disk := disk t, dwrites := dwrites t\<rparr>"
    using st by (simp add: rest_def)
  ultimately have "u = s\<lparr>mc := mc u, procs := procs u, slocks := slocks u, bufs := bufs u, bprev := bprev u,
       bnext := bnext u, disk := disk u, dwrites := dwrites u\<rparr>"
    by (cases s, cases t, cases u) simp
  with st tu show ?thesis using woken_trans by (auto simp: rest_def)
qed

lemma find_unique:
  assumes "\<And>i j. B i \<Longrightarrow> B j \<Longrightarrow> i = j" "B i" "i < n"
  shows "find B [0..<n] = Some i"
  using assms by (simp add: find_upt_Some_iff) (metis order_less_irrefl)

lemma has_unique: "bcache_ok s \<Longrightarrow> has s i n \<Longrightarrow> has s j n \<Longrightarrow> i = j"
  unfolding bcache_ok_def uniq_def by blast

lemma uniqD: "uniq s \<Longrightarrow> has s i n \<Longrightarrow> has s j n \<Longrightarrow> i = j"
  unfolding uniq_def by blast

lemma bcache_ok_uniq: "bcache_ok s \<Longrightarrow> uniq s"
  by (simp add: bcache_ok_def)

lemma content_hit: "uniq s \<Longrightarrow> has s i n \<Longrightarrow> bvalid (bufs s i) \<noteq> 0 \<Longrightarrow> content s n = clip (bdata (bufs s i))"
  using find_unique[of "\<lambda>i. has s i n \<and> bvalid (bufs s i) \<noteq> 0" i NBUF] uniqD[of s]
  by (simp add: content_def has_def)

lemma content_miss: "(\<And>i. has s i n \<Longrightarrow> bvalid (bufs s i) = 0) \<Longrightarrow> content s n = clip (disk s n)"
  using find_upt_None_iff[of "\<lambda>i. has s i n \<and> bvalid (bufs s i) \<noteq> 0" NBUF] by (simp add: content_def)

lemma refs_hit: "uniq s \<Longrightarrow> has s i n \<Longrightarrow> refs s n = unat (brefcnt (bufs s i))"
  using find_unique[of "\<lambda>i. has s i n" i NBUF] uniqD[of s] by (simp add: refs_def has_def)

lemma refs_miss: "(\<And>i. \<not> has s i n) \<Longrightarrow> refs s n = 0"
  using find_upt_None_iff[of "\<lambda>i. has s i n" NBUF] by (simp add: refs_def)

lemma content_cong:
  "(\<And>i. has t i n = has s i n) \<Longrightarrow> (\<And>i. has s i n \<Longrightarrow> bufs t i = bufs s i) \<Longrightarrow> clip (disk t n) = clip (disk s n) \<Longrightarrow>
    content t n = content s n"
proof -
  assume a: "\<And>i. has t i n = has s i n" "\<And>i. has s i n \<Longrightarrow> bufs t i = bufs s i" "clip (disk t n) = clip (disk s n)"
  have "(\<lambda>i. has t i n \<and> bvalid (bufs t i) \<noteq> 0) = (\<lambda>i. has s i n \<and> bvalid (bufs s i) \<noteq> 0)"
    using a(1,2) by auto
  note B = this
  show ?thesis
  proof (cases "find (\<lambda>i. has s i n \<and> bvalid (bufs s i) \<noteq> 0) [0..<NBUF]")
    case (Some i)
    then have "has s i n" by (simp add: find_upt_Some_iff)
    with Some a(2) show ?thesis by (simp add: content_def B)
  qed (simp add: content_def B a(3))
qed

lemma refs_cong:
  assumes "\<And>i. has t i n = has s i n" "\<And>i. has s i n \<Longrightarrow> brefcnt (bufs t i) = brefcnt (bufs s i)"
  shows "refs t n = refs s n"
proof (cases "find (\<lambda>i. has s i n) [0..<NBUF]")
  case (Some i)
  then have "has s i n" by (simp add: find_upt_Some_iff)
  with Some assms show ?thesis by (simp add: refs_def)
qed (simp add: refs_def assms(1))

section \<open>Running the operations\<close>

definition slocked :: "nat \<Rightarrow> int \<Rightarrow> (slock \<Rightarrow> sleeplock) \<Rightarrow> slock \<Rightarrow> sleeplock" where
  "slocked b pid sl = sl(BufLock b := (sl (BufLock b))\<lparr>sl_locked := 1, sl_pid := pid\<rparr>)"

definition sunlocked :: "nat \<Rightarrow> (slock \<Rightarrow> sleeplock) \<Rightarrow> slock \<Rightarrow> sleeplock" where
  "sunlocked b sl = sl(BufLock b := (sl (BufLock b))\<lparr>sl_locked := 0, sl_pid := 0\<rparr>)"

lemma find_list_unique:
  assumes "b \<in> set xs" "P b" "\<And>i. i \<in> set xs \<Longrightarrow> P i \<Longrightarrow> i = b"
  shows "find P xs = Some b"
proof (cases "find P xs")
  case None
  with assms(1,2) show ?thesis by (auto simp: find_None_iff)
next
  case (Some c)
  then have "c \<in> set xs" "P c" by (auto simp: find_Some_iff)
  with assms(3) Some show ?thesis by simp
qed

lemma getb_run: "getb b f s = Ret (f (bufs s b)) s" "updb b g s = Ret () (s\<lparr>bufs := (bufs s)(b := g (bufs s b))\<rparr>)"
  by (simp_all add: getb_def updb_def run_simps)

lemma bget_hit:
  assumes "calm s p" "bcache_ok s" "has s b n" "sl_locked (slocks s (BufLock b)) = 0"
  shows "bget ROOTDEV n s = Ret b (s\<lparr>mc := settled (mc s),
    bufs := (bufs s)(b := (bufs s b)\<lparr>brefcnt := brefcnt (bufs s b) + 1\<rparr>),
    slocks := slocked b (ppid (procs s p)) (slocks s)\<rparr>)"
proof -
  obtain xs where xs: "lru (bprev s) (bnext s) xs" using assms(2) by (auto simp: bcache_ok_def)
  let ?P = "\<lambda>i. bdev (bufs s i) = ROOTDEV \<and> bblockno (bufs s i) = n"
  have "find ?P xs = Some b"
  proof (rule find_list_unique)
    show "b \<in> set xs" "?P b" using xs assms(3) by (auto simp: lru_def has_def)
    fix i assume "i \<in> set xs" "?P i"
    then have "has s i n" using xs by (auto simp: lru_def has_def)
    then show "i = b" using has_unique[OF assms(2) _ assms(3)] by blast
  qed
  then have f: "bscan (Suc NBUF) (bnext s) ?P (bnext s BHead) = Some (Some b)"
    using bscan_forward[OF xs, of ?P] by simp
  let ?t = "s\<lparr>bufs := (bufs s)(b := (bufs s b)\<lparr>brefcnt := brefcnt (bufs s b) + 1\<rparr>), mc := settled (mc s)\<rparr>"
  have "acquiresleep (BufLock b) ?t = Ret () (?t\<lparr>slocks := slocked b (ppid (procs s p)) (slocks s)\<rparr>)"
    using acquiresleep_run[of ?t p "BufLock b"] assms(1,4) by (simp add: calm_def cur_def slocked_def)
  then show ?thesis
    using assms(1) f by (auto simp: bget_def calm_def acquire_free getb_run run_simps release_section)
qed

lemma bget_miss:
  assumes "calm s p" "bcache_ok s" "\<And>i. \<not> has s i n" "lru (bprev s) (bnext s) xs"
    "find (\<lambda>i. brefcnt (bufs s i) = 0) (rev xs) = Some b" "sl_locked (slocks s (BufLock b)) = 0"
  shows "bget ROOTDEV n s = Ret b (s\<lparr>mc := settled (mc s),
    bufs := (bufs s)(b := (bufs s b)\<lparr>bdev := ROOTDEV, bblockno := n, bvalid := 0, brefcnt := 1\<rparr>),
    slocks := slocked b (ppid (procs s p)) (slocks s)\<rparr>)"
proof -
  let ?P = "\<lambda>i. bdev (bufs s i) = ROOTDEV \<and> bblockno (bufs s i) = n"
  have "find ?P xs = None"
    using assms(3,4) by (auto simp: find_None_iff lru_def has_def)
  then have f: "bscan (Suc NBUF) (bnext s) ?P (bnext s BHead) = Some None"
    using bscan_forward[OF assms(4), of ?P] by simp
  have g: "bscan (Suc NBUF) (bprev s) (\<lambda>i. brefcnt (bufs s i) = 0) (bprev s BHead) = Some (Some b)"
    using bscan_backward[OF assms(4)] assms(5) by simp
  let ?t = "s\<lparr>bufs := (bufs s)(b := (bufs s b)\<lparr>bdev := ROOTDEV, bblockno := n, bvalid := 0, brefcnt := 1\<rparr>),
    mc := settled (mc s)\<rparr>"
  have "acquiresleep (BufLock b) ?t = Ret () (?t\<lparr>slocks := slocked b (ppid (procs s p)) (slocks s)\<rparr>)"
    using acquiresleep_run[of ?t p "BufLock b"] assms(1,6) by (simp add: calm_def cur_def slocked_def)
  then show ?thesis
    using assms(1) f g by (auto simp: bget_def calm_def acquire_free getb_run run_simps release_section)
qed

text \<open>
  What \<open>bread\<close> does in a state with the locks \<open>H\<close>: the buffer it returns, and its new fields.
\<close>

lemma bread_run:
  assumes "opened s p H" "\<And>i. has s i n \<Longrightarrow> i \<notin> H" "(\<exists>i. has s i n) \<or> busy s < NBUF"
  shows "\<exists>b k. bread ROOTDEV n s = Ret b (s\<lparr>mc := settled (mc s), bufs := (bufs s)(b := k),
      slocks := slocked b (ppid (procs s p)) (slocks s)\<rparr>) \<and>
    b < NBUF \<and> b \<notin> H \<and> bdev k = ROOTDEV \<and> bblockno k = n \<and> bvalid k \<noteq> 0 \<and> clip (bdata k) = content s n \<and>
    (has s b n \<and> brefcnt k = brefcnt (bufs s b) + 1 \<or>
     (\<forall>i. \<not> has s i n) \<and> brefcnt (bufs s b) = 0 \<and> brefcnt k = 1)"
proof -
  have calm: "calm s p" and ok: "bcache_ok s" and unl: "\<And>i. i < NBUF \<Longrightarrow> i \<notin> H \<Longrightarrow> sl_locked (slocks s (BufLock i)) = 0"
    and inH: "\<And>i. i \<in> H \<Longrightarrow> i < NBUF \<and> brefcnt (bufs s i) \<noteq> 0"
    using assms(1) by (auto simp: opened_def split: if_splits)
  show ?thesis
  proof (cases "\<exists>i. has s i n")
    case True
    then obtain b where b: "has s b n" by blast
    then have bl: "b < NBUF" "b \<notin> H" using assms(2) by (auto simp: has_def)
    let ?k = "(bufs s b)\<lparr>brefcnt := brefcnt (bufs s b) + 1\<rparr>"
    note g = bget_hit[OF calm ok b unl[OF bl]]
    show ?thesis
    proof (cases "bvalid (bufs s b) = 0")
      case True
      have "content s n = clip (disk s n)" using has_unique[OF ok b] True by (intro content_miss) metis
      with g True b bl show ?thesis
        by (intro exI[of _ b] exI[of _ "?k\<lparr>bdata := disk s n, bvalid := 1\<rparr>"])
          (auto simp: bread_def getb_run run_simps virtio_disk_rw_def has_def)
    next
      case False
      with g b bl content_hit[OF bcache_ok_uniq[OF ok] b False] show ?thesis
        by (intro exI[of _ b] exI[of _ ?k]) (auto simp: bread_def getb_run run_simps has_def)
    qed
  next
    case False
    obtain xs where xs: "lru (bprev s) (bnext s) xs" using ok by (auto simp: bcache_ok_def)
    have "\<exists>i < NBUF. brefcnt (bufs s i) = 0"
    proof (rule ccontr)
      assume "\<not> ?thesis"
      then have "{i. i < NBUF \<and> brefcnt (bufs s i) \<noteq> 0} = {..<NBUF}" by auto
      with assms(3) False show False by (simp add: busy_def)
    qed
    then obtain b where f: "find (\<lambda>i. brefcnt (bufs s i) = 0) (rev xs) = Some b"
      using xs by (cases "find (\<lambda>i. brefcnt (bufs s i) = 0) (rev xs)") (auto simp: find_None_iff lru_def)
    then have b: "brefcnt (bufs s b) = 0" "b < NBUF"
      using xs by (auto simp: find_Some_iff lru_def rev_nth)
    then have bH: "b \<notin> H" using inH by blast
    have "content s n = clip (disk s n)" using False by (intro content_miss) blast
    with bget_miss[OF calm ok _ xs f unl[OF b(2) bH]] False b bH show ?thesis
      by (intro exI[of _ b] exI[of _ "(bufs s b)\<lparr>bdev := ROOTDEV, bblockno := n, brefcnt := 1, bdata := disk s n, bvalid := 1\<rparr>"])
        (auto simp: bread_def getb_run run_simps virtio_disk_rw_def)
  qed
qed

text \<open>Changing one buffer, possibly one that is being recycled.\<close>

lemma recycled:
  assumes "bcache_ok s" "bufs t = (bufs s)(b := k)" "disk t = disk s" "b < NBUF"
    "bdev k = ROOTDEV" "bblockno k = n" "bvalid k \<noteq> 0"
    "has s b n \<or> (\<forall>i. \<not> has s i n) \<and> brefcnt (bufs s b) = 0"
  shows "uniq t" "has t i m \<longleftrightarrow> (if i = b then m = n else has s i m)"
    "content t = (content s)(n := clip (bdata k))" "refs t = (refs s)(n := unat (brefcnt k))"
proof -
  have has: "has t i m \<longleftrightarrow> (if i = b then m = n else has s i m)" for i m
    using assms(2,4,5,6) by (auto simp: has_def)
  have u: "uniq s" using assms(1) by (rule bcache_ok_uniq)
  then show ut: "uniq t" unfolding uniq_def has using assms(8) by (auto dest: uniqD)
  show "has t i m \<longleftrightarrow> (if i = b then m = n else has s i m)" by (rule has)
  have other: "content t m = content s m \<and> refs t m = refs s m" if "m \<noteq> n" for m
  proof (cases "has s b m")
    case True
    with that assms(8) have r: "brefcnt (bufs s b) = 0" by (auto simp: has_def)
    have n: "\<not> has t i m" for i using that True uniqD[OF u True, of i] by (auto simp: has)
    have "content s m = clip (disk s m)"
    proof (cases "bvalid (bufs s b) = 0")
      case False
      then show ?thesis using True r assms(1) content_hit[OF u True] by (auto simp: bcache_ok_def)
    next
      case True': True
      show ?thesis using uniqD[OF u True] True' by (intro content_miss) metis
    qed
    then show ?thesis using n assms(3) content_miss[of t m] refs_miss[of t m] refs_hit[OF u True] r by simp
  next
    case False
    then have "has t i m = has s i m" for i using that by (auto simp: has)
    then show ?thesis
      using False assms(2,3) by (auto intro!: content_cong refs_cong)
  qed
  have b: "has t b n" "bufs t b = k" by (simp_all add: has assms(2))
  then have "content t n = clip (bdata k)" "refs t n = unat (brefcnt k)"
    using content_hit[OF ut b(1)] refs_hit[OF ut b(1)] assms(7) by simp_all
  with other show "content t = (content s)(n := clip (bdata k))" "refs t = (refs s)(n := unat (brefcnt k))"
    by (auto intro!: ext)
qed

lemma busy_upd:
  assumes "bufs t = (bufs s)(b := k)" "b < NBUF"
  shows "busy t + of_bool (brefcnt (bufs s b) \<noteq> 0) = busy s + of_bool (brefcnt k \<noteq> 0)"
proof -
  let ?A = "\<lambda>s. {i. i < NBUF \<and> brefcnt (bufs s i) \<noteq> 0}"
  have fin: "finite (?A s - {b})" by simp
  have t: "?A t = (if brefcnt k \<noteq> 0 then insert b (?A s - {b}) else ?A s - {b})"
    using assms by (auto simp: fun_upd_apply)
  have ins: "card (insert b (?A s - {b})) = Suc (card (?A s - {b}))"
    by (rule card_insert_disjoint[OF fin]) simp
  have "card (?A t) = card (?A s - {b}) + of_bool (brefcnt k \<noteq> 0)"
    unfolding t using ins by (simp only: of_bool_def split: if_split) simp
  moreover have "card (?A s) = card (?A s - {b}) + of_bool (brefcnt (bufs s b) \<noteq> 0)"
  proof (cases "brefcnt (bufs s b) = 0")
    case True
    then have "?A s - {b} = ?A s" by auto
    then show ?thesis using True by simp
  next
    case False
    then have "?A s = insert b (?A s - {b})" using assms(2) by auto
    then show ?thesis using ins False by simp
  qed
  ultimately have "busy t = card (?A s - {b}) + of_bool (brefcnt k \<noteq> 0)"
    "busy s = card (?A s - {b}) + of_bool (brefcnt (bufs s b) \<noteq> 0)"
    unfolding busy_def by simp_all
  then show ?thesis by simp
qed

lemma calm_cong: "mc t = settled (mc s) \<Longrightarrow> calm t p = calm s p"
  by (simp add: calm_def cur_def)

lemma opened_calm: "opened s p H \<Longrightarrow> calm s p"
  by (simp add: opened_def)

lemma opened_ok: "opened s p H \<Longrightarrow> bcache_ok s"
  by (simp add: opened_def)

lemma openedD:
  assumes "opened s p H" "b \<in> H"
  shows "b < NBUF" "sl_locked (slocks s (BufLock b)) \<noteq> 0" "sl_pid (slocks s (BufLock b)) = ppid (procs s p)"
    "brefcnt (bufs s b) \<noteq> 0" "bvalid (bufs s b) \<noteq> 0"
proof -
  show "b < NBUF" using assms by (auto simp: opened_def)
  then show "sl_locked (slocks s (BufLock b)) \<noteq> 0" "sl_pid (slocks s (BufLock b)) = ppid (procs s p)"
    "brefcnt (bufs s b) \<noteq> 0" "bvalid (bufs s b) \<noteq> 0"
    using assms unfolding opened_def by (metis (full_types))+
qed

lemma unat_inc: "unat x + 1 < 2 ^ 32 \<Longrightarrow> unat (x + 1) = unat x + 1" for x :: u32
  by (simp add: unat_word_ariths)

lemma bread_spec:
  assumes o: "opened s p H" and nh: "\<And>i. has s i n \<Longrightarrow> i \<notin> H" and room: "(\<exists>i. has s i n) \<or> busy s < NBUF"
    and small: "refs s n + 1 < 2 ^ 32"
  obtains b t where "bread ROOTDEV n s = Ret b t" "opened t p (insert b H)" "b \<notin> H" "has t b n"
    "clip (bdata (bufs t b)) = content s n" "content t = content s" "refs t = (refs s)(n := refs s n + 1)"
    "disk t = disk s" "dwrites t = dwrites s" "rest s t" "\<And>i. i \<noteq> b \<Longrightarrow> bufs t i = bufs s i"
    "busy t = busy s + of_bool (refs s n = 0)" "procs t = procs s"
proof -
  obtain b k where r: "bread ROOTDEV n s = Ret b (s\<lparr>mc := settled (mc s), bufs := (bufs s)(b := k),
      slocks := slocked b (ppid (procs s p)) (slocks s)\<rparr>)" and b: "b < NBUF" "b \<notin> H" and k: "bdev k = ROOTDEV"
    "bblockno k = n" "bvalid k \<noteq> 0" "clip (bdata k) = content s n"
    and h: "has s b n \<and> brefcnt k = brefcnt (bufs s b) + 1 \<or>
     (\<forall>i. \<not> has s i n) \<and> brefcnt (bufs s b) = 0 \<and> brefcnt k = 1"
    using bread_run[OF o nh room] by blast
  let ?t = "s\<lparr>mc := settled (mc s), bufs := (bufs s)(b := k), slocks := slocked b (ppid (procs s p)) (slocks s)\<rparr>"
  have ok: "bcache_ok s" using o by (rule opened_ok)
  have h': "has s b n \<or> (\<forall>i. \<not> has s i n) \<and> brefcnt (bufs s b) = 0" using h by blast
  have bt: "bufs ?t = (bufs s)(b := k)" "disk ?t = disk s" by simp_all
  note rec = recycled[OF ok bt b(1) k(1,2,3) h']
  have rk: "unat (brefcnt k) = refs s n + 1" "brefcnt (bufs s b) = 0 \<longleftrightarrow> refs s n = 0"
  proof -
    show "unat (brefcnt k) = refs s n + 1"
      using h
    proof
      assume a: "has s b n \<and> brefcnt k = brefcnt (bufs s b) + 1"
      with small refs_hit[OF bcache_ok_uniq[OF ok], of b n] show ?thesis by (simp add: unat_inc)
    next
      assume "(\<forall>i. \<not> has s i n) \<and> brefcnt (bufs s b) = 0 \<and> brefcnt k = 1"
      with refs_miss[of s n] show ?thesis by simp
    qed
    show "brefcnt (bufs s b) = 0 \<longleftrightarrow> refs s n = 0"
      using h refs_miss[of s n] refs_hit[OF bcache_ok_uniq[OF ok], of b n] by (auto simp: unat_eq_0)
  qed
  then have k0: "brefcnt k \<noteq> 0" by auto
  have c: "content ?t = content s" using rec(3) k(4) by (simp add: fun_upd_idem)
  have rf: "refs ?t = (refs s)(n := refs s n + 1)" using rec(4) rk by simp
  have ht: "has ?t b n" using rec(2)[of b n] by simp
  have okt: "bcache_ok ?t"
    unfolding bcache_ok_def
  proof (intro conjI allI impI)
    show "\<exists>xs. lru (bprev ?t) (bnext ?t) xs" using ok by (simp add: bcache_ok_def)
    show "uniq ?t" by (rule rec(1))
    fix i m
    assume a: "has ?t i m \<and> bvalid (bufs ?t i) \<noteq> 0 \<and> brefcnt (bufs ?t i) = 0"
    with k0 have "i \<noteq> b" by auto
    with a rec(2)[of i m] ok show "clip (bdata (bufs ?t i)) = clip (disk ?t m)"
      by (auto simp: bcache_ok_def)
  qed
  have op: "opened ?t p (insert b H)"
    unfolding opened_def
  proof (intro conjI allI impI)
    show "calm ?t p" using opened_calm[OF o] calm_cong[of ?t s p] by simp
    show "bcache_ok ?t" by (rule okt)
    show "insert b H \<subseteq> {..<NBUF}" using o b by (auto simp: opened_def)
    fix i assume "i < NBUF"
    then show "if i \<in> insert b H
        then sl_locked (slocks ?t (BufLock i)) \<noteq> 0 \<and> sl_pid (slocks ?t (BufLock i)) = ppid (procs ?t p) \<and>
             brefcnt (bufs ?t i) \<noteq> 0 \<and> bvalid (bufs ?t i) \<noteq> 0
        else sl_locked (slocks ?t (BufLock i)) = 0"
      using o k0 k(3) b by (auto simp: opened_def slocked_def)
  qed
  have "busy ?t = busy s + of_bool (refs s n = 0)"
    using busy_upd[OF bt(1) b(1)] k0 rk(2) by (auto split: if_splits)
  moreover have "rest s ?t" by (simp add: rest_def slocked_def)
  ultimately show thesis
    using that[of b ?t] r op b(2) ht k(4) c rf bt by simp
qed

lemma brelse_run:
  assumes "opened s p H" "b \<in> H" and xs: "lru (bprev s) (bnext s) xs"
  shows "\<exists>prv nxt. brelse b s = Ret () (s\<lparr>mc := settled (mc s),
      slocks := sunlocked b (slocks s), procs := awakened_all (ChSleepLock (BufLock b)) (Some p) (procs s),
      bufs := (bufs s)(b := (bufs s b)\<lparr>brefcnt := brefcnt (bufs s b) - 1\<rparr>), bprev := prv, bnext := nxt\<rparr>) \<and>
    lru prv nxt (if brefcnt (bufs s b) = 1 then b # remove1 b xs else xs)"
proof -
  have calm: "calm s p" using assms(1) by (rule opened_calm)
  have "b \<in> set xs" using xs openedD(1)[OF assms(1,2)] by (simp add: lru_def)
  then obtain ys zs where dec: "xs = ys @ b # zs" by (auto simp: in_set_conv_decomp)
  then have front: "lru (fst (to_front b (bprev s, bnext s))) (snd (to_front b (bprev s, bnext s))) (b # ys @ zs)"
    using to_front_lru[of "bprev s" "bnext s" ys b zs] xs by blast
  let ?ps = "awakened_all (ChSleepLock (BufLock b)) (Some p) (procs s)"
  let ?t = "s\<lparr>mc := settled (mc s), slocks := sunlocked b (slocks s), procs := ?ps\<rparr>"
  have h: "holdingsleep (BufLock b) s = Ret True (s\<lparr>mc := settled (mc s)\<rparr>)"
    using holdingsleep_run[OF calm] openedD[OF assms(1,2)] by simp
  have "releasesleep (BufLock b) (s\<lparr>mc := settled (mc s)\<rparr>) = Ret () ?t"
    using releasesleep_run[of "s\<lparr>mc := settled (mc s)\<rparr>" p "BufLock b"] calm by (simp add: sunlocked_def)
  moreover have "acquire BcacheLock ?t = Ret () (?t\<lparr>mc := acq BcacheLock (mc s)\<rparr>)"
    using calm by (simp add: acquire_free calm_def)
  moreover have "release BcacheLock u = Ret () (u\<lparr>mc := settled (mc s)\<rparr>)" if "mc u = acq BcacheLock (mc s)"
    for u :: "'a kbuf_scheme"
    using release_section[OF _ _ that] calm by (auto simp: calm_def)
  ultimately have br: "brelse b s = Ret () (s\<lparr>mc := settled (mc s),
      slocks := sunlocked b (slocks s), procs := ?ps,
      bufs := (bufs s)(b := (bufs s b)\<lparr>brefcnt := brefcnt (bufs s b) - 1\<rparr>),
      bprev := (if brefcnt (bufs s b) - 1 = 0 then fst (to_front b (bprev s, bnext s)) else bprev s),
      bnext := (if brefcnt (bufs s b) - 1 = 0 then snd (to_front b (bprev s, bnext s)) else bnext s)\<rparr>)"
    using h by (simp add: brelse_def getb_run run_simps to_front_def Let_def)
  have "remove1 b xs = ys @ zs" using dec xs by (simp add: lru_def remove1_append)
  then have "lru (if brefcnt (bufs s b) - 1 = 0 then fst (to_front b (bprev s, bnext s)) else bprev s)
      (if brefcnt (bufs s b) - 1 = 0 then snd (to_front b (bprev s, bnext s)) else bnext s)
      (if brefcnt (bufs s b) = 1 then b # remove1 b xs else xs)"
    using front xs by simp
  with br show ?thesis by blast
qed

end
