(* ===== verification/Bcache.thy ===== *)
theory Bcache
  imports Bio
begin

text \<open>
  The contract of the buffer cache: what \<open>brelse\<close>, \<open>bwrite\<close>, \<open>bpin\<close>, \<open>bunpin\<close>
  and a change of a locked buffer do to the contents and reference counts of the blocks.
\<close>

section \<open>Changing a buffer that is in use\<close>

text \<open>
  \<open>retouched s t b k\<close>: from \<open>s\<close> to \<open>t\<close> only buffer \<open>b\<close> has changed, to \<open>k\<close>, and
  it still is a valid buffer of the same block.
\<close>

lemma retouched:
  assumes o: "opened s p H" and b: "has s b n" "bvalid (bufs s b) \<noteq> 0"
    and t: "bufs t = (bufs s)(b := k)" "disk t = disk s" "bdev k = bdev (bufs s b)"
      "bblockno k = bblockno (bufs s b)" "bvalid k \<noteq> 0"
  shows "uniq t" "\<And>i m. has t i m = has s i m" "content t = (content s)(n := clip (bdata k))"
    "refs t = (refs s)(n := unat (brefcnt k))" "content s n = clip (bdata (bufs s b))"
    "refs s n = unat (brefcnt (bufs s b))"
proof -
  have ok: "bcache_ok s" using o by (rule opened_ok)
  have kb: "bdev k = ROOTDEV" "bblockno k = n" "b < NBUF" using b(1) t by (auto simp: has_def)
  note rec = recycled[OF ok t(1,2) kb(3,1,2) t(5) disjI1[OF b(1)]]
  show "uniq t" "content t = (content s)(n := clip (bdata k))" "refs t = (refs s)(n := unat (brefcnt k))"
    using rec(1,3,4) by simp_all
  show "has t i m = has s i m" for i m
    using rec(2)[of i m] b(1) by (cases "i = b") (auto simp: has_def)
  show "content s n = clip (bdata (bufs s b))" using content_hit[OF bcache_ok_uniq[OF ok] b] .
  show "refs s n = unat (brefcnt (bufs s b))" using refs_hit[OF bcache_ok_uniq[OF ok] b(1)] .
qed

lemma bcache_okI:
  assumes "bcache_ok s" "uniq t" "\<And>i m. has t i m = has s i m" "\<exists>xs. lru (bprev t) (bnext t) xs"
    "\<And>i. i \<noteq> b \<Longrightarrow> bufs t i = bufs s i" "has s b n" "\<And>m. m \<noteq> n \<Longrightarrow> disk t m = disk s m"
    "brefcnt (bufs t b) = 0 \<Longrightarrow> clip (bdata (bufs t b)) = clip (disk t n)"
  shows "bcache_ok t"
  unfolding bcache_ok_def
proof (intro conjI allI impI)
  fix i m
  assume a: "has t i m \<and> bvalid (bufs t i) \<noteq> 0 \<and> brefcnt (bufs t i) = 0"
  then have h: "has s i m" using assms(3) by simp
  show "clip (bdata (bufs t i)) = clip (disk t m)"
  proof (cases "i = b")
    case True
    with h assms(6) have "m = n" by (simp add: has_def)
    with True a assms(8) show ?thesis by simp
  next
    case False
    then have "m \<noteq> n" using h assms(6) has_unique[OF assms(1)] by blast
    with False a h assms(1,5,7) show ?thesis by (simp add: bcache_ok_def)
  qed
qed (use assms in simp_all)

lemma openedI:
  assumes "opened s p H" "calm t p" "bcache_ok t" "\<And>q. ppid (procs t q) = ppid (procs s q)" "H' \<subseteq> H"
    "\<And>i. i \<in> H' \<Longrightarrow> slocks t (BufLock i) = slocks s (BufLock i) \<and> brefcnt (bufs t i) \<noteq> 0 \<and> bvalid (bufs t i) \<noteq> 0"
    "\<And>i. i \<notin> H' \<Longrightarrow> sl_locked (slocks s (BufLock i)) = 0 \<or> i \<in> H \<Longrightarrow> i < NBUF \<Longrightarrow> sl_locked (slocks t (BufLock i)) = 0"
  shows "opened t p H'"
  unfolding opened_def
proof (intro conjI allI impI)
  show "calm t p" "bcache_ok t" using assms(2,3) by simp_all
  show "H' \<subseteq> {..<NBUF}" using assms(1,5) by (auto simp: opened_def)
  fix i assume i: "i < NBUF"
  show "if i \<in> H' then sl_locked (slocks t (BufLock i)) \<noteq> 0 \<and> sl_pid (slocks t (BufLock i)) = ppid (procs t p) \<and>
        brefcnt (bufs t i) \<noteq> 0 \<and> bvalid (bufs t i) \<noteq> 0
    else sl_locked (slocks t (BufLock i)) = 0"
  proof (cases "i \<in> H'")
    case True
    then have "i \<in> H" using assms(5) by blast
    from openedD[OF assms(1) this] True assms(4,6) show ?thesis by simp
  next
    case False
    have "sl_locked (slocks s (BufLock i)) = 0 \<or> i \<in> H" using assms(1) i by (auto simp: opened_def)
    with False assms(7) i show ?thesis by simp
  qed
qed

section \<open>The operations\<close>

lemma brelse_spec:
  assumes o: "opened s p H" and b: "b \<in> H" "has s b n"
    and clean: "refs s n = 1 \<Longrightarrow> content s n = clip (disk s n)"
  obtains t where "brelse b s = Ret () t" "opened t p (H - {b})" "content t = content s"
    "refs t = (refs s)(n := refs s n - 1)" "disk t = disk s" "dwrites t = dwrites s" "rest s t"
    "\<And>i. i \<noteq> b \<Longrightarrow> bufs t i = bufs s i" "busy t = busy s - of_bool (refs s n = 1)"
    "\<And>i m. has t i m = has s i m"
proof -
  define k where "k = (bufs s b)\<lparr>brefcnt := brefcnt (bufs s b) - 1\<rparr>"
  define ps where "ps = awakened_all (ChSleepLock (BufLock b)) (Some p) (procs s)"
  obtain xs where xs0: "lru (bprev s) (bnext s) xs" using opened_ok[OF o] by (auto simp: bcache_ok_def)
  then obtain prv nxt where r: "brelse b s = Ret () (s\<lparr>mc := settled (mc s), slocks := sunlocked b (slocks s),
      procs := ps, bufs := (bufs s)(b := k), bprev := prv, bnext := nxt\<rparr>)"
      and xs: "lru prv nxt (if brefcnt (bufs s b) = 1 then b # remove1 b xs else xs)"
    unfolding k_def ps_def using brelse_run[OF o b(1)] by blast
  define t where "t = s\<lparr>mc := settled (mc s), slocks := sunlocked b (slocks s),
      procs := ps, bufs := (bufs s)(b := k), bprev := prv, bnext := nxt\<rparr>"
  have t: "bufs t = (bufs s)(b := k)" "disk t = disk s" "dwrites t = dwrites s" "mc t = settled (mc s)"
    "slocks t = sunlocked b (slocks s)" "procs t = ps" "bprev t = prv" "bnext t = nxt"
    by (simp_all add: t_def)
  note od = openedD[OF o b(1)]
  have kf: "bdev k = bdev (bufs s b)" "bblockno k = bblockno (bufs s b)" "bvalid k \<noteq> 0" "bdata k = bdata (bufs s b)"
    "brefcnt k = brefcnt (bufs s b) - 1"
    using od(5) by (simp_all add: k_def)
  note re = retouched[OF o b(2) od(5) t(1,2) kf(1,2,3)]
  have un: "unat (brefcnt k) = refs s n - 1" using unat_minus_one[OF od(4)] re(6) kf(5) by simp
  have one: "brefcnt k = 0 \<longleftrightarrow> refs s n = 1"
    using un re(6) od(4) unat_eq_0[of "brefcnt k"] unat_eq_0[of "brefcnt (bufs s b)"] by auto
  have ok: "bcache_ok t"
    by (rule bcache_okI[OF opened_ok[OF o] re(1,2) _ _ b(2)])
      (use xs clean re(5) one kf(4) t in auto)
  have "opened t p (H - {b})"
    by (rule openedI[OF o])
      (use opened_calm[OF o] calm_cong[of t s p] ok od openedD[OF o] in \<open>auto simp: t ps_def sunlocked_def\<close>)
  moreover have "content t = content s" using re(3,5) kf(4) by (simp add: fun_upd_idem)
  moreover have "refs t = (refs s)(n := refs s n - 1)" using re(4) un by simp
  moreover have "rest s t" by (simp add: rest_def t_def ps_def sunlocked_def woken_all)
  moreover have "busy t = busy s - of_bool (refs s n = 1)"
    using busy_upd[OF t(1) od(1)] od(4) one by (cases "refs s n = 1") simp_all
  ultimately show thesis using that[of t] r re(2) t(1,2,3) by (simp add: t_def[symmetric])
qed

lemma edit_spec:
  assumes o: "opened s p H" and b: "b \<in> H" "has s b n"
  obtains t where "updb b (\<lambda>k. k\<lparr>bdata := f (bdata k)\<rparr>) s = Ret () t" "opened t p H"
    "content t = (content s)(n := clip (f (bdata (bufs s b))))" "refs t = refs s" "disk t = disk s"
    "dwrites t = dwrites s" "rest s t" "\<And>i. i \<noteq> b \<Longrightarrow> bufs t i = bufs s i" "busy t = busy s"
    "\<And>i m. has t i m = has s i m" "bdata (bufs t b) = f (bdata (bufs s b))"
proof -
  define k where "k = (bufs s b)\<lparr>bdata := f (bdata (bufs s b))\<rparr>"
  define t where "t = s\<lparr>bufs := (bufs s)(b := k)\<rparr>"
  have t: "bufs t = (bufs s)(b := k)" "disk t = disk s" "dwrites t = dwrites s" "mc t = mc s"
    "slocks t = slocks s" "procs t = procs s" "bprev t = bprev s" "bnext t = bnext s"
    by (simp_all add: t_def)
  note od = openedD[OF o b(1)]
  have kf: "bdev k = bdev (bufs s b)" "bblockno k = bblockno (bufs s b)" "bvalid k \<noteq> 0"
    "bdata k = f (bdata (bufs s b))" "brefcnt k = brefcnt (bufs s b)"
    using od(5) by (simp_all add: k_def)
  note re = retouched[OF o b(2) od(5) t(1,2) kf(1,2,3)]
  have ok: "bcache_ok t"
    by (rule bcache_okI[OF opened_ok[OF o] re(1,2) _ _ b(2)])
      (use opened_ok[OF o] od(4) kf t in \<open>auto simp: bcache_ok_def\<close>)
  have "calm t p" using opened_calm[OF o] by (simp add: t_def calm_def cur_def)
  then have "opened t p H"
    by (intro openedI[OF o]) (use ok od openedD[OF o] kf in \<open>auto simp: t\<close>)
  moreover have "busy t = busy s" using busy_upd[OF t(1) od(1)] kf(5) by simp
  moreover have "rest s t" by (simp add: rest_def t_def)
  moreover have "refs t = refs s" using re(4,6) kf(5) by (simp add: fun_upd_idem)
  moreover have "updb b (\<lambda>k. k\<lparr>bdata := f (bdata k)\<rparr>) s = Ret () t" by (simp add: getb_run t_def k_def)
  ultimately show thesis using that[of t] re(2,3) t(1,2,3) kf(4) by simp
qed

lemma count_spec:
  assumes o: "opened s p H" and b: "b \<in> H" "has s b n" and r: "r \<noteq> 0"
    and m: "m s = Ret () (s\<lparr>mc := settled (mc s), bufs := (bufs s)(b := (bufs s b)\<lparr>brefcnt := r\<rparr>)\<rparr>)"
  obtains t where "m s = Ret () t" "opened t p H" "content t = content s" "refs t = (refs s)(n := unat r)"
    "disk t = disk s" "dwrites t = dwrites s" "rest s t" "\<And>i. bdata (bufs t i) = bdata (bufs s i)" "busy t = busy s"
    "\<And>i m. has t i m = has s i m"
proof -
  define k where "k = (bufs s b)\<lparr>brefcnt := r\<rparr>"
  define t where "t = s\<lparr>mc := settled (mc s), bufs := (bufs s)(b := k)\<rparr>"
  have t: "bufs t = (bufs s)(b := k)" "disk t = disk s" "dwrites t = dwrites s" "mc t = settled (mc s)"
    "slocks t = slocks s" "procs t = procs s" "bprev t = bprev s" "bnext t = bnext s"
    by (simp_all add: t_def)
  note od = openedD[OF o b(1)]
  have kf: "bdev k = bdev (bufs s b)" "bblockno k = bblockno (bufs s b)" "bvalid k \<noteq> 0"
    "bdata k = bdata (bufs s b)" "brefcnt k = r"
    using od(5) by (simp_all add: k_def)
  note re = retouched[OF o b(2) od(5) t(1,2) kf(1,2,3)]
  have ok: "bcache_ok t"
    by (rule bcache_okI[OF opened_ok[OF o] re(1,2) _ _ b(2)])
      (use opened_ok[OF o] r kf t in \<open>auto simp: bcache_ok_def\<close>)
  have "calm t p" using opened_calm[OF o] calm_cong[of t s p] t(4) by simp
  then have "opened t p H"
    by (intro openedI[OF o]) (use ok od openedD[OF o] kf r in \<open>auto simp: t\<close>)
  moreover have "busy t = busy s" using busy_upd[OF t(1) od(1)] kf(5) od(4) r by simp
  moreover have "rest s t" by (simp add: rest_def t_def)
  moreover have "content t = content s" using re(3,5) kf(4) by (simp add: fun_upd_idem)
  moreover have "m s = Ret () t" by (simp add: m t_def k_def)
  moreover have "bdata (bufs t i) = bdata (bufs s i)" for i by (simp add: t(1) kf(4))
  ultimately show thesis using that[of t] re(2,4) t(1,2,3) kf(5) by simp
qed

lemma bpin_run:
  "calm s p \<Longrightarrow> bpin b s = Ret () (s\<lparr>mc := settled (mc s), bufs := (bufs s)(b := (bufs s b)\<lparr>brefcnt := brefcnt (bufs s b) + 1\<rparr>)\<rparr>)"
  by (auto simp: bpin_def calm_def acquire_free getb_run release_section)

lemma bunpin_run:
  "calm s p \<Longrightarrow> bunpin b s = Ret () (s\<lparr>mc := settled (mc s), bufs := (bufs s)(b := (bufs s b)\<lparr>brefcnt := brefcnt (bufs s b) - 1\<rparr>)\<rparr>)"
  by (auto simp: bunpin_def calm_def acquire_free getb_run release_section)

lemma bwrite_spec:
  assumes o: "opened s p H" and b: "b \<in> H" "has s b n"
  obtains t where "bwrite b s = Ret () t" "opened t p H" "content t = content s" "refs t = refs s"
    "disk t = (disk s)(n := bdata (bufs s b))" "dwrites t = dwrites s @ [(n, bdata (bufs s b))]" "rest s t"
    "bufs t = bufs s" "busy t = busy s" "\<And>i m. has t i m = has s i m"
proof -
  define t where "t = s\<lparr>mc := settled (mc s), disk := (disk s)(n := bdata (bufs s b)),
    dwrites := dwrites s @ [(n, bdata (bufs s b))]\<rparr>"
  have t: "bufs t = bufs s" "disk t = (disk s)(n := bdata (bufs s b))" "mc t = settled (mc s)"
    "slocks t = slocks s" "procs t = procs s" "bprev t = bprev s" "bnext t = bnext s"
    by (simp_all add: t_def)
  note od = openedD[OF o b(1)]
  have hs: "has t i m = has s i m" for i m by (simp add: has_def t)
  have u: "uniq t" using opened_ok[OF o] by (simp add: bcache_ok_def uniq_def hs)
  have "holdingsleep (BufLock b) s = Ret True (s\<lparr>mc := settled (mc s)\<rparr>)"
    using holdingsleep_run[OF opened_calm[OF o]] od by simp
  then have r: "bwrite b s = Ret () t"
    using b(2) by (simp add: bwrite_def virtio_disk_rw_def run_simps t_def has_def Let_def)
  have "content t m = content s m" for m
  proof (cases "m = n")
    case True
    have "content t n = clip (bdata (bufs t b))" by (rule content_hit[OF u]) (use hs b od t in auto)
    moreover have "content s n = clip (bdata (bufs s b))"
      by (rule content_hit[OF bcache_ok_uniq[OF opened_ok[OF o]] b(2) od(5)])
    ultimately show ?thesis using True t(1) by simp
  next
    case False
    then show ?thesis by (intro content_cong) (simp_all add: hs t)
  qed
  then have c: "content t = content s" by auto
  have ok: "bcache_ok t"
    by (rule bcache_okI[OF opened_ok[OF o] u hs _ _ b(2)])
      (use opened_ok[OF o] od(4) t in \<open>auto simp: bcache_ok_def\<close>)
  have "calm t p" using opened_calm[OF o] calm_cong[of t s p] t(3) by simp
  then have "opened t p H"
    by (intro openedI[OF o]) (use ok openedD[OF o] in \<open>auto simp: t\<close>)
  moreover have "refs t = refs s" by (intro ext refs_cong) (simp_all add: hs t)
  moreover have "busy t = busy s" by (simp add: busy_def t)
  moreover have "rest s t" by (simp add: rest_def t_def)
  ultimately show thesis using that[of t] r c t(1,2) hs by (simp add: t_def[symmetric]) (simp add: t_def)
qed

lemma unreferenced_clean:
  assumes "bcache_ok s" "refs s n = 0"
  shows "content s n = clip (disk s n)"
proof (cases "\<exists>i. has s i n \<and> bvalid (bufs s i) \<noteq> 0")
  case True
  then obtain i where i: "has s i n" "bvalid (bufs s i) \<noteq> 0" by blast
  with assms refs_hit[OF bcache_ok_uniq[OF assms(1)] i(1)] have "brefcnt (bufs s i) = 0"
    by (simp add: unat_eq_0)
  with i assms(1) content_hit[OF bcache_ok_uniq[OF assms(1)] i] show ?thesis by (simp add: bcache_ok_def)
next
  case False
  then show ?thesis by (intro content_miss) blast
qed

lemma binit_wp:
  "wp binit (\<lambda>_ t. lru (bprev t) (bnext t) (rev [0..<NBUF]) \<and> bufs t = bufs s \<and> disk t = disk s \<and>
     (\<forall>i < NBUF. sl_locked (slocks t (BufLock i)) = 0)) s"
proof -
  let ?I = "\<lambda>xs (ys :: nat list) t. chain (bprev t) (bnext t) BHead (map Buf (rev xs)) BHead \<and> bufs t = bufs s \<and>
     disk t = disk s \<and> (\<forall>i \<in> set xs. sl_locked (slocks t (BufLock i)) = 0)"
  show ?thesis
    unfolding binit_def initlock_def upd_lock_def wp_simps
  proof (rule wp_mono[OF wp_for_each_inv[where I = ?I]])
    fix xs b ys and t :: "'a kbuf_scheme"
    assume l: "[0..<NBUF] = xs @ b # ys" and I: "?I xs (b # ys) t"
    have "distinct (xs @ b # ys)" using l[symmetric] by simp
    then have "chain (((bprev t)(Buf b := BHead))(bnext t BHead := Buf b))
        (((bnext t)(Buf b := bnext t BHead))(BHead := Buf b)) BHead (Buf b # map Buf (rev xs)) BHead"
      using I by (intro chain_insert_front) (auto simp: distinct_map inj_on_def)
    then show "wp (bind (modify (\<lambda>s. s\<lparr>bnext := (bnext s)(Buf b := bnext s BHead)\<rparr>)) (\<lambda>_.
       bind (modify (\<lambda>s. s\<lparr>bprev := (bprev s)(Buf b := BHead)\<rparr>)) (\<lambda>_.
       bind (initsleeplock (BufLock b) ''buffer'') (\<lambda>_.
       bind (modify (\<lambda>s. s\<lparr>bprev := (bprev s)(bnext s BHead := Buf b)\<rparr>)) (\<lambda>_.
       modify (\<lambda>s. s\<lparr>bnext := (bnext s)(BHead := Buf b)\<rparr>)))))) (\<lambda>_. ?I (xs @ [b]) ys) t"
      using I by (simp add: wp_simps initsleeplock_def initlock_def upd_lock_def updsl_def)
  next
    fix t :: "'a kbuf_scheme"
    assume "?I [0..<NBUF] [] t"
    then show "lru (bprev t) (bnext t) (rev [0..<NBUF]) \<and> bufs t = bufs s \<and> disk t = disk s \<and>
        (\<forall>i<NBUF. sl_locked (slocks t (BufLock i)) = 0)"
      by (auto simp: lru_def)
  qed simp
qed

section \<open>Properties\<close>

text \<open>
  C12: \<open>binit\<close> links all buffers into one list, the last one first. After that the list always
  holds every buffer exactly once, and \<open>brelse\<close> moves a buffer whose last user is gone to the
  front and otherwise leaves the order alone: the pointers implement a list in order of last use.
\<close>

theorem brelse_recency_list:
  fixes s :: "'z kbuf_scheme"
  assumes "opened s p H" "b \<in> H" "lru (bprev s) (bnext s) xs"
  shows "(\<exists>t. binit (s0 :: 'z kbuf_scheme) = Ret () t \<and> lru (bprev t) (bnext t) (rev [0..<NBUF])) \<and>
    (\<exists>t. brelse b s = Ret () t \<and>
      lru (bprev t) (bnext t) (if brefcnt (bufs s b) = 1 then b # remove1 b xs else xs))"
proof
  show "\<exists>t. binit s0 = Ret () t \<and> lru (bprev t) (bnext t) (rev [0..<NBUF])"
    using binit_wp[of s0] by (auto simp: wp_iff)
  show "\<exists>t. brelse b s = Ret () t \<and>
      lru (bprev t) (bnext t) (if brefcnt (bufs s b) = 1 then b # remove1 b xs else xs)"
  proof -
    obtain prv nxt where "brelse b s = Ret () (s\<lparr>mc := settled (mc s),
        slocks := sunlocked b (slocks s), procs := awakened_all (ChSleepLock (BufLock b)) (Some p) (procs s),
        bufs := (bufs s)(b := (bufs s b)\<lparr>brefcnt := brefcnt (bufs s b) - 1\<rparr>), bprev := prv, bnext := nxt\<rparr>)"
      "lru prv nxt (if brefcnt (bufs s b) = 1 then b # remove1 b xs else xs)"
      using brelse_run[OF assms] by blast
    then show ?thesis by simp
  qed
qed

text \<open>
  C11: \<open>bread\<close> returns a buffer with the current contents of the block, locked by the caller,
  and with \<open>brelse\<close> leaves every block's contents, the reference counts and the disk as they
  were. It needs one unused buffer unless the block is cached already.
\<close>

theorem bread_brelse_block:
  assumes "opened s p {}" "(\<exists>i. has s i n) \<or> busy s < NBUF" "refs s n + 1 < 2 ^ 32"
  shows "\<exists>b t u. bread ROOTDEV n s = Ret b t \<and> opened t p {b} \<and> has t b n \<and>
    clip (bdata (bufs t b)) = content s n \<and> content t = content s \<and>
    brelse b t = Ret () u \<and> opened u p {} \<and> content u = content s \<and> refs u = refs s \<and> disk u = disk s \<and>
    dwrites u = dwrites s \<and> busy u = busy s"
proof -
  obtain b t where t: "bread ROOTDEV n s = Ret b t" "opened t p (insert b {})" "has t b n"
    "clip (bdata (bufs t b)) = content s n" "content t = content s" "refs t = (refs s)(n := refs s n + 1)"
    "disk t = disk s" "dwrites t = dwrites s" "busy t = busy s + of_bool (refs s n = 0)"
    by (rule bread_spec[OF assms(1) _ assms(2,3)]) auto
  have cl: "refs t n = 1 \<Longrightarrow> content t n = clip (disk t n)"
    using unreferenced_clean[OF opened_ok[OF assms(1)], of n] t(5,6,7) by simp
  obtain u where u: "brelse b t = Ret () u" "opened u p (insert b {} - {b})" "content u = content t"
    "refs u = (refs t)(n := refs t n - 1)" "disk u = disk t" "dwrites u = dwrites t"
    "busy u = busy t - of_bool (refs t n = 1)"
    by (rule brelse_spec[OF t(2) _ t(3) cl]) auto
  have "refs u = refs s" using u(4) t(6) by (simp add: fun_upd_idem)
  moreover have "opened t p {b}" "opened u p {}" using t(2) u(2) by simp_all
  moreover have "busy u = busy s" using u(7) t(6,9) by simp
  ultimately show ?thesis
    using t(1,3,4,5,7,8) u(1,3,5,6) by (intro exI[of _ b] exI[of _ t] exI[of _ u]) simp
qed

definition ex_kbuf :: kbuf where
  "ex_kbuf = kslp.extend ((ex_kslp 0)\<lparr>slocks := (\<lambda>_. \<lparr>sl_locked = 0, sl_name = [], sl_pid = 0\<rparr>)\<rparr>)
     \<lparr>bufs = (\<lambda>_. \<lparr>bvalid = 0, bdisk = 0, bdev = 0, bblockno = 0, brefcnt = 0, bdata = (\<lambda>_. 0)\<rparr>),
      bprev = (\<lambda>r. case r of BHead \<Rightarrow> Buf 0 | Buf i \<Rightarrow> if i = 29 then BHead else Buf (i + 1)),
      bnext = (\<lambda>r. case r of BHead \<Rightarrow> Buf 29 | Buf i \<Rightarrow> if i = 0 then BHead else Buf (i - 1)),
      disk = (\<lambda>n i. ucast n), dwrites = []\<rparr>"

lemma ex_kbuf_lru: "lru (bprev ex_kbuf) (bnext ex_kbuf) (rev [0..<NBUF])"
proof -
  have "chain (bprev ex_kbuf) (bnext ex_kbuf) BHead (map Buf (rev [0..<30])) BHead"
    by (simp add: ex_kbuf_def kslp.defs upt_rec)
  then show ?thesis by (auto simp: lru_def NBUF_def MAXOPBLOCKS_def)
qed

lemma ex_kbuf_simps [simp]: "\<not> has ex_kbuf i n" "busy ex_kbuf = 0" "refs ex_kbuf n = 0"
  "sl_locked (slocks ex_kbuf (BufLock i)) = 0"
proof -
  show h: "\<not> has ex_kbuf i n" for i n by (simp add: has_def ex_kbuf_def kslp.defs ROOTDEV_def)
  show "refs ex_kbuf n = 0" by (rule refs_miss) (rule h)
qed (simp_all add: busy_def ex_kbuf_def kslp.defs)

lemma ex_kbuf_opened: "opened ex_kbuf 0 {}"
proof -
  have "calm ex_kbuf 0" using ex_kslp_simps(1)[of 0] by (simp add: calm_def cur_def ex_kbuf_def kslp.defs)
  moreover have "bcache_ok ex_kbuf" using ex_kbuf_lru by (auto simp: bcache_ok_def uniq_def)
  ultimately show ?thesis by (simp add: opened_def)
qed

theorem bread_brelse_block_witness:
  "\<exists>b t u. bread ROOTDEV 5 ex_kbuf = Ret b t \<and> clip (bdata (bufs t b)) = clip (\<lambda>_. 5) \<and> brelse b t = Ret () u \<and>
     opened u 0 {}"
proof -
  have "content ex_kbuf 5 = clip (\<lambda>_. 5)"
    using content_miss[of ex_kbuf 5] by (simp add: ex_kbuf_def kslp.defs)
  then show ?thesis
    using bread_brelse_block[OF ex_kbuf_opened, of 5] by (auto simp: NBUF_def MAXOPBLOCKS_def)
qed

text \<open>The same state with buffer 3 in use by the running process.\<close>

definition ex_kbuf_held :: kbuf where
  "ex_kbuf_held = ex_kbuf\<lparr>bufs := (bufs ex_kbuf)(3 := (bufs ex_kbuf 3)\<lparr>bdev := ROOTDEV, bvalid := 1, brefcnt := 1\<rparr>),
     slocks := slocked 3 1 (slocks ex_kbuf)\<rparr>"

lemma ex_kbuf_held_opened: "opened ex_kbuf_held 0 {3}" "lru (bprev ex_kbuf_held) (bnext ex_kbuf_held) (rev [0..<NBUF])"
proof -
  have calm: "calm ex_kbuf_held 0" using ex_kslp_simps(1)[of 0]
    by (simp add: calm_def cur_def ex_kbuf_held_def ex_kbuf_def kslp.defs)
  have h: "has ex_kbuf_held i n \<longleftrightarrow> i = 3 \<and> n = 0" for i n
    by (auto simp: has_def ex_kbuf_held_def ex_kbuf_def kslp.defs ROOTDEV_def NBUF_def MAXOPBLOCKS_def)
  show l: "lru (bprev ex_kbuf_held) (bnext ex_kbuf_held) (rev [0..<NBUF])"
    using ex_kbuf_lru by (simp add: ex_kbuf_held_def)
  have "bcache_ok ex_kbuf_held"
    unfolding bcache_ok_def uniq_def h using l by (auto simp: ex_kbuf_held_def)
  with calm show "opened ex_kbuf_held 0 {3}"
    by (auto simp: opened_def slocked_def ex_kbuf_held_def NBUF_def MAXOPBLOCKS_def ex_kbuf_def ex_kslp_def
        kslp.defs kproc.defs ex_kproc_def kio.defs)
qed

theorem brelse_recency_list_witness:
  "\<exists>t. brelse 3 ex_kbuf_held = Ret () t \<and> lru (bprev t) (bnext t) (3 # remove1 3 (rev [0..<NBUF]))"
proof -
  have "brefcnt (bufs ex_kbuf_held 3) = 1" by (simp add: ex_kbuf_held_def)
  then show ?thesis
    using brelse_recency_list[OF ex_kbuf_held_opened(1) _ ex_kbuf_held_opened(2), of 3 ex_kbuf] by auto
qed

end
