(* ===== verification/Log.thy ===== *)
theory Log
  imports Bcache
begin

text \<open>
  The write-ahead log (\<open>kernel/log.c\<close>). The state of \<open>struct log\<close> and of its header is
  part of the kernel's record; block numbers are \<open>int\<close>s that are converted to \<open>uint\<close> when
  they are handed to the cache, as in the code. Writing past the end of \<open>lh.block\<close> is
  undefined behaviour.
\<close>

section \<open>State\<close>

record superblock =
  sb_magic :: u32
  sb_size :: u32
  sb_nblocks :: u32
  sb_ninodes :: u32
  sb_nlog :: u32
  sb_logstart :: u32
  sb_inodestart :: u32
  sb_bmapstart :: u32

record klog = kbuf +
  log_start :: int
  log_size :: int
  outstanding :: int
  committing :: int
  log_dev :: int
  lh_n :: int
  lh_block :: "nat \<Rightarrow> int"

definition to_int :: "u32 \<Rightarrow> int" where
  "to_int w = sint w"

definition log_blkno :: "int \<Rightarrow> int \<Rightarrow> u32" where
  "log_blkno start tail = of_int (start + tail + 1)"

section \<open>Operations\<close>

text \<open>\<open>memmove(dst->data, src->data, BSIZE)\<close> between two buffers.\<close>

definition copy_block :: "cstr \<Rightarrow> cstr \<Rightarrow> cstr" where
  "copy_block dst src = (\<lambda>i. if i < BSIZE then src i else dst i)"

definition install_trans :: "int \<Rightarrow> ('z klog_scheme, unit) prog" where
  "install_trans recovering =
     bind (gets lh_n) (\<lambda>n.
     for_each [0..<nat n] (\<lambda>tail.
       bind (gets (\<lambda>s. (log_dev s, log_start s, lh_block s tail))) (\<lambda>(dev, start, home).
       bind (bread (of_int dev) (log_blkno start (int tail))) (\<lambda>lbuf.
       bind (bread (of_int dev) (of_int home)) (\<lambda>dbuf.
       bind (getb lbuf bdata) (\<lambda>src.
       bind (updb dbuf (\<lambda>k. k\<lparr>bdata := copy_block (bdata k) src\<rparr>)) (\<lambda>_.
       bind (bwrite dbuf) (\<lambda>_.
       bind (only_if (recovering = 0) (bunpin dbuf)) (\<lambda>_.
       bind (brelse lbuf) (\<lambda>_.
       brelse dbuf))))))))))"

text \<open>\<open>struct logheader\<close>: \<open>n\<close> at offset 0, \<open>block[i]\<close> at offset \<open>4 + 4 * i\<close>.\<close>

definition head_n :: "cstr \<Rightarrow> int" where
  "head_n d = to_int (get32 d 0)"

definition head_block :: "cstr \<Rightarrow> nat \<Rightarrow> int" where
  "head_block d i = to_int (get32 d (4 + 4 * i))"

definition read_head :: "('z klog_scheme, unit) prog" where
  "read_head =
     bind (gets (\<lambda>s. (log_dev s, log_start s))) (\<lambda>(dev, start).
     bind (bread (of_int dev) (of_int start)) (\<lambda>b.
     bind (getb b bdata) (\<lambda>d.
     bind (modify (\<lambda>s. s\<lparr>lh_n := head_n d\<rparr>)) (\<lambda>_.
     if int LOGSIZE < head_n d then undefined_behaviour
     else bind (modify (\<lambda>s. s\<lparr>lh_block := (\<lambda>i. if int i < head_n d then head_block d i else lh_block s i)\<rparr>)) (\<lambda>_.
     brelse b)))))"

fun put_blocks :: "nat \<Rightarrow> (nat \<Rightarrow> int) \<Rightarrow> cstr \<Rightarrow> cstr" where
  "put_blocks 0 bl d = d"
| "put_blocks (Suc i) bl d = put32 (put_blocks i bl d) (4 + 4 * i) (of_int (bl i))"

definition write_head :: "('z klog_scheme, unit) prog" where
  "write_head =
     bind (gets (\<lambda>s. (log_dev s, log_start s))) (\<lambda>(dev, start).
     bind (bread (of_int dev) (of_int start)) (\<lambda>b.
     bind (gets (\<lambda>s. (lh_n s, lh_block s))) (\<lambda>(n, bl).
     bind (updb b (\<lambda>k. k\<lparr>bdata := put_blocks (nat n) bl (put32 (bdata k) 0 (of_int n))\<rparr>)) (\<lambda>_.
     bind (bwrite b) (\<lambda>_.
     brelse b)))))"

definition recover_from_log :: "('z klog_scheme, unit) prog" where
  "recover_from_log =
     bind read_head (\<lambda>_.
     bind (install_trans 1) (\<lambda>_.
     bind (modify (\<lambda>s. s\<lparr>lh_n := 0\<rparr>)) (\<lambda>_.
     write_head)))"

definition initlog :: "int \<Rightarrow> superblock \<Rightarrow> ('z klog_scheme, unit) prog" where
  "initlog dev sb =
     (if 4 + 4 * LOGSIZE \<ge> BSIZE then panic ''initlog: too big logheader''
      else bind (initlock LogLock ''log'') (\<lambda>_.
      bind (modify (\<lambda>s. s\<lparr>log_start := to_int (sb_logstart sb), log_size := to_int (sb_nlog sb), log_dev := dev\<rparr>)) (\<lambda>_.
      recover_from_log)))"

definition begin_op :: "('z klog_scheme, unit) prog" where
  "begin_op =
     bind (acquire LogLock) (\<lambda>_.
     bind (gets (\<lambda>s. (committing s, lh_n s, outstanding s))) (\<lambda>(com, n, out).
     if com \<noteq> 0 then sleep ChLog LogLock
     else if n + (out + 1) * int MAXOPBLOCKS > int LOGSIZE then sleep ChLog LogLock
     else bind (modify (\<lambda>s. s\<lparr>outstanding := outstanding s + 1\<rparr>)) (\<lambda>_.
     release LogLock)))"

definition write_log :: "('z klog_scheme, unit) prog" where
  "write_log =
     bind (gets lh_n) (\<lambda>n.
     for_each [0..<nat n] (\<lambda>tail.
       bind (gets (\<lambda>s. (log_dev s, log_start s, lh_block s tail))) (\<lambda>(dev, start, home).
       bind (bread (of_int dev) (log_blkno start (int tail))) (\<lambda>to.
       bind (bread (of_int dev) (of_int home)) (\<lambda>from.
       bind (getb from bdata) (\<lambda>src.
       bind (updb to (\<lambda>k. k\<lparr>bdata := copy_block (bdata k) src\<rparr>)) (\<lambda>_.
       bind (bwrite to) (\<lambda>_.
       bind (brelse from) (\<lambda>_.
       brelse to)))))))))"

definition commit :: "('z klog_scheme, unit) prog" where
  "commit =
     bind (gets lh_n) (\<lambda>n.
     only_if (n > 0)
       (bind write_log (\<lambda>_.
        bind write_head (\<lambda>_.
        bind (install_trans 0) (\<lambda>_.
        bind (modify (\<lambda>s. s\<lparr>lh_n := 0\<rparr>)) (\<lambda>_.
        write_head))))))"

definition end_op :: "('z klog_scheme, unit) prog" where
  "end_op =
     bind (acquire LogLock) (\<lambda>_.
     bind (modify (\<lambda>s. s\<lparr>outstanding := outstanding s - 1\<rparr>)) (\<lambda>_.
     bind (gets (\<lambda>s. (committing s, outstanding s))) (\<lambda>(com, out).
     if com \<noteq> 0 then panic ''log.committing''
     else bind (if out = 0 then modify (\<lambda>s. s\<lparr>committing := 1\<rparr>) else wakeup ChLog) (\<lambda>_.
     bind (release LogLock) (\<lambda>_.
     only_if (out = 0)
       (bind commit (\<lambda>_.
        bind (acquire LogLock) (\<lambda>_.
        bind (modify (\<lambda>s. s\<lparr>committing := 0\<rparr>)) (\<lambda>_.
        bind (wakeup ChLog) (\<lambda>_.
        release LogLock))))))))))"

text \<open>The first slot of the header that has the block, or the slot after the last one.\<close>

fun log_slot :: "(nat \<Rightarrow> int) \<Rightarrow> u32 \<Rightarrow> nat \<Rightarrow> nat \<Rightarrow> nat" where
  "log_slot bl blockno 0 i = i"
| "log_slot bl blockno (Suc n) i =
     (if of_int (bl i) = blockno then i else log_slot bl blockno n (Suc i))"

definition log_write :: "nat \<Rightarrow> ('z klog_scheme, unit) prog" where
  "log_write b =
     bind (acquire LogLock) (\<lambda>_.
     bind (gets (\<lambda>s. (lh_n s, log_size s, outstanding s))) (\<lambda>(n, sz, out).
     if n \<ge> int LOGSIZE \<or> n \<ge> sz - 1 then panic ''too big a transaction''
     else if out < 1 then panic ''log_write outside of trans''
     else bind (gets (\<lambda>s. log_slot (lh_block s) (bblockno (bufs s b)) (nat n) 0)) (\<lambda>i.
     bind (modify (\<lambda>s. s\<lparr>lh_block := (lh_block s)(i := to_int (bblockno (bufs s b)))\<rparr>)) (\<lambda>_.
     bind (only_if (int i = n)
       (bind (bpin b) (\<lambda>_. modify (\<lambda>s. s\<lparr>lh_n := lh_n s + 1\<rparr>)))) (\<lambda>_.
     release LogLock)))))"

end
