(* ===== verification/Fs.thy ===== *)
theory Fs
  imports Log
begin

text \<open>
  The file system (\<open>kernel/fs.c\<close>, \<open>kernel/fs.h\<close>, the inode part of
  \<open>kernel/file.h\<close>): blocks, inodes, directories and path names.

  An in-memory inode is its index in \<open>itable.inode[NINODE]\<close>; a null \<open>struct inode *\<close>
  is \<open>None\<close>. Structures on disk (\<open>struct superblock\<close>, \<open>struct dinode\<close>, \<open>struct
  dirent\<close>) are read from and written to the bytes of a block at the offsets the compiler
  gives them. A path is the list of the bytes before its NUL. A kernel address handed to
  \<open>readi\<close> or \<open>writei\<close> is an offset into the object \<open>kb\<close> that the caller passes.
\<close>

section \<open>Layout and state\<close>

definition ROOTINO :: u32 where
  "ROOTINO = 1"

definition FSMAGIC :: u32 where
  "FSMAGIC = 0x10203040"

definition NDIRECT :: nat where
  "NDIRECT = 12"

definition NINDIRECT :: nat where
  "NINDIRECT = BSIZE div 4"

definition MAXFILE :: nat where
  "MAXFILE = NDIRECT + NINDIRECT"

definition IPB :: nat where
  "IPB = BSIZE div 64"

definition BPB :: nat where
  "BPB = BSIZE * 8"

definition DIRSIZ :: nat where
  "DIRSIZ = 14"

definition T_DIR :: u16 where
  "T_DIR = 1"

definition T_FILE :: u16 where
  "T_FILE = 2"

definition T_DEVICE :: u16 where
  "T_DEVICE = 3"

definition IBLOCK :: "u32 \<Rightarrow> superblock \<Rightarrow> u32" where
  "IBLOCK i sb = i div of_nat IPB + sb_inodestart sb"

definition BBLOCK :: "u32 \<Rightarrow> superblock \<Rightarrow> u32" where
  "BBLOCK b sb = b div of_nat BPB + sb_bmapstart sb"

text \<open>\<open>short\<close> fields are kept as words and read as signed numbers where the code compares them.\<close>

record inode =
  idev :: u32
  inum :: u32
  iref :: int
  ivalid :: int
  itype :: u16
  imajor :: u16
  iminor :: u16
  inlink :: u16
  isize :: u32
  iaddrs :: "nat \<Rightarrow> u32"

record kfs = klog +
  fs_sb :: superblock
  inodes :: "nat \<Rightarrow> inode"

definition geti :: "nat \<Rightarrow> (inode \<Rightarrow> 'a) \<Rightarrow> ('z kfs_scheme, 'a) prog" where
  "geti ip f = gets (\<lambda>s. f (inodes s ip))"

definition updi :: "nat \<Rightarrow> (inode \<Rightarrow> inode) \<Rightarrow> ('z kfs_scheme, unit) prog" where
  "updi ip f = modify (\<lambda>s. s\<lparr>inodes := (inodes s)(ip := f (inodes s ip))\<rparr>)"

text \<open>\<open>struct dinode\<close>: 64 bytes; inode \<open>n\<close> of a block starts at \<open>64 * (n % IPB)\<close>.\<close>

definition dip_off :: "u32 \<Rightarrow> nat" where
  "dip_off n = 64 * (unat n mod IPB)"

definition read_dinode :: "cstr \<Rightarrow> nat \<Rightarrow> inode \<Rightarrow> inode" where
  "read_dinode d o' k = k\<lparr>itype := get16 d o', imajor := get16 d (o' + 2), iminor := get16 d (o' + 4),
     inlink := get16 d (o' + 6), isize := get32 d (o' + 8),
     iaddrs := (\<lambda>i. if i \<le> NDIRECT then get32 d (o' + 12 + 4 * i) else iaddrs k i)\<rparr>"

fun put_addrs :: "nat \<Rightarrow> (nat \<Rightarrow> u32) \<Rightarrow> nat \<Rightarrow> cstr \<Rightarrow> cstr" where
  "put_addrs 0 a o' d = d"
| "put_addrs (Suc i) a o' d = put32 (put_addrs i a o' d) (o' + 12 + 4 * i) (a i)"

definition write_dinode :: "inode \<Rightarrow> nat \<Rightarrow> cstr \<Rightarrow> cstr" where
  "write_dinode k o' d =
     put_addrs (NDIRECT + 1) (iaddrs k) o'
       (put32 (put16 (put16 (put16 (put16 d o' (itype k)) (o' + 2) (imajor k)) (o' + 4) (iminor k))
          (o' + 6) (inlink k)) (o' + 8) (isize k))"

section \<open>Super block\<close>

definition readsb :: "int \<Rightarrow> ('z kfs_scheme, unit) prog" where
  "readsb dev =
     bind (bread (of_int dev) 1) (\<lambda>bp.
     bind (getb bp bdata) (\<lambda>d.
     bind (modify (\<lambda>s. s\<lparr>fs_sb := \<lparr>sb_magic = get32 d 0, sb_size = get32 d 4, sb_nblocks = get32 d 8,
       sb_ninodes = get32 d 12, sb_nlog = get32 d 16, sb_logstart = get32 d 20,
       sb_inodestart = get32 d 24, sb_bmapstart = get32 d 28\<rparr>\<rparr>)) (\<lambda>_.
     brelse bp)))"

definition fsinit :: "int \<Rightarrow> ('z kfs_scheme, unit) prog" where
  "fsinit dev =
     bind (readsb dev) (\<lambda>_.
     bind (gets fs_sb) (\<lambda>sb.
     if sb_magic sb \<noteq> FSMAGIC then panic ''invalid file system''
     else initlog dev sb))"

section \<open>Blocks\<close>

definition bzero :: "int \<Rightarrow> int \<Rightarrow> ('z kfs_scheme, unit) prog" where
  "bzero dev bno =
     bind (bread (of_int dev) (of_int bno)) (\<lambda>bp.
     bind (updb bp (\<lambda>k. k\<lparr>bdata := (\<lambda>i. if i < BSIZE then 0 else bdata k i)\<rparr>)) (\<lambda>_.
     bind (log_write bp) (\<lambda>_.
     brelse bp)))"

definition bit_mask :: "nat \<Rightarrow> u8" where
  "bit_mask bi = push_bit (bi mod 8) 1"

definition bit_free :: "cstr \<Rightarrow> nat \<Rightarrow> bool" where
  "bit_free d bi \<longleftrightarrow> d (bi div 8) AND bit_mask bi = 0"

text \<open>
  The inner loop of \<open>balloc\<close>: the first clear bit of the block, of those that stand for
  blocks of the file system. The outer loop visits \<open>b = 0, BPB, 2 * BPB, ...\<close> below
  \<open>sb.size\<close>.
\<close>

fun first_free :: "cstr \<Rightarrow> nat list \<Rightarrow> nat option" where
  "first_free d [] = None"
| "first_free d (bi # bis) = (if bit_free d bi then Some bi else first_free d bis)"

definition balloc :: "u32 \<Rightarrow> ('z kfs_scheme, u32) prog" where
  "balloc dev =
     bind (gets (\<lambda>s. unat (sb_size (fs_sb s)))) (\<lambda>sz.
     bind (for_until [0..<(sz + BPB - 1) div BPB] (\<lambda>k.
       let b = k * BPB in
       bind (gets (\<lambda>s. BBLOCK (of_nat b) (fs_sb s))) (\<lambda>bb.
       bind (bread dev bb) (\<lambda>bp.
       bind (getb bp (\<lambda>u. first_free (bdata u) [0..<min BPB (sz - b)])) (\<lambda>r.
       case r of
         Some bi \<Rightarrow>
           bind (updb bp (\<lambda>u. u\<lparr>bdata := (bdata u)(bi div 8 := bdata u (bi div 8) OR bit_mask bi)\<rparr>)) (\<lambda>_.
           bind (log_write bp) (\<lambda>_.
           bind (brelse bp) (\<lambda>_.
           bind (bzero (uint dev) (int (b + bi))) (\<lambda>_.
           ret (Some (of_nat (b + bi)))))))
       | None \<Rightarrow> bind (brelse bp) (\<lambda>_. ret None)))))) (\<lambda>r.
     case r of
       Some a \<Rightarrow> ret a
     | None \<Rightarrow> bind (printf (''balloc: out of blocks'' @ [CHR 0x0A]) []) (\<lambda>_. ret 0)))"

definition bfree :: "int \<Rightarrow> u32 \<Rightarrow> ('z kfs_scheme, unit) prog" where
  "bfree dev b =
     bind (gets (\<lambda>s. BBLOCK b (fs_sb s))) (\<lambda>bb.
     bind (bread (of_int dev) bb) (\<lambda>bp.
     let bi = unat b mod BPB in
     bind (getb bp bdata) (\<lambda>d.
     if bit_free d bi then panic ''freeing free block''
     else bind (updb bp (\<lambda>u. u\<lparr>bdata := (bdata u)(bi div 8 := bdata u (bi div 8) AND NOT (bit_mask bi))\<rparr>)) (\<lambda>_.
     bind (log_write bp) (\<lambda>_.
     brelse bp)))))"

section \<open>Inodes\<close>

definition iinit :: "('z kfs_scheme, unit) prog" where
  "iinit =
     bind (initlock ItableLock ''itable'') (\<lambda>_.
     for_each [0..<NINODE] (\<lambda>i. initsleeplock (InodeLock i) ''inode''))"

text \<open>
  The search of \<open>iget\<close>: \<open>Inl\<close> the entry that holds the inode, or \<open>Inr\<close> the first free
  entry, if there is one.
\<close>

fun iget_scan :: "(nat \<Rightarrow> inode) \<Rightarrow> u32 \<Rightarrow> u32 \<Rightarrow> nat list \<Rightarrow> nat option \<Rightarrow> nat + nat option" where
  "iget_scan tab dev n [] vacant = Inr vacant"
| "iget_scan tab dev n (ip # ips) vacant =
     (if iref (tab ip) > 0 \<and> idev (tab ip) = dev \<and> inum (tab ip) = n then Inl ip
      else iget_scan tab dev n ips
        (if vacant = None \<and> iref (tab ip) = 0 then Some ip else vacant))"

definition iget :: "u32 \<Rightarrow> u32 \<Rightarrow> ('z kfs_scheme, nat) prog" where
  "iget dev n =
     bind (acquire ItableLock) (\<lambda>_.
     bind (gets (\<lambda>s. iget_scan (inodes s) dev n [0..<NINODE] None)) (\<lambda>r.
     case r of
       Inl ip \<Rightarrow>
         bind (updi ip (\<lambda>k. k\<lparr>iref := iref k + 1\<rparr>)) (\<lambda>_.
         bind (release ItableLock) (\<lambda>_.
         ret ip))
     | Inr None \<Rightarrow> panic ''iget: no inodes''
     | Inr (Some ip) \<Rightarrow>
         bind (updi ip (\<lambda>k. k\<lparr>idev := dev, inum := n, iref := 1, ivalid := 0\<rparr>)) (\<lambda>_.
         bind (release ItableLock) (\<lambda>_.
         ret ip))))"

definition ialloc :: "u32 \<Rightarrow> u16 \<Rightarrow> ('z kfs_scheme, nat option) prog" where
  "ialloc dev type =
     bind (gets (\<lambda>s. unat (sb_ninodes (fs_sb s)))) (\<lambda>ni.
     bind (for_until [1..<ni] (\<lambda>n.
       bind (gets (\<lambda>s. IBLOCK (of_nat n) (fs_sb s))) (\<lambda>ib.
       bind (bread dev ib) (\<lambda>bp.
       let dip = dip_off (of_nat n) in
       bind (getb bp (\<lambda>u. get16 (bdata u) dip)) (\<lambda>ty.
       if ty = 0
       then bind (updb bp (\<lambda>u. u\<lparr>bdata :=
                put16 (\<lambda>i. if dip \<le> i \<and> i < dip + 64 then 0 else bdata u i) dip type\<rparr>)) (\<lambda>_.
            bind (log_write bp) (\<lambda>_.
            bind (brelse bp) (\<lambda>_.
            bind (iget dev (of_nat n)) (\<lambda>ip.
            ret (Some ip)))))
       else bind (brelse bp) (\<lambda>_. ret None)))))) (\<lambda>r.
     case r of
       Some ip \<Rightarrow> ret (Some ip)
     | None \<Rightarrow> bind (printf (''ialloc: no inodes'' @ [CHR 0x0A]) []) (\<lambda>_. ret None)))"

definition iupdate :: "nat \<Rightarrow> ('z kfs_scheme, unit) prog" where
  "iupdate ip =
     bind (gets (\<lambda>s. (idev (inodes s ip), inum (inodes s ip), IBLOCK (inum (inodes s ip)) (fs_sb s)))) (\<lambda>(dev, n, ib).
     bind (bread dev ib) (\<lambda>bp.
     bind (geti ip id) (\<lambda>k.
     bind (updb bp (\<lambda>u. u\<lparr>bdata := write_dinode k (dip_off n) (bdata u)\<rparr>)) (\<lambda>_.
     bind (log_write bp) (\<lambda>_.
     brelse bp)))))"

definition idup :: "nat \<Rightarrow> ('z kfs_scheme, nat) prog" where
  "idup ip =
     bind (acquire ItableLock) (\<lambda>_.
     bind (updi ip (\<lambda>k. k\<lparr>iref := iref k + 1\<rparr>)) (\<lambda>_.
     bind (release ItableLock) (\<lambda>_.
     ret ip)))"

text \<open>Code that dereferences an inode pointer without a test; a null pointer faults.\<close>

definition the_inode :: "nat option \<Rightarrow> ('s, nat) prog" where
  "the_inode r = (case r of None \<Rightarrow> panic ''null inode'' | Some ip \<Rightarrow> ret ip)"

definition ilock :: "nat option \<Rightarrow> ('z kfs_scheme, unit) prog" where
  "ilock r =
     (case r of
        None \<Rightarrow> panic ''ilock''
      | Some ip \<Rightarrow>
          bind (geti ip iref) (\<lambda>n.
          if n < 1 then panic ''ilock''
          else bind (acquiresleep (InodeLock ip)) (\<lambda>_.
          bind (geti ip ivalid) (\<lambda>v.
          only_if (v = 0)
            (bind (gets (\<lambda>s. (idev (inodes s ip), inum (inodes s ip), IBLOCK (inum (inodes s ip)) (fs_sb s)))) (\<lambda>(dev, n, ib).
             bind (bread dev ib) (\<lambda>bp.
             bind (getb bp bdata) (\<lambda>d.
             bind (updi ip (read_dinode d (dip_off n))) (\<lambda>_.
             bind (brelse bp) (\<lambda>_.
             bind (updi ip (\<lambda>k. k\<lparr>ivalid := 1\<rparr>)) (\<lambda>_.
             bind (geti ip itype) (\<lambda>ty.
             if ty = 0 then panic ''ilock: no type'' else ret ())))))))))))
     )"

definition iunlock :: "nat option \<Rightarrow> ('z kfs_scheme, unit) prog" where
  "iunlock r =
     (case r of
        None \<Rightarrow> panic ''iunlock''
      | Some ip \<Rightarrow>
          bind (holdingsleep (InodeLock ip)) (\<lambda>h.
          bind (geti ip iref) (\<lambda>n.
          if \<not> h \<or> n < 1 then panic ''iunlock''
          else releasesleep (InodeLock ip))))"

definition bmap :: "nat \<Rightarrow> u32 \<Rightarrow> ('z kfs_scheme, u32) prog" where
  "bmap ip bn =
     (if unat bn < NDIRECT
      then bind (geti ip (\<lambda>k. (idev k, iaddrs k (unat bn)))) (\<lambda>(dev, a).
           if a = 0
           then bind (balloc dev) (\<lambda>a.
                if a = 0 then ret 0
                else bind (updi ip (\<lambda>k. k\<lparr>iaddrs := (iaddrs k)(unat bn := a)\<rparr>)) (\<lambda>_. ret a))
           else ret a)
      else let bn = unat bn - NDIRECT in
      if bn < NINDIRECT
      then bind (geti ip (\<lambda>k. (idev k, iaddrs k NDIRECT))) (\<lambda>(dev, a).
           bind (if a = 0
                 then bind (balloc dev) (\<lambda>a.
                      if a = 0 then ret 0
                      else bind (updi ip (\<lambda>k. k\<lparr>iaddrs := (iaddrs k)(NDIRECT := a)\<rparr>)) (\<lambda>_. ret a))
                 else ret a) (\<lambda>a.
           if a = 0 then ret 0
           else bind (bread dev a) (\<lambda>bp.
                bind (getb bp (\<lambda>u. get32 (bdata u) (4 * bn))) (\<lambda>e.
                bind (if e = 0
                      then bind (balloc dev) (\<lambda>e.
                           bind (only_if (e \<noteq> 0)
                             (bind (updb bp (\<lambda>u. u\<lparr>bdata := put32 (bdata u) (4 * bn) e\<rparr>)) (\<lambda>_.
                              log_write bp))) (\<lambda>_.
                           ret e))
                      else ret e) (\<lambda>e.
                bind (brelse bp) (\<lambda>_.
                ret e))))))
      else panic ''bmap: out of range'')"

definition itrunc :: "nat \<Rightarrow> ('z kfs_scheme, unit) prog" where
  "itrunc ip =
     bind (for_each [0..<NDIRECT] (\<lambda>i.
       bind (geti ip (\<lambda>k. (idev k, iaddrs k i))) (\<lambda>(dev, a).
       only_if (a \<noteq> 0)
         (bind (bfree (uint dev) a) (\<lambda>_.
          updi ip (\<lambda>k. k\<lparr>iaddrs := (iaddrs k)(i := 0)\<rparr>)))))) (\<lambda>_.
     bind (geti ip (\<lambda>k. (idev k, iaddrs k NDIRECT))) (\<lambda>(dev, ind).
     bind (only_if (ind \<noteq> 0)
       (bind (bread dev ind) (\<lambda>bp.
        bind (for_each [0..<NINDIRECT] (\<lambda>j.
          bind (getb bp (\<lambda>u. get32 (bdata u) (4 * j))) (\<lambda>a.
          only_if (a \<noteq> 0) (bfree (uint dev) a)))) (\<lambda>_.
        bind (brelse bp) (\<lambda>_.
        bind (bfree (uint dev) ind) (\<lambda>_.
        updi ip (\<lambda>k. k\<lparr>iaddrs := (iaddrs k)(NDIRECT := 0)\<rparr>))))))) (\<lambda>_.
     bind (updi ip (\<lambda>k. k\<lparr>isize := 0\<rparr>)) (\<lambda>_.
     iupdate ip))))"

definition iput :: "nat \<Rightarrow> ('z kfs_scheme, unit) prog" where
  "iput ip =
     bind (acquire ItableLock) (\<lambda>_.
     bind (geti ip (\<lambda>k. iref k = 1 \<and> ivalid k \<noteq> 0 \<and> inlink k = 0)) (\<lambda>gone.
     bind (only_if gone
       (bind (acquiresleep (InodeLock ip)) (\<lambda>_.
        bind (release ItableLock) (\<lambda>_.
        bind (itrunc ip) (\<lambda>_.
        bind (updi ip (\<lambda>k. k\<lparr>itype := 0\<rparr>)) (\<lambda>_.
        bind (iupdate ip) (\<lambda>_.
        bind (updi ip (\<lambda>k. k\<lparr>ivalid := 0\<rparr>)) (\<lambda>_.
        bind (releasesleep (InodeLock ip)) (\<lambda>_.
        acquire ItableLock))))))))) (\<lambda>_.
     bind (updi ip (\<lambda>k. k\<lparr>iref := iref k - 1\<rparr>)) (\<lambda>_.
     release ItableLock))))"

definition iunlockput :: "nat \<Rightarrow> ('z kfs_scheme, unit) prog" where
  "iunlockput ip = bind (iunlock (Some ip)) (\<lambda>_. iput ip)"

text \<open>\<open>struct stat\<close>: dev at 0, ino at 4, type at 8, nlink at 10, size at 16; 24 bytes.\<close>

definition stati :: "nat \<Rightarrow> cstr \<Rightarrow> ('z kfs_scheme, cstr) prog" where
  "stati ip st =
     geti ip (\<lambda>k. put64 (put16 (put16 (put32 (put32 st 0 (idev k)) 4 (inum k)) 8 (itype k))
       10 (inlink k)) 16 (ucast (isize k)))"

section \<open>Inode contents\<close>

definition blk_off :: "u32 \<Rightarrow> nat" where
  "blk_off off = unat off mod BSIZE"

definition blk_part :: "u32 \<Rightarrow> u32 \<Rightarrow> u32" where
  "blk_part left off =
     (let b = of_nat BSIZE - off mod of_nat BSIZE in if left < b then left else b)"

lemma unat_blk_part: "unat (blk_part left off) = min (unat left) (1024 - unat off mod 1024)"
proof -
  have m: "unat (off mod 1024) = unat off mod 1024"
    by (simp add: unat_mod)
  then have "off mod 1024 \<le> 1024"
    by (simp add: word_le_nat_alt less_imp_le)
  then have "unat (1024 - off mod 1024) = 1024 - unat off mod 1024"
    by (simp add: unat_sub m)
  then show ?thesis
    by (auto simp: blk_part_def BSIZE_def Let_def word_less_nat_alt min_def)
qed

lemma blk_part_less [simp]:
  assumes "tot < n"
  shows "unat (n - (tot + blk_part (n - tot) off)) < unat (n - tot)"
proof -
  have "0 < unat (n - tot)"
    using assms by (simp add: unat_sub word_less_nat_alt word_le_nat_alt)
  moreover have "0 < 1024 - unat off mod 1024" by simp
  moreover have "blk_part (n - tot) off \<le> n - tot"
    by (simp add: word_le_nat_alt unat_blk_part)
  ultimately have "unat ((n - tot) - blk_part (n - tot) off) < unat (n - tot)"
    by (simp add: unat_sub unat_blk_part del: zero_less_diff)
  then show ?thesis by (simp add: diff_diff_eq)
qed

function readi_loop ::
  "nat \<Rightarrow> int \<Rightarrow> u64 \<Rightarrow> u32 \<Rightarrow> u32 \<Rightarrow> u32 \<Rightarrow> cstr \<Rightarrow> ('z kfs_scheme, u32 \<times> cstr) prog" where
  "readi_loop ip user_dst dst off tot n kb =
     (if tot < n
      then bind (bmap ip (off div of_nat BSIZE)) (\<lambda>a.
        if a = 0 then ret (tot, kb)
        else bind (geti ip idev) (\<lambda>dev.
        bind (bread dev a) (\<lambda>bp.
        let m = blk_part (n - tot) off in
        bind (getb bp bdata) (\<lambda>d.
        bind (either_copyout user_dst dst (\<lambda>i. d (blk_off off + i)) (ucast m) kb) (\<lambda>(r, kb).
        bind (brelse bp) (\<lambda>_.
        if r = -1 then ret (-1, kb)
        else readi_loop ip user_dst (dst + ucast m) (off + m) (tot + m) n kb))))))
      else ret (tot, kb))"
  by pat_completeness auto
termination
  by (relation "measure (\<lambda>(ip, u, dst, off, tot, n, kb). unat (n - tot))") auto

definition readi ::
  "nat \<Rightarrow> int \<Rightarrow> u64 \<Rightarrow> u32 \<Rightarrow> u32 \<Rightarrow> cstr \<Rightarrow> ('z kfs_scheme, int \<times> cstr) prog" where
  "readi ip user_dst dst off n kb =
     bind (geti ip isize) (\<lambda>sz.
     if off > sz \<or> off + n < off then ret (0, kb)
     else bind (readi_loop ip user_dst dst off 0 (if off + n > sz then sz - off else n) kb) (\<lambda>(tot, kb).
     ret (to_int tot, kb)))"

function writei_loop ::
  "nat \<Rightarrow> int \<Rightarrow> u64 \<Rightarrow> u32 \<Rightarrow> u32 \<Rightarrow> u32 \<Rightarrow> cstr \<Rightarrow> ('z kfs_scheme, u32 \<times> u32) prog" where
  "writei_loop ip user_src src off tot n kb =
     (if tot < n
      then bind (bmap ip (off div of_nat BSIZE)) (\<lambda>a.
        if a = 0 then ret (tot, off)
        else bind (geti ip idev) (\<lambda>dev.
        bind (bread dev a) (\<lambda>bp.
        let m = blk_part (n - tot) off in
        bind (getb bp bdata) (\<lambda>d.
        bind (either_copyin (\<lambda>i. d (blk_off off + i)) user_src src (ucast m) kb) (\<lambda>(r, e).
        bind (updb bp (\<lambda>u. u\<lparr>bdata := (\<lambda>j. if blk_off off \<le> j then e (j - blk_off off) else bdata u j)\<rparr>)) (\<lambda>_.
        if r = -1 then bind (brelse bp) (\<lambda>_. ret (tot, off))
        else bind (log_write bp) (\<lambda>_.
        bind (brelse bp) (\<lambda>_.
        writei_loop ip user_src (src + ucast m) (off + m) (tot + m) n kb))))))))
      else ret (tot, off))"
  by pat_completeness auto
termination
  by (relation "measure (\<lambda>(ip, u, src, off, tot, n, kb). unat (n - tot))") auto

declare readi_loop.simps [simp del] writei_loop.simps [simp del]

definition writei ::
  "nat \<Rightarrow> int \<Rightarrow> u64 \<Rightarrow> u32 \<Rightarrow> u32 \<Rightarrow> cstr \<Rightarrow> ('z kfs_scheme, int) prog" where
  "writei ip user_src src off n kb =
     bind (geti ip isize) (\<lambda>sz.
     if off > sz \<or> off + n < off then ret (-1)
     else if unat (off + n) > MAXFILE * BSIZE then ret (-1)
     else bind (writei_loop ip user_src src off 0 n kb) (\<lambda>(tot, off).
     bind (geti ip isize) (\<lambda>sz.
     bind (only_if (off > sz) (updi ip (\<lambda>k. k\<lparr>isize := off\<rparr>))) (\<lambda>_.
     bind (iupdate ip) (\<lambda>_.
     ret (to_int tot))))))"

section \<open>Directories\<close>

text \<open>\<open>struct dirent\<close>: the inode number in two bytes, then \<open>DIRSIZ\<close> bytes of name.\<close>

definition DIRENT :: nat where
  "DIRENT = 2 + DIRSIZ"

definition de_inum :: "cstr \<Rightarrow> u16" where
  "de_inum de = get16 de 0"

definition de_name :: "cstr \<Rightarrow> cstr" where
  "de_name de = (\<lambda>i. de (2 + i))"

definition namecmp :: "cstr \<Rightarrow> cstr \<Rightarrow> int" where
  "namecmp s t = strncmp s t DIRSIZ"

text \<open>
  The loops over a directory visit the offsets \<open>0, 16, 32, ...\<close> below \<open>dp->size\<close>. The
  entry \<open>de\<close> is a local variable that keeps its bytes from one turn to the next.
\<close>

definition entries :: "u32 \<Rightarrow> nat list" where
  "entries sz = [0..<(unat sz + DIRENT - 1) div DIRENT]"

fun dirlookup_loop :: "nat list \<Rightarrow> nat \<Rightarrow> cstr \<Rightarrow> cstr \<Rightarrow> ('z kfs_scheme, (nat \<times> u32) option) prog" where
  "dirlookup_loop [] dp name de = ret None"
| "dirlookup_loop (j # js) dp name de =
     (let off = of_nat (DIRENT * j) in
      bind (readi dp 0 0 off (of_nat DIRENT) de) (\<lambda>(r, de).
      if r \<noteq> int DIRENT then panic ''dirlookup read''
      else if de_inum de = 0 then dirlookup_loop js dp name de
      else if namecmp name (de_name de) = 0
      then bind (geti dp idev) (\<lambda>dev.
           bind (iget dev (ucast (de_inum de))) (\<lambda>ip.
           ret (Some (ip, off))))
      else dirlookup_loop js dp name de))"

text \<open>The result carries the offset that the code stores through \<open>poff\<close>.\<close>

definition dirlookup :: "nat \<Rightarrow> cstr \<Rightarrow> ('z kfs_scheme, (nat \<times> u32) option) prog" where
  "dirlookup dp name =
     bind (geti dp (\<lambda>k. (itype k, isize k))) (\<lambda>(ty, sz).
     if ty \<noteq> T_DIR then panic ''dirlookup not DIR''
     else dirlookup_loop (entries sz) dp name (\<lambda>_. 0))"

fun dirlink_loop :: "nat list \<Rightarrow> nat \<Rightarrow> u32 \<Rightarrow> cstr \<Rightarrow> ('z kfs_scheme, u32 \<times> cstr) prog" where
  "dirlink_loop [] dp off de = ret (off, de)"
| "dirlink_loop (j # js) dp off de =
     bind (readi dp 0 0 off (of_nat DIRENT) de) (\<lambda>(r, de).
     if r \<noteq> int DIRENT then panic ''dirlink read''
     else if de_inum de = 0 then ret (off, de)
     else dirlink_loop js dp (off + of_nat DIRENT) de)"

definition make_dirent :: "cstr \<Rightarrow> cstr \<Rightarrow> u32 \<Rightarrow> cstr" where
  "make_dirent de name n =
     (let nm = strncpy (de_name de) name (int DIRSIZ) in
      put16 (\<lambda>i. if i < 2 then de i else nm (i - 2)) 0 (ucast n))"

definition dirlink :: "nat \<Rightarrow> cstr \<Rightarrow> u32 \<Rightarrow> ('z kfs_scheme, int) prog" where
  "dirlink dp name n =
     bind (dirlookup dp name) (\<lambda>r.
     case r of
       Some (ip, off) \<Rightarrow> bind (iput ip) (\<lambda>_. ret (-1))
     | None \<Rightarrow>
         bind (geti dp isize) (\<lambda>sz.
         bind (dirlink_loop (entries sz) dp 0 (\<lambda>_. 0)) (\<lambda>(off, de).
         bind (writei dp 0 0 off (of_nat DIRENT) (make_dirent de name n)) (\<lambda>r.
         ret (if r \<noteq> int DIRENT then -1 else 0)))))"

section \<open>Paths\<close>

definition slash :: u8 where
  "slash = 47"

fun skip_slashes :: "bytes \<Rightarrow> bytes" where
  "skip_slashes [] = []"
| "skip_slashes (c # p) = (if c = slash then skip_slashes p else c # p)"

fun elem_end :: "bytes \<Rightarrow> bytes" where
  "elem_end [] = []"
| "elem_end (c # p) = (if c \<noteq> slash then elem_end p else c # p)"

definition skipelem :: "bytes \<Rightarrow> cstr \<Rightarrow> (bytes \<times> cstr) option" where
  "skipelem path name =
     (let s = skip_slashes path in
      if s = [] then None
      else let p = elem_end s; len = length s - length p in
        Some (skip_slashes p,
          if len \<ge> DIRSIZ then (\<lambda>i. if i < DIRSIZ then s ! i else name i)
          else (\<lambda>i. if i < len then s ! i else name i)(len := 0)))"

lemma skip_slashes_le: "length (skip_slashes p) \<le> length p"
  by (induction p) auto

lemma elem_end_le: "length (elem_end p) \<le> length p"
  by (induction p) auto

lemma skip_slashes_head: "skip_slashes p = c # q \<Longrightarrow> c \<noteq> slash"
  by (induction p) (auto split: if_splits)

lemma skipelem_less:
  assumes "skipelem path name = Some (tl_path, name')"
  shows "length tl_path < length path"
proof -
  have ne: "skip_slashes path \<noteq> []"
    using assms by (auto simp: skipelem_def Let_def)
  have r: "tl_path = skip_slashes (elem_end (skip_slashes path))"
    using assms ne unfolding skipelem_def Let_def by (simp only: if_False option.inject prod.inject)
  obtain c q where cq: "skip_slashes path = c # q"
    using ne by (cases "skip_slashes path") auto
  then have "c \<noteq> slash" by (rule skip_slashes_head)
  then have "length (elem_end (skip_slashes path)) < length (skip_slashes path)"
    using elem_end_le[of q] by (simp add: cq)
  then show ?thesis
    using r skip_slashes_le[of path] skip_slashes_le[of "elem_end (skip_slashes path)"] by simp
qed

function namex_loop :: "nat \<Rightarrow> bytes \<Rightarrow> int \<Rightarrow> cstr \<Rightarrow> ('z kfs_scheme, nat option \<times> cstr) prog" where
  "namex_loop ip path nameiparent name =
     (case skipelem path name of
        None \<Rightarrow> if nameiparent \<noteq> 0 then bind (iput ip) (\<lambda>_. ret (None, name)) else ret (Some ip, name)
      | Some (path, name) \<Rightarrow>
          bind (ilock (Some ip)) (\<lambda>_.
          bind (geti ip itype) (\<lambda>ty.
          if ty \<noteq> T_DIR then bind (iunlockput ip) (\<lambda>_. ret (None, name))
          else if nameiparent \<noteq> 0 \<and> path = [] then bind (iunlock (Some ip)) (\<lambda>_. ret (Some ip, name))
          else bind (dirlookup ip name) (\<lambda>r.
          case r of
            None \<Rightarrow> bind (iunlockput ip) (\<lambda>_. ret (None, name))
          | Some (nxt, off) \<Rightarrow>
              bind (iunlockput ip) (\<lambda>_. namex_loop nxt path nameiparent name)))))"
  by pat_completeness auto
termination
  by (relation "measure (\<lambda>(ip, path, np, name). length path)") (auto dest: skipelem_less)

declare namex_loop.simps [simp del]

definition namex :: "bytes \<Rightarrow> int \<Rightarrow> cstr \<Rightarrow> ('z kfs_scheme, nat option \<times> cstr) prog" where
  "namex path nameiparent name =
     bind (if path \<noteq> [] \<and> hd path = slash then iget ROOTDEV ROOTINO
           else bind curproc (\<lambda>p. bind (getp p pcwd) (\<lambda>r. bind (the_inode r) (\<lambda>cwd. idup cwd)))) (\<lambda>ip.
     namex_loop ip path nameiparent name)"

definition namei :: "bytes \<Rightarrow> ('z kfs_scheme, nat option) prog" where
  "namei path = bind (namex path 0 (\<lambda>_. 0)) (\<lambda>(ip, name). ret ip)"

definition nameiparent :: "bytes \<Rightarrow> cstr \<Rightarrow> ('z kfs_scheme, nat option \<times> cstr) prog" where
  "nameiparent path name = namex path 1 name"

end
