(* ===== verification/Console.thy ===== *)
theory Console
  imports Fs
begin

text \<open>
  The UART driver with its transmit ring (\<open>kernel/uart.c\<close>) and the console with its
  line-editing input ring (\<open>kernel/console.c\<close>). The indices of both rings are words of the
  code's width that count without ever being reduced; a slot is the index modulo the size of
  the ring. The loops of \<open>uartstart\<close> and of the kill-line key run on a bound computed from
  the indices; the loop of \<open>uartintr\<close> on the number of bytes that wait in the device.

  \<open>devsw\<close> holds names of the functions that the code stores in it.
\<close>

section \<open>State\<close>

definition UART_TX_BUF_SIZE :: nat where
  "UART_TX_BUF_SIZE = 32"

definition INPUT_BUF_SIZE :: nat where
  "INPUT_BUF_SIZE = 128"

definition CONSOLE :: nat where
  "CONSOLE = 1"

datatype devfn = Consoleread | Consolewrite

record kcons = kfs +
  uart_tx_buf :: "nat \<Rightarrow> u8"
  uart_tx_w :: u64
  uart_tx_r :: u64
  cons_buf :: "nat \<Rightarrow> u8"
  cons_r :: u32
  cons_w :: u32
  cons_e :: u32
  keyboard_int_cnt :: int
  devsw_read :: "nat \<Rightarrow> devfn option"
  devsw_write :: "nat \<Rightarrow> devfn option"

text \<open>The slot of an index.\<close>

definition tx_slot :: "u64 \<Rightarrow> nat" where
  "tx_slot i = unat i mod UART_TX_BUF_SIZE"

definition cons_slot :: "u32 \<Rightarrow> nat" where
  "cons_slot i = unat i mod INPUT_BUF_SIZE"

section \<open>UART\<close>

definition uartinit :: "('z kcons_scheme, unit) prog" where
  "uartinit =
     bind (WriteReg IER 0) (\<lambda>_.
     bind (WriteReg LCR LCR_BAUD_LATCH) (\<lambda>_.
     bind (WriteReg 0 3) (\<lambda>_.
     bind (WriteReg 1 0) (\<lambda>_.
     bind (WriteReg LCR LCR_EIGHT_BITS) (\<lambda>_.
     bind (WriteReg FCR (FCR_FIFO_ENABLE OR FCR_FIFO_CLEAR)) (\<lambda>_.
     bind (WriteReg IER (IER_TX_ENABLE OR IER_RX_ENABLE)) (\<lambda>_.
     initlock UartTxLock ''uart'')))))))"

fun uartstart_loop :: "nat \<Rightarrow> ('z kcons_scheme, unit) prog" where
  "uartstart_loop 0 = spin"
| "uartstart_loop (Suc k) =
     bind (gets (\<lambda>s. (uart_tx_w s, uart_tx_r s))) (\<lambda>(w, r).
     if w = r then bind (ReadReg ISR) (\<lambda>_. ret ())
     else bind (ReadReg LSR) (\<lambda>l.
     if l AND LSR_TX_IDLE = 0 then ret ()
     else bind (gets (\<lambda>s. uart_tx_buf s (tx_slot r))) (\<lambda>c.
     bind (modify (\<lambda>s. s\<lparr>uart_tx_r := uart_tx_r s + 1\<rparr>)) (\<lambda>_.
     bind (wakeup ChUartTxR) (\<lambda>_.
     bind (WriteReg THR c) (\<lambda>_.
     uartstart_loop k))))))"

definition uartstart :: "('z kcons_scheme, unit) prog" where
  "uartstart = bind (gets (\<lambda>s. unat (uart_tx_w s - uart_tx_r s))) (\<lambda>n. uartstart_loop (Suc n))"

definition uartputc :: "int \<Rightarrow> ('z kcons_scheme, unit) prog" where
  "uartputc c =
     bind (acquire UartTxLock) (\<lambda>_.
     bind (gets panicked) (\<lambda>p.
     if p \<noteq> 0 then spin
     else bind (gets (\<lambda>s. (uart_tx_w s, uart_tx_r s))) (\<lambda>(w, r).
     bind (only_if (w = r + of_nat UART_TX_BUF_SIZE) (sleep ChUartTxR UartTxLock)) (\<lambda>_.
     bind (modify (\<lambda>s. s\<lparr>uart_tx_buf := (uart_tx_buf s)(tx_slot (uart_tx_w s) := of_int c)\<rparr>)) (\<lambda>_.
     bind (modify (\<lambda>s. s\<lparr>uart_tx_w := uart_tx_w s + 1\<rparr>)) (\<lambda>_.
     bind uartstart (\<lambda>_.
     release UartTxLock)))))))"

definition uartgetc :: "('z kcons_scheme, int) prog" where
  "uartgetc =
     bind (ReadReg LSR) (\<lambda>l.
     if l AND 1 \<noteq> 0 then bind (ReadReg RHR) (\<lambda>c. ret (uint c)) else ret (-1))"

section \<open>Console\<close>

fun consolewrite_loop :: "nat \<Rightarrow> nat \<Rightarrow> int \<Rightarrow> u64 \<Rightarrow> cstr \<Rightarrow> ('z kcons_scheme, int) prog" where
  "consolewrite_loop 0 i user_src src kb = ret (int i)"
| "consolewrite_loop (Suc k) i user_src src kb =
     bind (either_copyin (\<lambda>_. 0) user_src (src + of_nat i) 1 kb) (\<lambda>(r, c).
     if r = -1 then ret (int i)
     else bind (uartputc (uint (c 0))) (\<lambda>_.
     consolewrite_loop k (Suc i) user_src src kb))"

definition consolewrite :: "int \<Rightarrow> u64 \<Rightarrow> int \<Rightarrow> cstr \<Rightarrow> ('z kcons_scheme, int) prog" where
  "consolewrite user_src src n kb = consolewrite_loop (nat n) 0 user_src src kb"

text \<open>The loop of \<open>consoleread\<close> gives \<open>Inl\<close> when it returns from inside, else the final \<open>n\<close>.\<close>

fun consoleread_loop ::
  "nat \<Rightarrow> int \<Rightarrow> int \<Rightarrow> u64 \<Rightarrow> cstr \<Rightarrow> ('z kcons_scheme, (int + int) \<times> cstr) prog" where
  "consoleread_loop 0 target user_dst dst kb = ret (Inr 0, kb)"
| "consoleread_loop (Suc k) target user_dst dst kb =
     (let n = int (Suc k) in
     bind (gets (\<lambda>s. cons_r s = cons_w s)) (\<lambda>empt.
     if empt
     then bind curproc (\<lambda>p.
          bind (killed p) (\<lambda>d.
          if d \<noteq> 0 then bind (release ConsLock) (\<lambda>_. ret (Inl (-1), kb))
          else bind (sleep ChConsR ConsLock) (\<lambda>_. ret (Inr n, kb))))
     else bind (gets (\<lambda>s. cons_buf s (cons_slot (cons_r s)))) (\<lambda>c.
     bind (modify (\<lambda>s. s\<lparr>cons_r := cons_r s + 1\<rparr>)) (\<lambda>_.
     if c = 4
     then bind (only_if (n < target) (modify (\<lambda>s. s\<lparr>cons_r := cons_r s - 1\<rparr>))) (\<lambda>_. ret (Inr n, kb))
     else bind (either_copyout user_dst dst (\<lambda>_. c) 1 kb) (\<lambda>(r, kb).
     if r = -1 then ret (Inr n, kb)
     else if c = 10 then ret (Inr (n - 1), kb)
     else consoleread_loop k target user_dst (dst + 1) kb)))))"

definition consoleread :: "int \<Rightarrow> u64 \<Rightarrow> int \<Rightarrow> cstr \<Rightarrow> ('z kcons_scheme, int \<times> cstr) prog" where
  "consoleread user_dst dst n kb =
     bind (acquire ConsLock) (\<lambda>_.
     bind (if n > 0 then consoleread_loop (nat n) n user_dst dst kb else ret (Inr n, kb)) (\<lambda>(r, kb).
     case r of
       Inl v \<Rightarrow> ret (v, kb)
     | Inr m \<Rightarrow> bind (release ConsLock) (\<lambda>_. ret (n - m, kb))))"

fun kill_line :: "nat \<Rightarrow> ('z kcons_scheme, unit) prog" where
  "kill_line 0 = ret ()"
| "kill_line (Suc k) =
     bind (gets (\<lambda>s. cons_e s \<noteq> cons_w s \<and> cons_buf s (cons_slot (cons_e s - 1)) \<noteq> 10)) (\<lambda>more.
     only_if more
       (bind (modify (\<lambda>s. s\<lparr>cons_e := cons_e s - 1\<rparr>)) (\<lambda>_.
        bind (consputc BACKSPACE) (\<lambda>_.
        kill_line k))))"

definition consoleintr :: "int \<Rightarrow> ('z kcons_scheme, unit) prog" where
  "consoleintr c =
     bind (acquire ConsLock) (\<lambda>_.
     bind (modify (\<lambda>s. s\<lparr>keyboard_int_cnt := keyboard_int_cnt s + 1\<rparr>)) (\<lambda>_.
     bind
       (if c = 0x10 then procdump
        else if c = 0x15
        then bind (gets (\<lambda>s. unat (cons_e s - cons_w s))) (\<lambda>n. kill_line n)
        else if c = 0x08 \<or> c = 0x7f
        then bind (gets (\<lambda>s. cons_e s \<noteq> cons_w s)) (\<lambda>some.
             only_if some
               (bind (modify (\<lambda>s. s\<lparr>cons_e := cons_e s - 1\<rparr>)) (\<lambda>_.
                consputc BACKSPACE)))
        else bind (gets (\<lambda>s. unat (cons_e s - cons_r s) < INPUT_BUF_SIZE)) (\<lambda>room.
             only_if (c \<noteq> 0 \<and> room)
               (let c = (if c = 13 then 10 else c) in
                bind (consputc c) (\<lambda>_.
                bind (modify (\<lambda>s. s\<lparr>cons_buf := (cons_buf s)(cons_slot (cons_e s) := of_int c), cons_e := cons_e s + 1\<rparr>)) (\<lambda>_.
                bind (gets (\<lambda>s. c = 10 \<or> c = 4 \<or> unat (cons_e s - cons_r s) = INPUT_BUF_SIZE)) (\<lambda>line.
                only_if line
                  (bind (modify (\<lambda>s. s\<lparr>cons_w := cons_e s\<rparr>)) (\<lambda>_.
                   wakeup ChConsR))))))))
       (\<lambda>_. release ConsLock)))"

definition consoleinit :: "('z kcons_scheme, unit) prog" where
  "consoleinit =
     bind (initlock ConsLock ''cons'') (\<lambda>_.
     bind uartinit (\<lambda>_.
     modify (\<lambda>s. s\<lparr>devsw_read := (devsw_read s)(CONSOLE := Some Consoleread),
       devsw_write := (devsw_write s)(CONSOLE := Some Consolewrite)\<rparr>)))"

fun uartintr_loop :: "nat \<Rightarrow> ('z kcons_scheme, unit) prog" where
  "uartintr_loop 0 = spin"
| "uartintr_loop (Suc k) =
     bind uartgetc (\<lambda>c.
     if c = -1 then ret () else bind (consoleintr c) (\<lambda>_. uartintr_loop k))"

definition uartintr :: "('z kcons_scheme, unit) prog" where
  "uartintr =
     bind (gets (\<lambda>s. length (u_rx (uart s)))) (\<lambda>n.
     bind (uartintr_loop (Suc n)) (\<lambda>_.
     bind (acquire UartTxLock) (\<lambda>_.
     bind uartstart (\<lambda>_.
     release UartTxLock))))"

end
