(* ===== verification/File.thy ===== *)
theory File
  imports Console
begin

text \<open>
  Open files and pipes (\<open>kernel/file.h\<close>, \<open>kernel/file.c\<close>, \<open>kernel/pipe.c\<close>).

  An open file is its index in \<open>ftable.file[NFILE]\<close>. A pipe lives in a page of
  \<open>kalloc\<close>; its fields are kept in \<open>pipes\<close>, by the address of that page, and its lock is
  \<open>PipeLock\<close> of the address. The two sleep channels of a pipe are the addresses of
  \<open>nread\<close> and \<open>nwrite\<close>. \<open>stack_junk\<close> is what an uninitialised local variable holds.

  A \<open>pipewrite\<close> that finds the pipe full sleeps, which ends the run; the resumed thread
  continues with \<open>pipewrite_loop\<close> at the count it had reached.
\<close>

section \<open>State\<close>

definition PIPESIZE :: nat where
  "PIPESIZE = 512"

datatype ftype = FD_NONE | FD_PIPE | FD_INODE | FD_DEVICE

record ofile =
  fkind :: ftype
  fref :: int
  freadable :: int
  fwritable :: int
  fpipe :: addr
  fip :: "nat option"
  foff :: u32
  fmajor :: u16

record pipe =
  pdata :: "nat \<Rightarrow> u8"
  pnread :: u32
  pnwrite :: u32
  preadopen :: int
  pwriteopen :: int

record kfile = kcons +
  files :: "nat \<Rightarrow> ofile"
  pipes :: "addr \<Rightarrow> pipe"
  stack_junk :: cstr

definition getf :: "nat \<Rightarrow> (ofile \<Rightarrow> 'a) \<Rightarrow> ('z kfile_scheme, 'a) prog" where
  "getf f g = gets (\<lambda>s. g (files s f))"

definition updf :: "nat \<Rightarrow> (ofile \<Rightarrow> ofile) \<Rightarrow> ('z kfile_scheme, unit) prog" where
  "updf f g = modify (\<lambda>s. s\<lparr>files := (files s)(f := g (files s f))\<rparr>)"

definition getpi :: "addr \<Rightarrow> (pipe \<Rightarrow> 'a) \<Rightarrow> ('z kfile_scheme, 'a) prog" where
  "getpi pi g = gets (\<lambda>s. g (pipes s pi))"

definition updpi :: "addr \<Rightarrow> (pipe \<Rightarrow> pipe) \<Rightarrow> ('z kfile_scheme, unit) prog" where
  "updpi pi g = modify (\<lambda>s. s\<lparr>pipes := (pipes s)(pi := g (pipes s pi))\<rparr>)"

section \<open>Pipes\<close>

definition pipeclose :: "addr \<Rightarrow> int \<Rightarrow> ('z kfile_scheme, unit) prog" where
  "pipeclose pi writable =
     bind (acquire (PipeLock pi)) (\<lambda>_.
     bind (if writable \<noteq> 0
           then bind (updpi pi (\<lambda>k. k\<lparr>pwriteopen := 0\<rparr>)) (\<lambda>_. wakeup (ChPipeRead pi))
           else bind (updpi pi (\<lambda>k. k\<lparr>preadopen := 0\<rparr>)) (\<lambda>_. wakeup (ChPipeWrite pi))) (\<lambda>_.
     bind (getpi pi (\<lambda>k. preadopen k = 0 \<and> pwriteopen k = 0)) (\<lambda>dead.
     if dead then bind (release (PipeLock pi)) (\<lambda>_. kfree pi)
     else release (PipeLock pi))))"

text \<open>Put one byte at \<open>nwrite\<close>; take one from \<open>nread\<close>.\<close>

definition pipe_put :: "u8 \<Rightarrow> pipe \<Rightarrow> pipe" where
  "pipe_put c k = k\<lparr>pdata := (pdata k)(unat (pnwrite k) mod PIPESIZE := c), pnwrite := pnwrite k + 1\<rparr>"

definition pipe_get :: "pipe \<Rightarrow> u8 \<times> pipe" where
  "pipe_get k = (pdata k (unat (pnread k) mod PIPESIZE), k\<lparr>pnread := pnread k + 1\<rparr>)"

text \<open>\<open>m\<close> counts the turns that are left; \<open>i\<close> the bytes written. \<open>None\<close>: it returned -1.\<close>

fun pipewrite_loop :: "nat \<Rightarrow> addr \<Rightarrow> nat \<Rightarrow> u64 \<Rightarrow> int \<Rightarrow> ('z kfile_scheme, int option) prog" where
  "pipewrite_loop 0 pi pr addr i = ret (Some i)"
| "pipewrite_loop (Suc m) pi pr addr i =
     bind (getpi pi preadopen) (\<lambda>ro.
     bind (if ro = 0 then ret 1 else killed pr) (\<lambda>stop.
     if stop \<noteq> 0 then bind (release (PipeLock pi)) (\<lambda>_. ret None)
     else bind (getpi pi (\<lambda>k. pnwrite k = pnread k + of_nat PIPESIZE)) (\<lambda>full.
     if full
     then bind (wakeup (ChPipeRead pi)) (\<lambda>_.
          bind (sleep (ChPipeWrite pi) (PipeLock pi)) (\<lambda>_.
          ret None))
     else bind (getp pr ppagetable) (\<lambda>pt.
     bind (copyin pt (\<lambda>_. 0) (addr + of_int i) 1) (\<lambda>(r, ch).
     if r = -1 then ret (Some i)
     else bind (updpi pi (pipe_put (ch 0))) (\<lambda>_.
     pipewrite_loop m pi pr addr (i + 1)))))))"

definition pipewrite :: "addr \<Rightarrow> u64 \<Rightarrow> int \<Rightarrow> ('z kfile_scheme, int) prog" where
  "pipewrite pi addr n =
     bind curproc (\<lambda>pr.
     bind (acquire (PipeLock pi)) (\<lambda>_.
     bind (pipewrite_loop (nat n) pi pr addr 0) (\<lambda>r.
     case r of
       None \<Rightarrow> ret (-1)
     | Some i \<Rightarrow>
         bind (wakeup (ChPipeRead pi)) (\<lambda>_.
         bind (release (PipeLock pi)) (\<lambda>_.
         ret i)))))"

fun piperead_loop :: "nat \<Rightarrow> addr \<Rightarrow> nat \<Rightarrow> u64 \<Rightarrow> int \<Rightarrow> ('z kfile_scheme, int) prog" where
  "piperead_loop 0 pi pr addr i = ret i"
| "piperead_loop (Suc m) pi pr addr i =
     bind (getpi pi (\<lambda>k. pnread k = pnwrite k)) (\<lambda>empt.
     if empt then ret i
     else bind (getpi pi pipe_get) (\<lambda>(ch, k).
     bind (updpi pi (\<lambda>_. k)) (\<lambda>_.
     bind (getp pr ppagetable) (\<lambda>pt.
     bind (copyout pt (addr + of_int i) (\<lambda>_. ch) 1) (\<lambda>r.
     if r = -1 then ret i
     else piperead_loop m pi pr addr (i + 1))))))"

definition piperead :: "addr \<Rightarrow> u64 \<Rightarrow> int \<Rightarrow> ('z kfile_scheme, int) prog" where
  "piperead pi addr n =
     bind curproc (\<lambda>pr.
     bind (acquire (PipeLock pi)) (\<lambda>_.
     bind (getpi pi (\<lambda>k. pnread k = pnwrite k \<and> pwriteopen k \<noteq> 0)) (\<lambda>wait.
     bind (if wait then killed pr else ret 0) (\<lambda>d.
     if d \<noteq> 0 then bind (release (PipeLock pi)) (\<lambda>_. ret (-1))
     else bind (only_if wait (sleep (ChPipeRead pi) (PipeLock pi))) (\<lambda>_.
     bind (piperead_loop (nat n) pi pr addr 0) (\<lambda>i.
     bind (wakeup (ChPipeWrite pi)) (\<lambda>_.
     bind (release (PipeLock pi)) (\<lambda>_.
     ret i))))))))"

section \<open>The file table\<close>

definition fileinit :: "('z kfile_scheme, unit) prog" where
  "fileinit = initlock FtableLock ''ftable''"

definition filealloc :: "('z kfile_scheme, nat option) prog" where
  "filealloc =
     bind (acquire FtableLock) (\<lambda>_.
     bind (for_until [0..<NFILE] (\<lambda>f.
       bind (getf f fref) (\<lambda>r.
       if r = 0
       then bind (updf f (\<lambda>k. k\<lparr>fref := 1\<rparr>)) (\<lambda>_.
            bind (release FtableLock) (\<lambda>_. ret (Some f)))
       else ret None))) (\<lambda>r.
     case r of
       Some f \<Rightarrow> ret (Some f)
     | None \<Rightarrow> bind (release FtableLock) (\<lambda>_. ret None)))"

definition filedup :: "nat \<Rightarrow> ('z kfile_scheme, nat) prog" where
  "filedup f =
     bind (acquire FtableLock) (\<lambda>_.
     bind (getf f fref) (\<lambda>r.
     if r < 1 then panic ''filedup''
     else bind (updf f (\<lambda>k. k\<lparr>fref := fref k + 1\<rparr>)) (\<lambda>_.
     bind (release FtableLock) (\<lambda>_.
     ret f))))"

definition fileclose :: "nat \<Rightarrow> ('z kfile_scheme, unit) prog" where
  "fileclose f =
     bind (acquire FtableLock) (\<lambda>_.
     bind (getf f fref) (\<lambda>r.
     if r < 1 then panic ''fileclose''
     else bind (updf f (\<lambda>k. k\<lparr>fref := fref k - 1\<rparr>)) (\<lambda>_.
     bind (getf f id) (\<lambda>ff.
     if fref ff > 0 then release FtableLock
     else bind (updf f (\<lambda>k. k\<lparr>fref := 0, fkind := FD_NONE\<rparr>)) (\<lambda>_.
     bind (release FtableLock) (\<lambda>_.
     if fkind ff = FD_PIPE then pipeclose (fpipe ff) (fwritable ff)
     else only_if (fkind ff = FD_INODE \<or> fkind ff = FD_DEVICE)
       (bind begin_op (\<lambda>_.
        bind (the_inode (fip ff)) (\<lambda>ip.
        bind (iput ip) (\<lambda>_.
        end_op))))))))))"

definition pipealloc_bad :: "addr \<Rightarrow> nat option \<Rightarrow> nat option \<Rightarrow> ('z kfile_scheme, (nat \<times> nat) option) prog" where
  "pipealloc_bad pi f0 f1 =
     bind (only_if (pi \<noteq> 0) (kfree pi)) (\<lambda>_.
     bind (case f0 of None \<Rightarrow> ret () | Some f \<Rightarrow> fileclose f) (\<lambda>_.
     bind (case f1 of None \<Rightarrow> ret () | Some f \<Rightarrow> fileclose f) (\<lambda>_.
     ret None)))"

text \<open>\<open>Some (f0, f1)\<close> is the result 0 with the two files stored, \<open>None\<close> the result -1.\<close>

definition pipealloc :: "('z kfile_scheme, (nat \<times> nat) option) prog" where
  "pipealloc =
     bind filealloc (\<lambda>r0.
     case r0 of
       None \<Rightarrow> pipealloc_bad 0 None None
     | Some f0 \<Rightarrow>
     bind filealloc (\<lambda>r1.
     case r1 of
       None \<Rightarrow> pipealloc_bad 0 (Some f0) None
     | Some f1 \<Rightarrow>
     bind kalloc (\<lambda>pi.
     if pi = 0 then pipealloc_bad 0 (Some f0) (Some f1)
     else bind (updpi pi (\<lambda>k. k\<lparr>preadopen := 1, pwriteopen := 1, pnwrite := 0, pnread := 0\<rparr>)) (\<lambda>_.
     bind (initlock (PipeLock pi) ''pipe'') (\<lambda>_.
     bind (updf f0 (\<lambda>k. k\<lparr>fkind := FD_PIPE, freadable := 1, fwritable := 0, fpipe := pi\<rparr>)) (\<lambda>_.
     bind (updf f1 (\<lambda>k. k\<lparr>fkind := FD_PIPE, freadable := 0, fwritable := 1, fpipe := pi\<rparr>)) (\<lambda>_.
     ret (Some (f0, f1)))))))))"

definition filestat :: "nat \<Rightarrow> u64 \<Rightarrow> ('z kfile_scheme, int) prog" where
  "filestat f addr =
     bind curproc (\<lambda>p.
     bind (getf f (\<lambda>k. (fkind k, fip k))) (\<lambda>(ty, r).
     if ty = FD_INODE \<or> ty = FD_DEVICE
     then bind (ilock r) (\<lambda>_.
          bind (the_inode r) (\<lambda>ip.
          bind (gets stack_junk) (\<lambda>junk.
          bind (stati ip junk) (\<lambda>st.
          bind (iunlock r) (\<lambda>_.
          bind (getp p ppagetable) (\<lambda>pt.
          bind (copyout pt addr st 24) (\<lambda>v.
          ret (if v < 0 then -1 else 0))))))))
     else ret (-1)))"

text \<open>A device number is valid if it is the number of a \<open>devsw\<close> entry (a \<open>short\<close>, so signed).\<close>

definition bad_major :: "u16 \<Rightarrow> bool" where
  "bad_major m \<longleftrightarrow> sint m < 0 \<or> sint m \<ge> int NDEV"

definition fileread :: "nat \<Rightarrow> u64 \<Rightarrow> int \<Rightarrow> ('z kfile_scheme, int) prog" where
  "fileread f addr n =
     bind (getf f id) (\<lambda>k.
     if freadable k = 0 then ret (-1)
     else if fkind k = FD_PIPE then piperead (fpipe k) addr n
     else if fkind k = FD_DEVICE
     then if bad_major (fmajor k) then ret (-1)
          else bind (gets (\<lambda>s. devsw_read s (unat (fmajor k)))) (\<lambda>d.
          case d of
            None \<Rightarrow> ret (-1)
          | Some Consoleread \<Rightarrow> bind (consoleread 1 addr n (\<lambda>_. 0)) (\<lambda>(r, kb). ret r)
          | Some Consolewrite \<Rightarrow> consolewrite 1 addr n (\<lambda>_. 0))
     else if fkind k = FD_INODE
     then bind (ilock (fip k)) (\<lambda>_.
          bind (the_inode (fip k)) (\<lambda>ip.
          bind (getf f foff) (\<lambda>off.
          bind (readi ip 1 addr off (of_int n) (\<lambda>_. 0)) (\<lambda>(r, kb).
          bind (only_if (r > 0) (updf f (\<lambda>k. k\<lparr>foff := foff k + of_int r\<rparr>))) (\<lambda>_.
          bind (iunlock (fip k)) (\<lambda>_.
          ret r))))))
     else panic ''fileread'')"

definition filewrite_max :: int where
  "filewrite_max = (int MAXOPBLOCKS - 1 - 1 - 2) div 2 * int BSIZE"

function filewrite_loop :: "nat \<Rightarrow> u64 \<Rightarrow> int \<Rightarrow> int \<Rightarrow> ('z kfile_scheme, int) prog" where
  "filewrite_loop f addr n i =
     (if i < n
      then let n1 = (if n - i > filewrite_max then filewrite_max else n - i) in
        bind begin_op (\<lambda>_.
        bind (getf f fip) (\<lambda>ipr.
        bind (ilock ipr) (\<lambda>_.
        bind (the_inode ipr) (\<lambda>ip.
        bind (getf f foff) (\<lambda>off.
        bind (writei ip 1 (addr + of_int i) off (of_int n1) (\<lambda>_. 0)) (\<lambda>r.
        bind (only_if (r > 0) (updf f (\<lambda>k. k\<lparr>foff := foff k + of_int r\<rparr>))) (\<lambda>_.
        bind (iunlock ipr) (\<lambda>_.
        bind end_op (\<lambda>_.
        if r \<noteq> n1 then ret i else filewrite_loop f addr n (i + r))))))))))
      else ret i)"
  by pat_completeness auto
termination
  by (relation "measure (\<lambda>(f, addr, n, i). nat (n - i))")
     (auto simp: filewrite_max_def MAXOPBLOCKS_def BSIZE_def split: if_splits)

declare filewrite_loop.simps [simp del]

definition filewrite :: "nat \<Rightarrow> u64 \<Rightarrow> int \<Rightarrow> ('z kfile_scheme, int) prog" where
  "filewrite f addr n =
     bind (getf f id) (\<lambda>k.
     if fwritable k = 0 then ret (-1)
     else if fkind k = FD_PIPE then pipewrite (fpipe k) addr n
     else if fkind k = FD_DEVICE
     then if bad_major (fmajor k) then ret (-1)
          else bind (gets (\<lambda>s. devsw_write s (unat (fmajor k)))) (\<lambda>d.
          case d of
            None \<Rightarrow> ret (-1)
          | Some Consolewrite \<Rightarrow> consolewrite 1 addr n (\<lambda>_. 0)
          | Some Consoleread \<Rightarrow> bind (consoleread 1 addr n (\<lambda>_. 0)) (\<lambda>(r, kb). ret r))
     else if fkind k = FD_INODE
     then bind (filewrite_loop f addr n 0) (\<lambda>i. ret (if i = n then n else -1))
     else panic ''filewrite'')"

end
