(* ===== verification/Lifecycle.thy ===== *)
theory Lifecycle
  imports File
begin

text \<open>
  Creation and end of processes, the part of \<open>kernel/proc.c\<close> that works on open files and
  directories: \<open>userinit\<close>, \<open>fork\<close>, \<open>reparent\<close>, \<open>exit\<close>, \<open>wait\<close> and
  \<open>getprocinfo\<close>. The trap frame of a process is the page \<open>ptrapframe\<close>; its fields are
  loaded and stored at the offsets given in \<open>kernel/proc.h\<close>.
\<close>

section \<open>The trap frame\<close>

definition TF_KERNEL_SATP :: addr where
  "TF_KERNEL_SATP = 0"

definition TF_KERNEL_SP :: addr where
  "TF_KERNEL_SP = 8"

definition TF_KERNEL_TRAP :: addr where
  "TF_KERNEL_TRAP = 16"

definition TF_EPC :: addr where
  "TF_EPC = 24"

definition TF_KERNEL_HARTID :: addr where
  "TF_KERNEL_HARTID = 32"

definition TF_SP :: addr where
  "TF_SP = 48"

definition TF_A0 :: addr where
  "TF_A0 = 112"

definition TF_A1 :: addr where
  "TF_A1 = 120"

definition TF_A7 :: addr where
  "TF_A7 = 168"

definition TF_SIZE :: nat where
  "TF_SIZE = 288"

definition get_tf :: "nat \<Rightarrow> addr \<Rightarrow> ('z kproc_scheme, u64) prog" where
  "get_tf p field = gets (\<lambda>s. load64 (mem s) (ptrapframe (procs s p) + field))"

definition set_tf :: "nat \<Rightarrow> addr \<Rightarrow> u64 \<Rightarrow> ('z kproc_scheme, unit) prog" where
  "set_tf p field v = modify (\<lambda>s. s\<lparr>mem := store64 (mem s) (ptrapframe (procs s p) + field) v\<rparr>)"

section \<open>The first process\<close>

definition initcode :: bytes where
  "initcode =
    [0x17, 0x05, 0x00, 0x00, 0x13, 0x05, 0x45, 0x02,
     0x97, 0x05, 0x00, 0x00, 0x93, 0x85, 0x35, 0x02,
     0x93, 0x08, 0x70, 0x00, 0x73, 0x00, 0x00, 0x00,
     0x93, 0x08, 0x20, 0x00, 0x73, 0x00, 0x00, 0x00,
     0xef, 0xf0, 0x9f, 0xff, 0x2f, 0x69, 0x6e, 0x69,
     0x74, 0x00, 0x00, 0x24, 0x00, 0x00, 0x00, 0x00,
     0x00, 0x00, 0x00, 0x00]"

text \<open>The bytes of a string literal, with its NUL, as the code's pointer to it sees them.\<close>

definition lit :: "string \<Rightarrow> cstr" where
  "lit t = (\<lambda>i. if i < length t then of_nat (of_char (t ! i)) else 0)"

definition userinit :: "('z kfile_scheme, unit) prog" where
  "userinit =
     bind allocproc (\<lambda>r.
     bind (modify (\<lambda>s. s\<lparr>initproc := r\<rparr>)) (\<lambda>_.
     case r of
       None \<Rightarrow> panic ''null proc''
     | Some p \<Rightarrow>
     bind (getp p ppagetable) (\<lambda>pt.
     bind (uvmfirst pt (\<lambda>i. if i < length initcode then initcode ! i else 0) (of_nat (length initcode))) (\<lambda>_.
     bind (updp p (\<lambda>q. q\<lparr>psz := pgsz\<rparr>)) (\<lambda>_.
     bind (set_tf p TF_EPC 0) (\<lambda>_.
     bind (set_tf p TF_SP pgsz) (\<lambda>_.
     bind (updp p (\<lambda>q. q\<lparr>pname := safestrcpy (pname q) (lit ''initcode'') 16\<rparr>)) (\<lambda>_.
     bind (namei [slash]) (\<lambda>cwd.
     bind (updp p (\<lambda>q. q\<lparr>pcwd := cwd, pstate := RUNNABLE\<rparr>)) (\<lambda>_.
     release (ProcLock p)))))))))))"

section \<open>fork\<close>

definition fork :: "('z kfile_scheme, int) prog" where
  "fork =
     bind curproc (\<lambda>p.
     bind allocproc (\<lambda>r.
     case r of
       None \<Rightarrow> ret (-1)
     | Some np \<Rightarrow>
     bind (gets (\<lambda>s. (ppagetable (procs s p), ppagetable (procs s np), psz (procs s p)))) (\<lambda>(pt, npt, sz).
     bind (uvmcopy pt npt sz) (\<lambda>v.
     if v < 0
     then bind (freeproc np) (\<lambda>_. bind (release (ProcLock np)) (\<lambda>_. ret (-1)))
     else bind (updp np (\<lambda>q. q\<lparr>psz := sz, run_time := 0\<rparr>)) (\<lambda>_.
     bind (gets (\<lambda>s. (ptrapframe (procs s p), ptrapframe (procs s np)))) (\<lambda>(tf, ntf).
     bind (modify (\<lambda>s. s\<lparr>mem := memmove (mem s) ntf tf TF_SIZE\<rparr>)) (\<lambda>_.
     bind (set_tf np TF_A0 0) (\<lambda>_.
     bind (for_each [0..<NOFILE] (\<lambda>i.
       bind (getp p (\<lambda>q. pofile q i)) (\<lambda>r.
       case r of
         None \<Rightarrow> ret ()
       | Some f \<Rightarrow> bind (filedup f) (\<lambda>f. updp np (\<lambda>q. q\<lparr>pofile := (pofile q)(i := Some f)\<rparr>))))) (\<lambda>_.
     bind (getp p pcwd) (\<lambda>c.
     bind (the_inode c) (\<lambda>cwd.
     bind (idup cwd) (\<lambda>cwd.
     bind (updp np (\<lambda>q. q\<lparr>pcwd := Some cwd\<rparr>)) (\<lambda>_.
     bind (getp p pname) (\<lambda>nm.
     bind (updp np (\<lambda>q. q\<lparr>pname := safestrcpy (pname q) nm 16\<rparr>)) (\<lambda>_.
     bind (getp np ppid) (\<lambda>pid.
     bind (release (ProcLock np)) (\<lambda>_.
     bind (acquire WaitLock) (\<lambda>_.
     bind (updp np (\<lambda>q. q\<lparr>pparent := Some p\<rparr>)) (\<lambda>_.
     bind (release WaitLock) (\<lambda>_.
     bind (acquire (ProcLock np)) (\<lambda>_.
     bind (updp np (\<lambda>q. q\<lparr>pstate := RUNNABLE\<rparr>)) (\<lambda>_.
     bind (release (ProcLock np)) (\<lambda>_.
     ret pid)))))))))))))))))))))))"

section \<open>exit\<close>

text \<open>\<open>wakeup\<close> on the address of a process; nobody sleeps on a null channel.\<close>

definition wakeup_proc :: "nat option \<Rightarrow> ('z kproc_scheme, unit) prog" where
  "wakeup_proc r = (case r of None \<Rightarrow> ret () | Some p \<Rightarrow> wakeup (ChProc p))"

definition reparent :: "nat \<Rightarrow> ('z kproc_scheme, unit) prog" where
  "reparent p =
     for_each [0..<NPROC] (\<lambda>pp.
       bind (getp pp pparent) (\<lambda>r.
       only_if (r = Some p)
         (bind (gets initproc) (\<lambda>i.
          bind (updp pp (\<lambda>q. q\<lparr>pparent := i\<rparr>)) (\<lambda>_.
          wakeup_proc i)))))"

definition exit_times :: "int \<Rightarrow> u32 \<Rightarrow> proc \<Rightarrow> proc" where
  "exit_times status tk q = q\<lparr>pxstate := status, pstate := ZOMBIE, finish_time := tk,
     turnaround_time := tk - creation_time q,
     waiting_time := tk - creation_time q - run_time q\<rparr>"

definition exit :: "int \<Rightarrow> ('z kfile_scheme, 'a) prog" where
  "exit status =
     bind curproc (\<lambda>p.
     bind (gets initproc) (\<lambda>i.
     if Some p = i then panic ''init exiting''
     else bind (for_each [0..<NOFILE] (\<lambda>fd.
       bind (getp p (\<lambda>q. pofile q fd)) (\<lambda>r.
       case r of
         None \<Rightarrow> ret ()
       | Some f \<Rightarrow>
           bind (fileclose f) (\<lambda>_.
           updp p (\<lambda>q. q\<lparr>pofile := (pofile q)(fd := None)\<rparr>))))) (\<lambda>_.
     bind begin_op (\<lambda>_.
     bind (getp p pcwd) (\<lambda>c.
     bind (the_inode c) (\<lambda>cwd.
     bind (iput cwd) (\<lambda>_.
     bind end_op (\<lambda>_.
     bind (updp p (\<lambda>q. q\<lparr>pcwd := None\<rparr>)) (\<lambda>_.
     bind (acquire WaitLock) (\<lambda>_.
     bind (reparent p) (\<lambda>_.
     bind (getp p pparent) (\<lambda>par.
     bind (wakeup_proc par) (\<lambda>_.
     bind (acquire (ProcLock p)) (\<lambda>_.
     bind (gets ticks) (\<lambda>tk.
     bind (updp p (exit_times status tk)) (\<lambda>_.
     bind (release WaitLock) (\<lambda>_.
     bind sched (\<lambda>_.
     panic ''zombie exit''))))))))))))))))))"

section \<open>wait and getprocinfo\<close>

text \<open>
  The two functions have the same loop; \<open>report\<close> is what they copy to the user, as the bytes
  and their number. The scan gives \<open>Inl\<close> the value the function returns from inside the
  loop, else whether the process has children.
\<close>

fun wait_scan ::
  "nat list \<Rightarrow> (u32 \<Rightarrow> proc \<Rightarrow> cstr) \<Rightarrow> u64 \<Rightarrow> u64 \<Rightarrow> nat \<Rightarrow> bool \<Rightarrow> ('z kfile_scheme, int + bool) prog" where
  "wait_scan [] report len addr p havekids = ret (Inr havekids)"
| "wait_scan (pp # pps) report len addr p havekids =
     bind (getp pp pparent) (\<lambda>r.
     if r \<noteq> Some p then wait_scan pps report len addr p havekids
     else bind (acquire (ProcLock pp)) (\<lambda>_.
     bind (gets (\<lambda>s. (procs s pp, ticks s))) (\<lambda>(q, tk).
     if pstate q = ZOMBIE
     then bind (getp p ppagetable) (\<lambda>pt.
          bind (if addr \<noteq> 0 then copyout pt addr (report tk q) len else ret 0) (\<lambda>v.
          if v < 0
          then bind (release (ProcLock pp)) (\<lambda>_.
               bind (release WaitLock) (\<lambda>_. ret (Inl (-1))))
          else bind (freeproc pp) (\<lambda>_.
               bind (release (ProcLock pp)) (\<lambda>_.
               bind (release WaitLock) (\<lambda>_.
               ret (Inl (ppid q)))))))
     else bind (release (ProcLock pp)) (\<lambda>_. wait_scan pps report len addr p True))))"

definition wait_for :: "(u32 \<Rightarrow> proc \<Rightarrow> cstr) \<Rightarrow> u64 \<Rightarrow> u64 \<Rightarrow> ('z kfile_scheme, int) prog" where
  "wait_for report len addr =
     bind curproc (\<lambda>p.
     bind (acquire WaitLock) (\<lambda>_.
     bind (wait_scan [0..<NPROC] report len addr p False) (\<lambda>r.
     case r of
       Inl v \<Rightarrow> ret v
     | Inr havekids \<Rightarrow>
         bind (if \<not> havekids then ret 1 else killed p) (\<lambda>stop.
         if stop \<noteq> 0 then bind (release WaitLock) (\<lambda>_. ret (-1))
         else bind (sleep (ChProc p) WaitLock) (\<lambda>_. ret (-1))))))"

definition wait :: "u64 \<Rightarrow> ('z kfile_scheme, int) prog" where
  "wait addr = wait_for (\<lambda>tk q. put32 (\<lambda>_. 0) 0 (of_int (pxstate q))) 4 addr"

text \<open>
  \<open>struct sched_stat\<close>: pid, creation, run, waiting, turnaround and finish time, four bytes
  each. The code stores \<open>ticks\<close> in \<open>creation_time\<close>.
\<close>

definition sched_stat :: "u32 \<Rightarrow> proc \<Rightarrow> cstr" where
  "sched_stat tk q =
     put32 (put32 (put32 (put32 (put32 (put32 (\<lambda>_. 0) 0 (of_int (ppid q))) 4 tk) 8 (run_time q))
       12 (waiting_time q)) 16 (turnaround_time q)) 20 (finish_time q)"

definition getprocinfo :: "u64 \<Rightarrow> ('z kfile_scheme, int) prog" where
  "getprocinfo addr = wait_for sched_stat 24 addr"

end
