(* ===== verification/Exec.thy ===== *)
theory Exec
  imports Lifecycle
begin

text \<open>
  System call arguments (the fetching half of \<open>kernel/syscall.c\<close>) and program loading
  (\<open>kernel/exec.c\<close>, \<open>kernel/elf.h\<close>). The argument strings of \<open>exec\<close> are pages of
  \<open>kalloc\<close>; \<open>argv\<close> gives their addresses and ends with 0. The \<open>goto bad\<close> exits of
  \<open>exec\<close> are \<open>exec_bad\<close>, with the page table, size and inode the code has at that point.
\<close>

section \<open>Arguments of a system call\<close>

definition get64 :: "cstr \<Rightarrow> nat \<Rightarrow> u64" where
  "get64 b i = ucast (get32 b i) OR push_bit 32 (ucast (get32 b (i + 4)))"

definition fetchaddr :: "u64 \<Rightarrow> ('z kproc_scheme, int \<times> u64) prog" where
  "fetchaddr addr =
     bind curproc (\<lambda>p.
     bind (getp p (\<lambda>q. (psz q, ppagetable q))) (\<lambda>(sz, pt).
     if addr \<ge> sz \<or> addr + 8 > sz then ret (-1, 0)
     else bind (copyin pt (\<lambda>_. 0) addr 8) (\<lambda>(r, b).
     if r \<noteq> 0 then ret (-1, get64 b 0) else ret (0, get64 b 0))))"

definition fetchstr :: "u64 \<Rightarrow> cstr \<Rightarrow> int \<Rightarrow> ('z kproc_scheme, int \<times> cstr) prog" where
  "fetchstr addr buf maxn =
     bind curproc (\<lambda>p.
     bind (getp p ppagetable) (\<lambda>pt.
     bind (copyinstr pt buf addr (of_int maxn)) (\<lambda>(r, buf).
     if r < 0 then ret (-1, buf)
     else case strlen buf of None \<Rightarrow> spin | Some n \<Rightarrow> ret (int n, buf))))"

definition argraw :: "nat \<Rightarrow> ('z kproc_scheme, u64) prog" where
  "argraw n =
     bind curproc (\<lambda>p.
     if n < 6 then get_tf p (TF_A0 + 8 * of_nat n) else panic ''argraw'')"

definition argint :: "nat \<Rightarrow> ('z kproc_scheme, int) prog" where
  "argint n = bind (argraw n) (\<lambda>v. ret (to_int (ucast v)))"

definition argaddr :: "nat \<Rightarrow> ('z kproc_scheme, u64) prog" where
  "argaddr n = argraw n"

definition argstr :: "nat \<Rightarrow> int \<Rightarrow> ('z kproc_scheme, int \<times> cstr) prog" where
  "argstr n maxn = bind (argaddr n) (\<lambda>addr. fetchstr addr (\<lambda>_. 0) maxn)"

text \<open>The bytes of a string up to its NUL, and back.\<close>

fun cbytes :: "nat \<Rightarrow> cstr \<Rightarrow> bytes" where
  "cbytes 0 b = []"
| "cbytes (Suc n) b = (if b 0 = 0 then [] else b 0 # cbytes n (\<lambda>i. b (Suc i)))"

definition of_bytes :: "bytes \<Rightarrow> cstr" where
  "of_bytes l = (\<lambda>i. if i < length l then l ! i else 0)"

section \<open>Loading\<close>

definition ELF_MAGIC :: u32 where
  "ELF_MAGIC = 0x464C457F"

definition ELF_PROG_LOAD :: u32 where
  "ELF_PROG_LOAD = 1"

text \<open>\<open>struct elfhdr\<close> is 64 bytes, \<open>struct proghdr\<close> 56.\<close>

record elfhdr =
  e_magic :: u32
  e_entry :: u64
  e_phoff :: u64
  e_phnum :: u16

record proghdr =
  ph_type :: u32
  ph_flags :: u32
  ph_off :: u64
  ph_vaddr :: u64
  ph_filesz :: u64
  ph_memsz :: u64

definition elf_of :: "cstr \<Rightarrow> elfhdr" where
  "elf_of b = \<lparr>e_magic = get32 b 0, e_entry = get64 b 24, e_phoff = get64 b 32, e_phnum = get16 b 56\<rparr>"

definition ph_of :: "cstr \<Rightarrow> proghdr" where
  "ph_of b = \<lparr>ph_type = get32 b 0, ph_flags = get32 b 4, ph_off = get64 b 8, ph_vaddr = get64 b 16,
     ph_filesz = get64 b 32, ph_memsz = get64 b 40\<rparr>"

definition flags2perm :: "u32 \<Rightarrow> u64" where
  "flags2perm flags =
     (let perm = (if flags AND 1 \<noteq> 0 then PTE_X else 0) in
      if flags AND 2 \<noteq> 0 then perm OR PTE_W else perm)"

text \<open>
  The loop of \<open>loadseg\<close> visits \<open>i = 0, PGSIZE, ...\<close> below \<open>sz\<close>; with \<open>sz\<close> in the last
  page below \<open>2 ^ 32\<close> the counter wraps and the loop does not end.
\<close>

fun loadseg_loop :: "nat list \<Rightarrow> addr \<Rightarrow> u64 \<Rightarrow> nat \<Rightarrow> u32 \<Rightarrow> u32 \<Rightarrow> ('z kfs_scheme, int) prog" where
  "loadseg_loop [] pagetable va ip offset sz = (if unat sz > 2 ^ 32 - PGSIZE then spin else ret 0)"
| "loadseg_loop (k # ks) pagetable va ip offset sz =
     (let i = of_nat (k * PGSIZE) :: u32 in
      bind (walkaddr pagetable (va + ucast i)) (\<lambda>pa.
      if pa = 0 then panic ''loadseg: address should exist''
      else let n = (if sz - i < of_nat PGSIZE then sz - i else of_nat PGSIZE) in
      bind (gets (\<lambda>s. view_at (mem s) pa)) (\<lambda>kb.
      bind (readi ip 0 0 (offset + i) n kb) (\<lambda>(r, kb).
      bind (set_mem (\<lambda>m. move_out m pa kb (unat n))) (\<lambda>_.
      if of_int r \<noteq> n then ret (-1)
      else loadseg_loop ks pagetable va ip offset sz)))))"

definition loadseg :: "addr \<Rightarrow> u64 \<Rightarrow> nat \<Rightarrow> u32 \<Rightarrow> u32 \<Rightarrow> ('z kfs_scheme, int) prog" where
  "loadseg pagetable va ip offset sz =
     loadseg_loop [0..<(unat sz + PGSIZE - 1) div PGSIZE] pagetable va ip offset sz"

definition exec_bad :: "addr \<Rightarrow> u64 \<Rightarrow> nat option \<Rightarrow> ('z kfile_scheme, int) prog" where
  "exec_bad pagetable sz ipr =
     bind (only_if (pagetable \<noteq> 0) (proc_freepagetable pagetable sz)) (\<lambda>_.
     case ipr of
       None \<Rightarrow> ret (-1)
     | Some ip \<Rightarrow> bind (iunlockput ip) (\<lambda>_. bind end_op (\<lambda>_. ret (-1))))"

text \<open>\<open>m\<close> program headers are left; \<open>Inl sz\<close> is a \<open>goto bad\<close> with that size.\<close>

fun exec_load :: "nat \<Rightarrow> nat \<Rightarrow> addr \<Rightarrow> u32 \<Rightarrow> u64 \<Rightarrow> ('z kfs_scheme, u64 + u64) prog" where
  "exec_load 0 ip pagetable off sz = ret (Inr sz)"
| "exec_load (Suc m) ip pagetable off sz =
     bind (readi ip 0 0 off 56 (\<lambda>_. 0)) (\<lambda>(r, b).
     let ph = ph_of b in
     if r \<noteq> 56 then ret (Inl sz)
     else if ph_type ph \<noteq> ELF_PROG_LOAD then exec_load m ip pagetable (off + 56) sz
     else if ph_memsz ph < ph_filesz ph then ret (Inl sz)
     else if ph_vaddr ph + ph_memsz ph < ph_vaddr ph then ret (Inl sz)
     else if ph_vaddr ph mod pgsz \<noteq> 0 then ret (Inl sz)
     else bind (uvmalloc pagetable sz (ph_vaddr ph + ph_memsz ph) (flags2perm (ph_flags ph))) (\<lambda>sz1.
     if sz1 = 0 then ret (Inl sz)
     else bind (loadseg pagetable (ph_vaddr ph) ip (ucast (ph_off ph)) (ucast (ph_filesz ph))) (\<lambda>v.
     if v < 0 then ret (Inl sz1)
     else exec_load m ip pagetable (off + 56) sz1)))"

text \<open>
  Pushing the argument strings: the strings still to push, the stack pointer, and the
  addresses pushed so far. \<open>None\<close> is a \<open>goto bad\<close>.
\<close>

fun exec_push ::
  "nat \<Rightarrow> addr \<Rightarrow> (nat \<Rightarrow> addr) \<Rightarrow> nat \<Rightarrow> u64 \<Rightarrow> u64 \<Rightarrow> u64 list \<Rightarrow> ('z kmem_scheme, (u64 \<times> u64 list) option) prog" where
  "exec_push 0 pagetable argv argc sp stackbase ustack = ret None"
| "exec_push (Suc m) pagetable argv argc sp stackbase ustack =
     (if argv argc = 0 then ret (Some (sp, ustack))
      else if argc \<ge> MAXARG then ret None
      else bind (gets (\<lambda>s. view_at (mem s) (argv argc))) (\<lambda>str.
      case strlen str of
        None \<Rightarrow> spin
      | Some n \<Rightarrow>
      let sp1 = sp - of_nat (n + 1); sp2 = sp1 - sp1 mod 16 in
      if sp2 < stackbase then ret None
      else bind (copyout pagetable sp2 str (of_nat (n + 1))) (\<lambda>v.
      if v < 0 then ret None
      else exec_push m pagetable argv (Suc argc) sp2 stackbase (ustack @ [sp2]))))"

fun put_words :: "u64 list \<Rightarrow> nat \<Rightarrow> cstr \<Rightarrow> cstr" where
  "put_words [] i b = b"
| "put_words (w # ws) i b = put_words ws (i + 8) (put64 b i w)"

fun last_elem :: "bytes \<Rightarrow> bytes \<Rightarrow> bytes" where
  "last_elem [] l = l"
| "last_elem (c # s) l = last_elem s (if c = slash then s else l)"

definition exec_commit :: "nat \<Rightarrow> bytes \<Rightarrow> addr \<Rightarrow> u64 \<Rightarrow> u64 \<Rightarrow> u64 \<Rightarrow> u64 \<Rightarrow> nat \<Rightarrow> ('z kfile_scheme, int) prog" where
  "exec_commit p path pagetable sz sp entry oldsz argc =
     bind (set_tf p TF_A1 sp) (\<lambda>_.
     bind (updp p (\<lambda>q. q\<lparr>pname := safestrcpy (pname q) (of_bytes (last_elem path path)) 16\<rparr>)) (\<lambda>_.
     bind (getp p ppagetable) (\<lambda>oldpagetable.
     bind (updp p (\<lambda>q. q\<lparr>ppagetable := pagetable, psz := sz\<rparr>)) (\<lambda>_.
     bind (set_tf p TF_EPC entry) (\<lambda>_.
     bind (set_tf p TF_SP sp) (\<lambda>_.
     bind (proc_freepagetable oldpagetable oldsz) (\<lambda>_.
     ret (int argc))))))))"

definition exec_stack :: "nat \<Rightarrow> bytes \<Rightarrow> (nat \<Rightarrow> addr) \<Rightarrow> addr \<Rightarrow> u64 \<Rightarrow> u64 \<Rightarrow> ('z kfile_scheme, int) prog" where
  "exec_stack p path argv pagetable sz0 entry =
     bind (getp p psz) (\<lambda>oldsz.
     let sz = PGROUNDUP sz0; span = of_nat (USERSTACK + 1) * pgsz in
     bind (uvmalloc pagetable sz (sz + span) PTE_W) (\<lambda>sz1.
     if sz1 = 0 then exec_bad pagetable sz None
     else bind (uvmclear pagetable (sz1 - span)) (\<lambda>_.
     let stackbase = sz1 - of_nat USERSTACK * pgsz in
     bind (exec_push (Suc MAXARG) pagetable argv 0 sz1 stackbase []) (\<lambda>r.
     case r of
       None \<Rightarrow> exec_bad pagetable sz1 None
     | Some (sp, ustack) \<Rightarrow>
     if length ustack \<ge> MAXARG then undefined_behaviour
     else let argc = length ustack; sp1 = sp - of_nat ((argc + 1) * 8); sp2 = sp1 - sp1 mod 16 in
     if sp2 < stackbase then exec_bad pagetable sz1 None
     else bind (copyout pagetable sp2 (put_words (ustack @ [0]) 0 (\<lambda>_. 0)) (of_nat ((argc + 1) * 8))) (\<lambda>v.
     if v < 0 then exec_bad pagetable sz1 None
     else exec_commit p path pagetable sz1 sp2 entry oldsz argc)))))"

definition exec :: "bytes \<Rightarrow> (nat \<Rightarrow> addr) \<Rightarrow> ('z kfile_scheme, int) prog" where
  "exec path argv =
     bind curproc (\<lambda>p.
     bind begin_op (\<lambda>_.
     bind (namei path) (\<lambda>ipr.
     case ipr of
       None \<Rightarrow> bind end_op (\<lambda>_. ret (-1))
     | Some ip \<Rightarrow>
     bind (ilock (Some ip)) (\<lambda>_.
     bind (readi ip 0 0 0 64 (\<lambda>_. 0)) (\<lambda>(r, b).
     let elf = elf_of b in
     if r \<noteq> 64 then exec_bad 0 0 (Some ip)
     else if e_magic elf \<noteq> ELF_MAGIC then exec_bad 0 0 (Some ip)
     else bind (proc_pagetable p) (\<lambda>pagetable.
     if pagetable = 0 then exec_bad 0 0 (Some ip)
     else bind (exec_load (unat (e_phnum elf)) ip pagetable (ucast (e_phoff elf)) 0) (\<lambda>r.
     case r of
       Inl sz \<Rightarrow> exec_bad pagetable sz (Some ip)
     | Inr sz \<Rightarrow>
     bind (iunlockput ip) (\<lambda>_.
     bind end_op (\<lambda>_.
     bind curproc (\<lambda>p.
     exec_stack p path argv pagetable sz (e_entry elf)))))))))))"

end
