(* ===== verification/Sysfile.thy ===== *)
theory Sysfile
  imports Exec
begin

text \<open>
  The system calls on files (\<open>kernel/sysfile.c\<close>, \<open>kernel/fcntl.h\<close>). Each call reads
  its arguments from the trap frame and returns what the code returns, as a \<open>uint64\<close>. Path
  buffers hold \<open>MAXPATH\<close> bytes.
\<close>

section \<open>Descriptors\<close>

definition O_RDONLY :: int where
  "O_RDONLY = 0"

definition O_WRONLY :: int where
  "O_WRONLY = 1"

definition O_RDWR :: int where
  "O_RDWR = 2"

definition O_CREATE :: int where
  "O_CREATE = 0x200"

definition O_TRUNC :: int where
  "O_TRUNC = 0x400"

definition argfd :: "nat \<Rightarrow> ('z kfile_scheme, (nat \<times> nat) option) prog" where
  "argfd n =
     bind (argint n) (\<lambda>fd.
     if fd < 0 \<or> fd \<ge> int NOFILE then ret None
     else bind curproc (\<lambda>p.
     bind (getp p (\<lambda>q. pofile q (nat fd))) (\<lambda>r.
     case r of None \<Rightarrow> ret None | Some f \<Rightarrow> ret (Some (nat fd, f)))))"

definition fdalloc :: "nat \<Rightarrow> ('z kfile_scheme, int) prog" where
  "fdalloc f =
     bind curproc (\<lambda>p.
     bind (for_until [0..<NOFILE] (\<lambda>fd.
       bind (getp p (\<lambda>q. pofile q fd)) (\<lambda>r.
       if r = None
       then bind (updp p (\<lambda>q. q\<lparr>pofile := (pofile q)(fd := Some f)\<rparr>)) (\<lambda>_. ret (Some (int fd)))
       else ret None))) (\<lambda>r.
     ret (case r of None \<Rightarrow> -1 | Some fd \<Rightarrow> fd)))"

definition arg_path :: "nat \<Rightarrow> ('z kproc_scheme, bytes option) prog" where
  "arg_path n =
     bind (argstr n (int MAXPATH)) (\<lambda>(r, b).
     ret (if r < 0 then None else Some (cbytes MAXPATH b)))"

definition sys_dup :: "('z kfile_scheme, u64) prog" where
  "sys_dup =
     bind (argfd 0) (\<lambda>r.
     case r of
       None \<Rightarrow> ret (-1)
     | Some (_, f) \<Rightarrow>
         bind (fdalloc f) (\<lambda>fd.
         if fd < 0 then ret (-1)
         else bind (filedup f) (\<lambda>_. ret (of_int fd))))"

definition sys_read :: "('z kfile_scheme, u64) prog" where
  "sys_read =
     bind (argaddr 1) (\<lambda>p.
     bind (argint 2) (\<lambda>n.
     bind (argfd 0) (\<lambda>r.
     case r of
       None \<Rightarrow> ret (-1)
     | Some (_, f) \<Rightarrow> bind (fileread f p n) (\<lambda>v. ret (of_int v)))))"

definition sys_write :: "('z kfile_scheme, u64) prog" where
  "sys_write =
     bind (argaddr 1) (\<lambda>p.
     bind (argint 2) (\<lambda>n.
     bind (argfd 0) (\<lambda>r.
     case r of
       None \<Rightarrow> ret (-1)
     | Some (_, f) \<Rightarrow> bind (filewrite f p n) (\<lambda>v. ret (of_int v)))))"

definition close_fd :: "nat \<Rightarrow> nat \<Rightarrow> ('z kfile_scheme, unit) prog" where
  "close_fd p fd = updp p (\<lambda>q. q\<lparr>pofile := (pofile q)(fd := None)\<rparr>)"

definition sys_close :: "('z kfile_scheme, u64) prog" where
  "sys_close =
     bind (argfd 0) (\<lambda>r.
     case r of
       None \<Rightarrow> ret (-1)
     | Some (fd, f) \<Rightarrow>
         bind curproc (\<lambda>p.
         bind (close_fd p fd) (\<lambda>_.
         bind (fileclose f) (\<lambda>_.
         ret 0))))"

definition sys_fstat :: "('z kfile_scheme, u64) prog" where
  "sys_fstat =
     bind (argaddr 1) (\<lambda>st.
     bind (argfd 0) (\<lambda>r.
     case r of
       None \<Rightarrow> ret (-1)
     | Some (_, f) \<Rightarrow> bind (filestat f st) (\<lambda>v. ret (of_int v))))"

section \<open>Links\<close>

definition sys_link_bad :: "nat \<Rightarrow> ('z kfile_scheme, u64) prog" where
  "sys_link_bad ip =
     bind (ilock (Some ip)) (\<lambda>_.
     bind (updi ip (\<lambda>k. k\<lparr>inlink := inlink k - 1\<rparr>)) (\<lambda>_.
     bind (iupdate ip) (\<lambda>_.
     bind (iunlockput ip) (\<lambda>_.
     bind end_op (\<lambda>_.
     ret (-1))))))"

definition sys_link :: "('z kfile_scheme, u64) prog" where
  "sys_link =
     bind (arg_path 0) (\<lambda>ro.
     case ro of None \<Rightarrow> ret (-1) | Some old \<Rightarrow>
     bind (arg_path 1) (\<lambda>rn.
     case rn of None \<Rightarrow> ret (-1) | Some new \<Rightarrow>
     bind begin_op (\<lambda>_.
     bind (namei old) (\<lambda>r.
     case r of None \<Rightarrow> bind end_op (\<lambda>_. ret (-1)) | Some ip \<Rightarrow>
     bind (ilock (Some ip)) (\<lambda>_.
     bind (geti ip itype) (\<lambda>ty.
     if ty = T_DIR then bind (iunlockput ip) (\<lambda>_. bind end_op (\<lambda>_. ret (-1)))
     else bind (updi ip (\<lambda>k. k\<lparr>inlink := inlink k + 1\<rparr>)) (\<lambda>_.
     bind (iupdate ip) (\<lambda>_.
     bind (iunlock (Some ip)) (\<lambda>_.
     bind (nameiparent new (\<lambda>_. 0)) (\<lambda>(rd, name).
     case rd of None \<Rightarrow> sys_link_bad ip | Some dp \<Rightarrow>
     bind (ilock (Some dp)) (\<lambda>_.
     bind (gets (\<lambda>s. (idev (inodes s dp), idev (inodes s ip), inum (inodes s ip)))) (\<lambda>(ddev, dev, n).
     bind (if ddev \<noteq> dev then ret (-1) else dirlink dp name n) (\<lambda>v.
     if v < 0 then bind (iunlockput dp) (\<lambda>_. sys_link_bad ip)
     else bind (iunlockput dp) (\<lambda>_.
     bind (iput ip) (\<lambda>_.
     bind end_op (\<lambda>_.
     ret 0))))))))))))))))"

fun isdirempty_loop :: "nat list \<Rightarrow> nat \<Rightarrow> cstr \<Rightarrow> ('z kfs_scheme, int) prog" where
  "isdirempty_loop [] dp de = ret 1"
| "isdirempty_loop (j # js) dp de =
     bind (readi dp 0 0 (of_nat (DIRENT * j)) (of_nat DIRENT) de) (\<lambda>(r, de).
     if r \<noteq> int DIRENT then panic ''isdirempty: readi''
     else if de_inum de \<noteq> 0 then ret 0
     else isdirempty_loop js dp de)"

definition isdirempty :: "nat \<Rightarrow> ('z kfs_scheme, int) prog" where
  "isdirempty dp =
     bind (geti dp isize) (\<lambda>sz.
     isdirempty_loop (drop 2 (entries sz)) dp (\<lambda>_. 0))"

definition sys_unlink_bad :: "nat \<Rightarrow> ('z kfile_scheme, u64) prog" where
  "sys_unlink_bad dp = bind (iunlockput dp) (\<lambda>_. bind end_op (\<lambda>_. ret (-1)))"

definition sys_unlink :: "('z kfile_scheme, u64) prog" where
  "sys_unlink =
     bind (arg_path 0) (\<lambda>rp.
     case rp of None \<Rightarrow> ret (-1) | Some path \<Rightarrow>
     bind begin_op (\<lambda>_.
     bind (nameiparent path (\<lambda>_. 0)) (\<lambda>(rd, name).
     case rd of None \<Rightarrow> bind end_op (\<lambda>_. ret (-1)) | Some dp \<Rightarrow>
     bind (ilock (Some dp)) (\<lambda>_.
     if namecmp name (lit ''.'') = 0 \<or> namecmp name (lit ''..'') = 0 then sys_unlink_bad dp
     else bind (dirlookup dp name) (\<lambda>r.
     case r of None \<Rightarrow> sys_unlink_bad dp | Some (ip, off) \<Rightarrow>
     bind (ilock (Some ip)) (\<lambda>_.
     bind (geti ip (\<lambda>k. (inlink k, itype k))) (\<lambda>(nl, ty).
     if sint nl < 1 then panic ''unlink: nlink < 1''
     else bind (if ty = T_DIR then isdirempty ip else ret 1) (\<lambda>ok.
     if ok = 0 then bind (iunlockput ip) (\<lambda>_. sys_unlink_bad dp)
     else bind (writei dp 0 0 off (of_nat DIRENT) (\<lambda>_. 0)) (\<lambda>w.
     if w \<noteq> int DIRENT then panic ''unlink: writei''
     else bind (only_if (ty = T_DIR)
       (bind (updi dp (\<lambda>k. k\<lparr>inlink := inlink k - 1\<rparr>)) (\<lambda>_. iupdate dp))) (\<lambda>_.
     bind (iunlockput dp) (\<lambda>_.
     bind (updi ip (\<lambda>k. k\<lparr>inlink := inlink k - 1\<rparr>)) (\<lambda>_.
     bind (iupdate ip) (\<lambda>_.
     bind (iunlockput ip) (\<lambda>_.
     bind end_op (\<lambda>_.
     ret 0)))))))))))))))"

section \<open>Creating and opening\<close>

definition create_fail :: "nat \<Rightarrow> nat \<Rightarrow> ('z kfile_scheme, nat option) prog" where
  "create_fail ip dp =
     bind (updi ip (\<lambda>k. k\<lparr>inlink := 0\<rparr>)) (\<lambda>_.
     bind (iupdate ip) (\<lambda>_.
     bind (iunlockput ip) (\<lambda>_.
     bind (iunlockput dp) (\<lambda>_.
     ret None))))"

definition create :: "bytes \<Rightarrow> u16 \<Rightarrow> u16 \<Rightarrow> u16 \<Rightarrow> ('z kfile_scheme, nat option) prog" where
  "create path type major minor =
     bind (nameiparent path (\<lambda>_. 0)) (\<lambda>(rd, name).
     case rd of None \<Rightarrow> ret None | Some dp \<Rightarrow>
     bind (ilock (Some dp)) (\<lambda>_.
     bind (dirlookup dp name) (\<lambda>r.
     case r of
       Some (ip, _) \<Rightarrow>
         bind (iunlockput dp) (\<lambda>_.
         bind (ilock (Some ip)) (\<lambda>_.
         bind (geti ip itype) (\<lambda>ty.
         if type = T_FILE \<and> (ty = T_FILE \<or> ty = T_DEVICE) then ret (Some ip)
         else bind (iunlockput ip) (\<lambda>_. ret None))))
     | None \<Rightarrow>
     bind (geti dp idev) (\<lambda>dev.
     bind (ialloc dev type) (\<lambda>ra.
     case ra of None \<Rightarrow> bind (iunlockput dp) (\<lambda>_. ret None) | Some ip \<Rightarrow>
     bind (ilock (Some ip)) (\<lambda>_.
     bind (updi ip (\<lambda>k. k\<lparr>imajor := major, iminor := minor, inlink := 1\<rparr>)) (\<lambda>_.
     bind (iupdate ip) (\<lambda>_.
     bind (gets (\<lambda>s. (inum (inodes s ip), inum (inodes s dp)))) (\<lambda>(n, dn).
     bind (if type = T_DIR
           then bind (dirlink ip (lit ''.'') n) (\<lambda>v. if v < 0 then ret (-1) else dirlink ip (lit ''..'') dn)
           else ret 0) (\<lambda>v.
     if v < 0 then create_fail ip dp
     else bind (dirlink dp name n) (\<lambda>w.
     if w < 0 then create_fail ip dp
     else bind (only_if (type = T_DIR)
       (bind (updi dp (\<lambda>k. k\<lparr>inlink := inlink k + 1\<rparr>)) (\<lambda>_. iupdate dp))) (\<lambda>_.
     bind (iunlockput dp) (\<lambda>_.
     ret (Some ip))))))))))))))"

text \<open>The first half of \<open>sys_open\<close>: the locked inode, or the failure return.\<close>

definition open_inode :: "bytes \<Rightarrow> int \<Rightarrow> ('z kfile_scheme, nat option) prog" where
  "open_inode path omode =
     (if omode AND O_CREATE \<noteq> 0
      then bind (create path T_FILE 0 0) (\<lambda>r.
           case r of None \<Rightarrow> bind end_op (\<lambda>_. ret None) | Some ip \<Rightarrow> ret (Some ip))
      else bind (namei path) (\<lambda>r.
           case r of
             None \<Rightarrow> bind end_op (\<lambda>_. ret None)
           | Some ip \<Rightarrow>
               bind (ilock (Some ip)) (\<lambda>_.
               bind (geti ip itype) (\<lambda>ty.
               if ty = T_DIR \<and> omode \<noteq> O_RDONLY
               then bind (iunlockput ip) (\<lambda>_. bind end_op (\<lambda>_. ret None))
               else ret (Some ip)))))"

definition open_file :: "nat \<Rightarrow> int \<Rightarrow> inode \<Rightarrow> ofile \<Rightarrow> ofile" where
  "open_file ip omode i k =
     (let k1 = (if itype i = T_DEVICE then k\<lparr>fkind := FD_DEVICE, fmajor := imajor i\<rparr>
                else k\<lparr>fkind := FD_INODE, foff := 0\<rparr>)
      in k1\<lparr>fip := Some ip, freadable := (if omode AND O_WRONLY = 0 then 1 else 0),
            fwritable := (if omode AND O_WRONLY \<noteq> 0 \<or> omode AND O_RDWR \<noteq> 0 then 1 else 0)\<rparr>)"

definition sys_open :: "('z kfile_scheme, u64) prog" where
  "sys_open =
     bind (argint 1) (\<lambda>omode.
     bind (arg_path 0) (\<lambda>rp.
     case rp of None \<Rightarrow> ret (-1) | Some path \<Rightarrow>
     bind begin_op (\<lambda>_.
     bind (open_inode path omode) (\<lambda>r.
     case r of None \<Rightarrow> ret (-1) | Some ip \<Rightarrow>
     bind (geti ip id) (\<lambda>i.
     if itype i = T_DEVICE \<and> bad_major (imajor i)
     then bind (iunlockput ip) (\<lambda>_. bind end_op (\<lambda>_. ret (-1)))
     else bind filealloc (\<lambda>rf.
     bind (case rf of None \<Rightarrow> ret (-1) | Some f \<Rightarrow> fdalloc f) (\<lambda>fd.
     if fd < 0
     then bind (case rf of None \<Rightarrow> ret () | Some f \<Rightarrow> fileclose f) (\<lambda>_.
          bind (iunlockput ip) (\<lambda>_. bind end_op (\<lambda>_. ret (-1))))
     else bind (case rf of None \<Rightarrow> ret () | Some f \<Rightarrow> updf f (open_file ip omode i)) (\<lambda>_.
     bind (only_if (omode AND O_TRUNC \<noteq> 0 \<and> itype i = T_FILE) (itrunc ip)) (\<lambda>_.
     bind (iunlock (Some ip)) (\<lambda>_.
     bind end_op (\<lambda>_.
     ret (of_int fd))))))))))))"

definition sys_mkdir :: "('z kfile_scheme, u64) prog" where
  "sys_mkdir =
     bind begin_op (\<lambda>_.
     bind (arg_path 0) (\<lambda>rp.
     bind (case rp of None \<Rightarrow> ret None | Some path \<Rightarrow> create path T_DIR 0 0) (\<lambda>r.
     case r of
       None \<Rightarrow> bind end_op (\<lambda>_. ret (-1))
     | Some ip \<Rightarrow> bind (iunlockput ip) (\<lambda>_. bind end_op (\<lambda>_. ret 0)))))"

definition sys_mknod :: "('z kfile_scheme, u64) prog" where
  "sys_mknod =
     bind begin_op (\<lambda>_.
     bind (argint 1) (\<lambda>major.
     bind (argint 2) (\<lambda>minor.
     bind (arg_path 0) (\<lambda>rp.
     bind (case rp of None \<Rightarrow> ret None | Some path \<Rightarrow> create path T_DEVICE (of_int major) (of_int minor)) (\<lambda>r.
     case r of
       None \<Rightarrow> bind end_op (\<lambda>_. ret (-1))
     | Some ip \<Rightarrow> bind (iunlockput ip) (\<lambda>_. bind end_op (\<lambda>_. ret 0)))))))"

definition sys_chdir :: "('z kfile_scheme, u64) prog" where
  "sys_chdir =
     bind curproc (\<lambda>p.
     bind begin_op (\<lambda>_.
     bind (arg_path 0) (\<lambda>rp.
     bind (case rp of None \<Rightarrow> ret None | Some path \<Rightarrow> namei path) (\<lambda>r.
     case r of
       None \<Rightarrow> bind end_op (\<lambda>_. ret (-1))
     | Some ip \<Rightarrow>
         bind (ilock (Some ip)) (\<lambda>_.
         bind (geti ip itype) (\<lambda>ty.
         if ty \<noteq> T_DIR then bind (iunlockput ip) (\<lambda>_. bind end_op (\<lambda>_. ret (-1)))
         else bind (iunlock (Some ip)) (\<lambda>_.
         bind (getp p pcwd) (\<lambda>c.
         bind (the_inode c) (\<lambda>cwd.
         bind (iput cwd) (\<lambda>_.
         bind end_op (\<lambda>_.
         bind (updp p (\<lambda>q. q\<lparr>pcwd := Some ip\<rparr>)) (\<lambda>_.
         ret 0))))))))))))"

section \<open>exec and pipe\<close>

text \<open>
  The loop of \<open>sys_exec\<close> over the user's argument vector: \<open>m\<close> slots of \<open>argv\<close> are left.
  The result says whether the vector is complete and gives the pages allocated so far.
\<close>

fun exec_args :: "nat \<Rightarrow> u64 \<Rightarrow> addr list \<Rightarrow> ('z kfile_scheme, bool \<times> addr list) prog" where
  "exec_args 0 uargv pages = ret (False, pages)"
| "exec_args (Suc m) uargv pages =
     bind (fetchaddr (uargv + 8 * of_nat (length pages))) (\<lambda>(v, uarg).
     if v < 0 then ret (False, pages)
     else if uarg = 0 then ret (True, pages)
     else bind kalloc (\<lambda>pg.
     if pg = 0 then ret (False, pages)
     else bind (gets (\<lambda>s. view_at (mem s) pg)) (\<lambda>old.
     bind (fetchstr uarg old (int PGSIZE)) (\<lambda>(n, b).
     bind (set_mem (\<lambda>m. move_out m pg b PGSIZE)) (\<lambda>_.
     if n < 0 then ret (False, pages @ [pg])
     else exec_args m uargv (pages @ [pg]))))))"

definition sys_exec :: "('z kfile_scheme, u64) prog" where
  "sys_exec =
     bind (argaddr 1) (\<lambda>uargv.
     bind (arg_path 0) (\<lambda>rp.
     case rp of None \<Rightarrow> ret (-1) | Some path \<Rightarrow>
     bind (exec_args MAXARG uargv []) (\<lambda>(ok, pages).
     bind (if ok then exec path (\<lambda>i. if i < length pages then pages ! i else 0) else ret (-1)) (\<lambda>v.
     bind (for_each pages kfree) (\<lambda>_.
     ret (of_int v))))))"

definition sys_pipe :: "('z kfile_scheme, u64) prog" where
  "sys_pipe =
     bind curproc (\<lambda>p.
     bind (argaddr 0) (\<lambda>fdarray.
     bind pipealloc (\<lambda>r.
     case r of None \<Rightarrow> ret (-1) | Some (rfl, wfl) \<Rightarrow>
     bind (fdalloc rfl) (\<lambda>fd0.
     bind (if fd0 < 0 then ret (-1) else fdalloc wfl) (\<lambda>fd1.
     if fd0 < 0 \<or> fd1 < 0
     then bind (only_if (fd0 \<ge> 0) (close_fd p (nat fd0))) (\<lambda>_.
          bind (fileclose rfl) (\<lambda>_. bind (fileclose wfl) (\<lambda>_. ret (-1))))
     else bind (getp p ppagetable) (\<lambda>pt.
     bind (copyout pt fdarray (put32 (\<lambda>_. 0) 0 (of_int fd0)) 4) (\<lambda>v.
     bind (if v < 0 then ret (-1) else copyout pt (fdarray + 4) (put32 (\<lambda>_. 0) 0 (of_int fd1)) 4) (\<lambda>w.
     if w < 0
     then bind (close_fd p (nat fd0)) (\<lambda>_.
          bind (close_fd p (nat fd1)) (\<lambda>_.
          bind (fileclose rfl) (\<lambda>_. bind (fileclose wfl) (\<lambda>_. ret (-1)))))
     else ret 0))))))))"

end
