(* ===== verification/Virtio.thy ===== *)
theory Virtio
  imports Sysfile
begin

text \<open>
  The disk driver (\<open>kernel/virtio_disk.c\<close>, \<open>kernel/virtio.h\<close>) in detail: the descriptor
  table, the available and used rings, and the driver's book-keeping. The theory \<open>Bio\<close> uses
  a request as one atomic step; this one models how the driver builds a request, sleeps,
  and is woken by the interrupt.

  A DMA address names the object it points to. Sleeping ends a run: \<open>virtio_start\<close> is
  \<open>virtio_disk_rw\<close> up to its wait loop and \<open>virtio_wait\<close> that loop and what follows it,
  from where a woken thread continues. The registers hold what was last written to them. \<open>device_serve\<close> is the
  device's side as the virtio specification has it: it takes one chain from the available
  ring, moves the block, writes the status byte and adds the chain to the used ring.
\<close>

section \<open>State\<close>

definition NUM :: nat where
  "NUM = 8"

definition VIRTIO_MMIO_MAGIC_VALUE :: nat where
  "VIRTIO_MMIO_MAGIC_VALUE = 0x000"

definition VIRTIO_MMIO_VERSION :: nat where
  "VIRTIO_MMIO_VERSION = 0x004"

definition VIRTIO_MMIO_DEVICE_ID :: nat where
  "VIRTIO_MMIO_DEVICE_ID = 0x008"

definition VIRTIO_MMIO_VENDOR_ID :: nat where
  "VIRTIO_MMIO_VENDOR_ID = 0x00c"

definition VIRTIO_MMIO_DEVICE_FEATURES :: nat where
  "VIRTIO_MMIO_DEVICE_FEATURES = 0x010"

definition VIRTIO_MMIO_DRIVER_FEATURES :: nat where
  "VIRTIO_MMIO_DRIVER_FEATURES = 0x020"

definition VIRTIO_MMIO_QUEUE_SEL :: nat where
  "VIRTIO_MMIO_QUEUE_SEL = 0x030"

definition VIRTIO_MMIO_QUEUE_NUM_MAX :: nat where
  "VIRTIO_MMIO_QUEUE_NUM_MAX = 0x034"

definition VIRTIO_MMIO_QUEUE_NUM :: nat where
  "VIRTIO_MMIO_QUEUE_NUM = 0x038"

definition VIRTIO_MMIO_QUEUE_READY :: nat where
  "VIRTIO_MMIO_QUEUE_READY = 0x044"

definition VIRTIO_MMIO_QUEUE_NOTIFY :: nat where
  "VIRTIO_MMIO_QUEUE_NOTIFY = 0x050"

definition VIRTIO_MMIO_INTERRUPT_STATUS :: nat where
  "VIRTIO_MMIO_INTERRUPT_STATUS = 0x060"

definition VIRTIO_MMIO_INTERRUPT_ACK :: nat where
  "VIRTIO_MMIO_INTERRUPT_ACK = 0x064"

definition VIRTIO_MMIO_STATUS :: nat where
  "VIRTIO_MMIO_STATUS = 0x070"

definition VIRTIO_MMIO_QUEUE_DESC_LOW :: nat where
  "VIRTIO_MMIO_QUEUE_DESC_LOW = 0x080"

definition VIRTIO_MMIO_QUEUE_DESC_HIGH :: nat where
  "VIRTIO_MMIO_QUEUE_DESC_HIGH = 0x084"

definition VIRTIO_MMIO_DRIVER_DESC_LOW :: nat where
  "VIRTIO_MMIO_DRIVER_DESC_LOW = 0x090"

definition VIRTIO_MMIO_DRIVER_DESC_HIGH :: nat where
  "VIRTIO_MMIO_DRIVER_DESC_HIGH = 0x094"

definition VIRTIO_MMIO_DEVICE_DESC_LOW :: nat where
  "VIRTIO_MMIO_DEVICE_DESC_LOW = 0x0a0"

definition VIRTIO_MMIO_DEVICE_DESC_HIGH :: nat where
  "VIRTIO_MMIO_DEVICE_DESC_HIGH = 0x0a4"

definition VIRTIO_CONFIG_S_ACKNOWLEDGE :: u32 where
  "VIRTIO_CONFIG_S_ACKNOWLEDGE = 1"

definition VIRTIO_CONFIG_S_DRIVER :: u32 where
  "VIRTIO_CONFIG_S_DRIVER = 2"

definition VIRTIO_CONFIG_S_DRIVER_OK :: u32 where
  "VIRTIO_CONFIG_S_DRIVER_OK = 4"

definition VIRTIO_CONFIG_S_FEATURES_OK :: u32 where
  "VIRTIO_CONFIG_S_FEATURES_OK = 8"

definition VRING_DESC_F_NEXT :: u16 where
  "VRING_DESC_F_NEXT = 1"

definition VRING_DESC_F_WRITE :: u16 where
  "VRING_DESC_F_WRITE = 2"

definition VIRTIO_BLK_T_IN :: u32 where
  "VIRTIO_BLK_T_IN = 0"

definition VIRTIO_BLK_T_OUT :: u32 where
  "VIRTIO_BLK_T_OUT = 1"

text \<open>The feature bits that the driver clears: RO, SCSI, CONFIG_WCE, MQ, ANY_LAYOUT, EVENT_IDX, INDIRECT_DESC.\<close>

definition VIRTIO_OFF_FEATURES :: "nat list" where
  "VIRTIO_OFF_FEATURES = [5, 7, 11, 12, 27, 29, 28]"

datatype dma = NoDma | OpDma nat | DataDma nat | StatusDma nat

record virtq_desc =
  d_addr :: dma
  d_len :: u32
  d_flags :: u16
  d_next :: u16

record virtio_blk_req =
  r_type :: u32
  r_reserved :: u32
  r_sector :: u64

record kvirt = kfile +
  vregs :: "nat \<Rightarrow> u32"
  disk_desc :: addr
  disk_avail :: addr
  disk_used :: addr
  vdesc :: "nat \<Rightarrow> virtq_desc"
  avail_idx :: u16
  avail_ring :: "nat \<Rightarrow> u16"
  used_ring_idx :: u16
  used_ring :: "nat \<Rightarrow> u32"
  vfree :: "nat \<Rightarrow> bool"
  used_idx :: u16
  info_b :: "nat \<Rightarrow> nat option"
  info_status :: "nat \<Rightarrow> u8"
  vops :: "nat \<Rightarrow> virtio_blk_req"

definition rdreg :: "nat \<Rightarrow> ('z kvirt_scheme, u32) prog" where
  "rdreg r = gets (\<lambda>s. vregs s r)"

definition wrreg :: "nat \<Rightarrow> u32 \<Rightarrow> ('z kvirt_scheme, unit) prog" where
  "wrreg r v = modify (\<lambda>s. s\<lparr>vregs := (vregs s)(r := v)\<rparr>)"

definition no_desc :: virtq_desc where
  "no_desc = \<lparr>d_addr = NoDma, d_len = 0, d_flags = 0, d_next = 0\<rparr>"

definition upd_desc :: "nat \<Rightarrow> virtq_desc \<Rightarrow> ('z kvirt_scheme, unit) prog" where
  "upd_desc i d = modify (\<lambda>s. s\<lparr>vdesc := (vdesc s)(i := d)\<rparr>)"

section \<open>Initialisation\<close>

definition virtio_disk_init :: "('z kvirt_scheme, unit) prog" where
  "virtio_disk_init =
     bind (initlock VdiskLock ''virtio_disk'') (\<lambda>_.
     bind (rdreg VIRTIO_MMIO_MAGIC_VALUE) (\<lambda>magic.
     bind (rdreg VIRTIO_MMIO_VERSION) (\<lambda>version.
     bind (rdreg VIRTIO_MMIO_DEVICE_ID) (\<lambda>devid.
     bind (rdreg VIRTIO_MMIO_VENDOR_ID) (\<lambda>vendor.
     if magic \<noteq> 0x74726976 \<or> version \<noteq> 2 \<or> devid \<noteq> 2 \<or> vendor \<noteq> 0x554d4551
     then panic ''could not find virtio disk''
     else let st1 = VIRTIO_CONFIG_S_ACKNOWLEDGE; st2 = st1 OR VIRTIO_CONFIG_S_DRIVER;
              st3 = st2 OR VIRTIO_CONFIG_S_FEATURES_OK in
     bind (wrreg VIRTIO_MMIO_STATUS 0) (\<lambda>_.
     bind (wrreg VIRTIO_MMIO_STATUS st1) (\<lambda>_.
     bind (wrreg VIRTIO_MMIO_STATUS st2) (\<lambda>_.
     bind (rdreg VIRTIO_MMIO_DEVICE_FEATURES) (\<lambda>features.
     bind (wrreg VIRTIO_MMIO_DRIVER_FEATURES (fold (\<lambda>b f. f AND NOT (push_bit b 1)) VIRTIO_OFF_FEATURES features)) (\<lambda>_.
     bind (wrreg VIRTIO_MMIO_STATUS st3) (\<lambda>_.
     bind (rdreg VIRTIO_MMIO_STATUS) (\<lambda>st.
     if st AND VIRTIO_CONFIG_S_FEATURES_OK = 0 then panic ''virtio disk FEATURES_OK unset''
     else bind (wrreg VIRTIO_MMIO_QUEUE_SEL 0) (\<lambda>_.
     bind (rdreg VIRTIO_MMIO_QUEUE_READY) (\<lambda>ready.
     if ready \<noteq> 0 then panic ''virtio disk should not be ready''
     else bind (rdreg VIRTIO_MMIO_QUEUE_NUM_MAX) (\<lambda>qmax.
     if qmax = 0 then panic ''virtio disk has no queue 0''
     else if unat qmax < NUM then panic ''virtio disk max queue too short''
     else bind kalloc (\<lambda>desc.
     bind kalloc (\<lambda>avail.
     bind kalloc (\<lambda>used.
     bind (modify (\<lambda>s. s\<lparr>disk_desc := desc, disk_avail := avail, disk_used := used\<rparr>)) (\<lambda>_.
     if desc = 0 \<or> avail = 0 \<or> used = 0 then panic ''virtio disk kalloc''
     else bind (set_mem (\<lambda>m. memset (memset (memset m desc 0 PGSIZE) avail 0 PGSIZE) used 0 PGSIZE)) (\<lambda>_.
     bind (modify (\<lambda>s. s\<lparr>vdesc := (\<lambda>_. no_desc), avail_idx := 0, avail_ring := (\<lambda>_. 0),
       used_ring_idx := 0, used_ring := (\<lambda>_. 0)\<rparr>)) (\<lambda>_.
     bind (wrreg VIRTIO_MMIO_QUEUE_NUM (of_nat NUM)) (\<lambda>_.
     bind (wrreg VIRTIO_MMIO_QUEUE_DESC_LOW (ucast desc)) (\<lambda>_.
     bind (wrreg VIRTIO_MMIO_QUEUE_DESC_HIGH (ucast (drop_bit 32 desc))) (\<lambda>_.
     bind (wrreg VIRTIO_MMIO_DRIVER_DESC_LOW (ucast avail)) (\<lambda>_.
     bind (wrreg VIRTIO_MMIO_DRIVER_DESC_HIGH (ucast (drop_bit 32 avail))) (\<lambda>_.
     bind (wrreg VIRTIO_MMIO_DEVICE_DESC_LOW (ucast used)) (\<lambda>_.
     bind (wrreg VIRTIO_MMIO_DEVICE_DESC_HIGH (ucast (drop_bit 32 used))) (\<lambda>_.
     bind (wrreg VIRTIO_MMIO_QUEUE_READY 1) (\<lambda>_.
     bind (modify (\<lambda>s. s\<lparr>vfree := (\<lambda>i. if i < NUM then True else vfree s i)\<rparr>)) (\<lambda>_.
     wrreg VIRTIO_MMIO_STATUS (st OR VIRTIO_CONFIG_S_DRIVER_OK)))))))))))))))))))))))))))))))"

section \<open>Descriptors\<close>

definition alloc_desc :: "('z kvirt_scheme, nat option) prog" where
  "alloc_desc =
     for_until [0..<NUM] (\<lambda>i.
       bind (gets (\<lambda>s. vfree s i)) (\<lambda>f.
       if f then bind (modify (\<lambda>s. s\<lparr>vfree := (vfree s)(i := False)\<rparr>)) (\<lambda>_. ret (Some i))
       else ret None))"

definition free_desc :: "nat \<Rightarrow> ('z kvirt_scheme, unit) prog" where
  "free_desc i =
     (if i \<ge> NUM then panic ''free_desc 1''
      else bind (gets (\<lambda>s. vfree s i)) (\<lambda>f.
      if f then panic ''free_desc 2''
      else bind (upd_desc i no_desc) (\<lambda>_.
      bind (modify (\<lambda>s. s\<lparr>vfree := (vfree s)(i := True)\<rparr>)) (\<lambda>_.
      wakeup ChDiskFree))))"

text \<open>
  The loop frees a descriptor per turn and panics on one that is free already, so it takes
  at most \<open>NUM\<close> turns and the panic.
\<close>

fun free_chain_loop :: "nat \<Rightarrow> nat \<Rightarrow> ('z kvirt_scheme, unit) prog" where
  "free_chain_loop 0 i = spin"
| "free_chain_loop (Suc k) i =
     bind (gets (\<lambda>s. (d_flags (vdesc s i), d_next (vdesc s i)))) (\<lambda>(flag, nxt).
     bind (free_desc i) (\<lambda>_.
     if flag AND VRING_DESC_F_NEXT \<noteq> 0 then free_chain_loop k (unat nxt) else ret ()))"

definition free_chain :: "nat \<Rightarrow> ('z kvirt_scheme, unit) prog" where
  "free_chain i = free_chain_loop (Suc NUM) i"

fun alloc3_loop :: "nat \<Rightarrow> nat list \<Rightarrow> ('z kvirt_scheme, nat list option) prog" where
  "alloc3_loop 0 idx = ret (Some idx)"
| "alloc3_loop (Suc k) idx =
     bind alloc_desc (\<lambda>r.
     case r of
       Some i \<Rightarrow> alloc3_loop k (idx @ [i])
     | None \<Rightarrow> bind (for_each idx free_desc) (\<lambda>_. ret None))"

definition alloc3_desc :: "('z kvirt_scheme, nat list option) prog" where
  "alloc3_desc = alloc3_loop 3 []"

section \<open>Requests\<close>

definition sector_of :: "u32 \<Rightarrow> u64" where
  "sector_of blockno = ucast (blockno * 2)"

definition virtio_format :: "nat \<Rightarrow> int \<Rightarrow> nat \<Rightarrow> nat \<Rightarrow> nat \<Rightarrow> ('z kvirt_scheme, unit) prog" where
  "virtio_format b write i0 i1 i2 =
     bind (getb b bblockno) (\<lambda>bn.
     bind (modify (\<lambda>s. s\<lparr>vops := (vops s)(i0 := \<lparr>r_type = (if write \<noteq> 0 then VIRTIO_BLK_T_OUT else VIRTIO_BLK_T_IN),
       r_reserved = 0, r_sector = sector_of bn\<rparr>)\<rparr>)) (\<lambda>_.
     bind (upd_desc i0 \<lparr>d_addr = OpDma i0, d_len = 16, d_flags = VRING_DESC_F_NEXT, d_next = of_nat i1\<rparr>) (\<lambda>_.
     bind (upd_desc i1 \<lparr>d_addr = DataDma b, d_len = of_nat BSIZE,
       d_flags = (if write \<noteq> 0 then 0 else VRING_DESC_F_WRITE) OR VRING_DESC_F_NEXT, d_next = of_nat i2\<rparr>) (\<lambda>_.
     bind (modify (\<lambda>s. s\<lparr>info_status := (info_status s)(i0 := 0xff)\<rparr>)) (\<lambda>_.
     bind (upd_desc i2 \<lparr>d_addr = StatusDma i0, d_len = 1, d_flags = VRING_DESC_F_WRITE, d_next = 0\<rparr>) (\<lambda>_.
     bind (updb b (\<lambda>k. k\<lparr>bdisk := 1\<rparr>)) (\<lambda>_.
     bind (modify (\<lambda>s. s\<lparr>info_b := (info_b s)(i0 := Some b)\<rparr>)) (\<lambda>_.
     bind (modify (\<lambda>s. s\<lparr>avail_ring := (avail_ring s)(unat (avail_idx s) mod NUM := of_nat i0)\<rparr>)) (\<lambda>_.
     bind (modify (\<lambda>s. s\<lparr>avail_idx := avail_idx s + 1\<rparr>)) (\<lambda>_.
     wrreg VIRTIO_MMIO_QUEUE_NOTIFY 0))))))))))"

definition virtio_wait :: "nat \<Rightarrow> nat \<Rightarrow> ('z kvirt_scheme, unit) prog" where
  "virtio_wait b i0 =
     bind (getb b bdisk) (\<lambda>d.
     bind (only_if (d = 1) (sleep (ChBuf b) VdiskLock)) (\<lambda>_.
     bind (modify (\<lambda>s. s\<lparr>info_b := (info_b s)(i0 := None)\<rparr>)) (\<lambda>_.
     bind (free_chain i0) (\<lambda>_.
     release VdiskLock))))"

text \<open>\<open>None\<close>: no three descriptors are free, and the thread sleeps until some are.\<close>

definition virtio_start :: "nat \<Rightarrow> int \<Rightarrow> ('z kvirt_scheme, nat) prog" where
  "virtio_start b write =
     bind (acquire VdiskLock) (\<lambda>_.
     bind alloc3_desc (\<lambda>r.
     case r of
       Some [i0, i1, i2] \<Rightarrow> bind (virtio_format b write i0 i1 i2) (\<lambda>_. ret i0)
     | _ \<Rightarrow> bind (sleep ChDiskFree VdiskLock) (\<lambda>_. ret 0)))"

definition virtio_disk_rw_driver :: "nat \<Rightarrow> int \<Rightarrow> ('z kvirt_scheme, unit) prog" where
  "virtio_disk_rw_driver b write = bind (virtio_start b write) (\<lambda>i0. virtio_wait b i0)"

section \<open>The interrupt\<close>

fun virtio_intr_loop :: "nat \<Rightarrow> ('z kvirt_scheme, unit) prog" where
  "virtio_intr_loop 0 = ret ()"
| "virtio_intr_loop (Suc k) =
     bind (gets (\<lambda>s. (used_idx s, used_ring_idx s))) (\<lambda>(u, ui).
     if u = ui then ret ()
     else bind (gets (\<lambda>s. unat (used_ring s (unat u mod NUM)))) (\<lambda>id.
     if id \<ge> NUM then undefined_behaviour
     else bind (gets (\<lambda>s. info_status s id)) (\<lambda>st.
     if st \<noteq> 0 then panic ''virtio_disk_intr status''
     else bind (gets (\<lambda>s. info_b s id)) (\<lambda>r.
     case r of
       None \<Rightarrow> panic ''null buf''
     | Some b \<Rightarrow>
         bind (updb b (\<lambda>k. k\<lparr>bdisk := 0\<rparr>)) (\<lambda>_.
         bind (wakeup (ChBuf b)) (\<lambda>_.
         bind (modify (\<lambda>s. s\<lparr>used_idx := used_idx s + 1\<rparr>)) (\<lambda>_.
         virtio_intr_loop k)))))))"

definition virtio_disk_intr :: "('z kvirt_scheme, unit) prog" where
  "virtio_disk_intr =
     bind (acquire VdiskLock) (\<lambda>_.
     bind (rdreg VIRTIO_MMIO_INTERRUPT_STATUS) (\<lambda>st.
     bind (wrreg VIRTIO_MMIO_INTERRUPT_ACK (st AND 3)) (\<lambda>_.
     bind (gets (\<lambda>s. unat (used_ring_idx s - used_idx s))) (\<lambda>n.
     bind (virtio_intr_loop n) (\<lambda>_.
     release VdiskLock)))))"

section \<open>The device\<close>

text \<open>
  The device reads the chain at entry \<open>k\<close> of the available ring: a request, the data
  descriptor and the status descriptor. It transfers one block.
\<close>

definition device_transfer :: "nat \<Rightarrow> virtio_blk_req \<Rightarrow> 'z kvirt_scheme \<Rightarrow> 'z kvirt_scheme" where
  "device_transfer b req s =
     (let n = ucast (r_sector req div 2) :: u32 in
      if r_type req = VIRTIO_BLK_T_OUT
      then s\<lparr>disk := (disk s)(n := bdata (bufs s b)), dwrites := dwrites s @ [(n, bdata (bufs s b))]\<rparr>
      else s\<lparr>bufs := (bufs s)(b := (bufs s b)\<lparr>bdata := disk s n\<rparr>)\<rparr>)"

definition device_serve :: "nat \<Rightarrow> 'z kvirt_scheme \<Rightarrow> 'z kvirt_scheme" where
  "device_serve k s =
     (let h = unat (avail_ring s (k mod NUM)); d0 = vdesc s h; d1 = vdesc s (unat (d_next d0));
          d2 = vdesc s (unat (d_next d1)) in
      case (d_addr d0, d_addr d1, d_addr d2) of
        (OpDma q, DataDma b, StatusDma t) \<Rightarrow>
          (device_transfer b (vops s q) s)\<lparr>info_status := (info_status s)(t := 0),
             used_ring := (used_ring s)(unat (used_ring_idx s) mod NUM := of_nat h),
             used_ring_idx := used_ring_idx s + 1\<rparr>
      | _ \<Rightarrow> s)"

end
