(* ===== verification/Datetime.thy ===== *)
theory Datetime
  imports Prelude
begin

text \<open>
  The calendar arithmetic of \<open>kernel/datetime.c\<close>, on \<open>uint64\<close>s as in the code. The
  specification counts days and seconds since 1970-01-01 in the Gregorian calendar with
  natural numbers: \<open>timestamp_to_date\<close> inverts that count for every timestamp, and
  \<open>adjust_timezone\<close> on the fields agrees with shifting the timestamp.
\<close>

section \<open>The code\<close>

record rtcdate =
  second :: u64
  minute :: u64
  hour :: u64
  day :: u64
  month :: u64
  year :: u64

definition is_leap_year :: "u64 \<Rightarrow> bool" where
  "is_leap_year y \<longleftrightarrow> y mod 4 = 0 \<and> y mod 100 \<noteq> 0 \<or> y mod 400 = 0"

definition days_in_month :: "u64 list" where
  "days_in_month = [31, 28, 31, 30, 31, 30, 31, 31, 30, 31, 30, 31]"

function year_loop :: "u64 \<Rightarrow> u64 \<Rightarrow> u64 \<times> u64" where
  "year_loop days y =
     (let days_this_year = (if is_leap_year y then 366 else 365) in
      if days < days_this_year then (days, y) else year_loop (days - days_this_year) (y + 1))"
  by pat_completeness auto
termination
  by (relation "measure (\<lambda>(days, y). unat days)")
     (auto simp: not_less unat_sub word_le_nat_alt intro!: diff_less)

function month_loop :: "u64 \<Rightarrow> u64 \<Rightarrow> u64 \<Rightarrow> u64 \<times> u64" where
  "month_loop days mon y =
     (if mon < 12
      then let days_this_month = (if mon = 1 \<and> is_leap_year y then 29 else days_in_month ! unat mon) in
        if days < days_this_month then (days, mon)
        else month_loop (days - days_this_month) (mon + 1) y
      else (days, mon))"
  by pat_completeness auto
termination
proof (relation "measure (\<lambda>(days, mon, y). 12 - unat mon)")
  fix days mon y x :: u64
  assume "mon < 12"
  then have "unat mon < 12" by (simp add: word_less_nat_alt)
  moreover from this have "unat (mon + 1) = Suc (unat mon)"
    by (simp add: unat_word_ariths)
  ultimately show "((days - x, mon + 1, y), (days, mon, y)) \<in> measure (\<lambda>(days, mon, y). 12 - unat mon)"
    by simp
qed simp

declare year_loop.simps [simp del] month_loop.simps [simp del]

definition timestamp_to_date :: "u64 \<Rightarrow> rtcdate" where
  "timestamp_to_date timestamp =
     (let s1 = timestamp div 60; s2 = s1 div 60;
          (days, y) = year_loop (s2 div 24) 1970;
          (days, mon) = month_loop days 0 y
      in \<lparr>second = timestamp mod 60, minute = s1 mod 60, hour = s2 mod 24,
          day = days + 1, month = mon + 1, year = y\<rparr>)"

text \<open>The number of days of the month of \<open>r\<close>, as both branches of \<open>adjust_timezone\<close> compute it.\<close>

definition month_days :: "u64 \<Rightarrow> u64 \<Rightarrow> u64" where
  "month_days mon y =
     (if mon = 2 \<and> is_leap_year y then 29 else days_in_month ! unat (mon - 1))"

definition adjust_timezone :: "rtcdate \<Rightarrow> int \<Rightarrow> rtcdate" where
  "adjust_timezone r hours_offset =
     (let new_hour = sint (ucast (hour r) :: u32) + hours_offset in
      if new_hour < 0
      then let d = day r - 1 in
        (if d < 1
         then let m0 = month r - 1; (mon, y) = (if m0 < 1 then (12, year r - 1) else (m0, year r)) in
           r\<lparr>month := mon, year := y, day := month_days mon y, hour := of_int (new_hour + 24)\<rparr>
         else r\<lparr>day := d, hour := of_int (new_hour + 24)\<rparr>)
      else if new_hour \<ge> 24
      then let d = day r + 1; days = month_days (month r) (year r) in
        (if d > days
         then let m1 = month r + 1; (mon, y) = (if m1 > 12 then (1, year r + 1) else (m1, year r)) in
           r\<lparr>month := mon, year := y, day := 1, hour := of_int (new_hour - 24)\<rparr>
         else r\<lparr>day := d, hour := of_int (new_hour - 24)\<rparr>)
      else r\<lparr>hour := of_int new_hour\<rparr>)"

section \<open>The calendar\<close>

definition leap :: "nat \<Rightarrow> bool" where
  "leap y \<longleftrightarrow> y mod 4 = 0 \<and> y mod 100 \<noteq> 0 \<or> y mod 400 = 0"

definition ylen :: "nat \<Rightarrow> nat" where
  "ylen y = (if leap y then 366 else 365)"

definition mlen :: "nat \<Rightarrow> nat \<Rightarrow> nat" where
  "mlen y m = (if m = 1 \<and> leap y then 29 else [31, 28, 31, 30, 31, 30, 31, 31, 30, 31, 30, 31] ! m)"

definition days_before :: "nat \<Rightarrow> nat" where
  "days_before y = (\<Sum>k \<in> {1970..<y}. ylen k)"

definition months_before :: "nat \<Rightarrow> nat \<Rightarrow> nat" where
  "months_before y m = (\<Sum>k < m. mlen y k)"

definition date_ok :: "rtcdate \<Rightarrow> bool" where
  "date_ok r \<longleftrightarrow> 1970 \<le> unat (year r) \<and> 1 \<le> unat (month r) \<and> unat (month r) \<le> 12 \<and>
     1 \<le> unat (day r) \<and> unat (day r) \<le> mlen (unat (year r)) (unat (month r) - 1) \<and>
     unat (hour r) < 24 \<and> unat (minute r) < 60 \<and> unat (second r) < 60"

definition date_days :: "rtcdate \<Rightarrow> nat" where
  "date_days r = days_before (unat (year r)) + months_before (unat (year r)) (unat (month r) - 1) +
     (unat (day r) - 1)"

definition date_secs :: "rtcdate \<Rightarrow> nat" where
  "date_secs r = ((date_days r * 24 + unat (hour r)) * 60 + unat (minute r)) * 60 + unat (second r)"

lemma is_leap_year_leap: "is_leap_year y \<longleftrightarrow> leap (unat y)"
  by (simp add: is_leap_year_def leap_def word_unat_eq_iff unat_mod_distrib)

lemma less_12_cases:
  assumes "(m::nat) < 12"
  obtains "m = 0" | "m = 1" | "m = 2" | "m = 3" | "m = 4" | "m = 5" | "m = 6" | "m = 7" | "m = 8"
    | "m = 9" | "m = 10" | "m = 11"
proof -
  have "m \<in> set [0..<12]" using assms by simp
  then have "m \<in> {0, 1, 2, 3, 4, 5, 6, 7, 8, 9, 10, 11}" by (auto simp: upt_rec numeral_eq_Suc)
  then show ?thesis using that by blast
qed

lemma mlen_bounds: "m < 12 \<Longrightarrow> 28 \<le> mlen y m \<and> mlen y m \<le> 31"
  by (erule less_12_cases) (simp_all add: mlen_def)

lemma unat_days_in_month:
  "unat mon < 12 \<Longrightarrow> unat (if mon = 1 \<and> is_leap_year y then 29 else days_in_month ! unat mon) = mlen (unat y) (unat mon)"
  by (erule less_12_cases)
     (simp_all add: mlen_def days_in_month_def is_leap_year_leap word_unat_eq_iff)

lemma months_before_Suc [simp]: "months_before y (Suc m) = months_before y m + mlen y m"
  by (simp add: months_before_def)

lemma months_before_0 [simp]: "months_before y 0 = 0"
  by (simp add: months_before_def)

lemma months_before_12: "months_before y 12 = ylen y"
  by (simp add: months_before_def mlen_def ylen_def lessThan_nat_numeral lessThan_Suc numeral_eq_Suc)

lemma days_before_Suc: "1970 \<le> y \<Longrightarrow> days_before (Suc y) = days_before y + ylen y"
  by (simp add: days_before_def)

lemma months_before_mono: "m \<le> n \<Longrightarrow> months_before y m \<le> months_before y n"
  unfolding months_before_def by (rule sum_mono2) auto

lemma days_before_mono: "y \<le> z \<Longrightarrow> days_before y \<le> days_before z"
  unfolding days_before_def by (rule sum_mono2) auto

lemma days_before_ge: "1970 \<le> y \<Longrightarrow> 365 * (y - 1970) \<le> days_before y"
proof (induction y rule: nat_induct_at_least)
  case base
  then show ?case by simp
next
  case (Suc y)
  have "Suc y - 1970 = Suc (y - 1970)" using Suc.hyps by simp
  with Suc show ?case by (simp add: days_before_Suc ylen_def)
qed

lemma month_day_less:
  assumes "m < 12" "d < mlen y m"
  shows "months_before y m + d < months_before y (Suc m)" "months_before y m + d < ylen y"
proof -
  show *: "months_before y m + d < months_before y (Suc m)" using assms by simp
  have "months_before y (Suc m) \<le> months_before y 12"
    using assms by (intro months_before_mono) simp
  with * show "months_before y m + d < ylen y" by (simp add: months_before_12)
qed

text \<open>A day number determines year, month and day.\<close>

lemma day_number_unique:
  assumes "days_before y + months_before y m + d = days_before y' + months_before y' m' + d'"
    and "1970 \<le> y" "1970 \<le> y'" "m < 12" "m' < 12" "d < mlen y m" "d' < mlen y' m'"
  shows "y = y' \<and> m = m' \<and> d = d'"
proof -
  have less: "days_before y1 + months_before y1 m1 + d1 < days_before y2"
    if "y1 < y2" "1970 \<le> y1" "m1 < 12" "d1 < mlen y1 m1" for y1 y2 m1 d1
  proof -
    have "days_before (Suc y1) \<le> days_before y2" using that by (intro days_before_mono) simp
    with month_day_less[of m1 d1 y1] that show ?thesis by (simp add: days_before_Suc)
  qed
  have y: "y = y'"
    using less[of y y' m d] less[of y' y m' d'] assms by (cases y y' rule: linorder_cases) simp_all
  have mless: "months_before y m1 + d1 < months_before y m2" if "m1 < m2" "m1 < 12" "d1 < mlen y m1" for m1 m2 d1
    using month_day_less(1)[of m1 d1 y] months_before_mono[of "Suc m1" m2 y] that by simp
  have "m = m'"
    using mless[of m m' d] mless[of m' m d'] assms y by (cases m m' rule: linorder_cases) simp_all
  with y assms(1) show ?thesis by simp
qed

lemma date_unique:
  assumes "date_ok r" "date_ok r'" "date_secs r = date_secs r'"
  shows "r = r'"
proof -
  have split: "a = a' \<and> b = b'" if "a * n + b = a' * n + b'" "b < n" "b' < n" for a b a' b' n :: nat
  proof -
    have "(a * n + b) div n = a" "(a' * n + b') div n = a'" using that(2,3) by simp_all
    with that(1) have "a = a'" by metis
    with that(1) show ?thesis by simp
  qed
  note ok = assms(1,2)[unfolded date_ok_def]
  have 1: "(date_days r * 24 + unat (hour r)) * 60 + unat (minute r) =
      (date_days r' * 24 + unat (hour r')) * 60 + unat (minute r') \<and> unat (second r) = unat (second r')"
    using assms(3) ok by (intro split[where n = 60]) (simp_all add: date_secs_def)
  then have 2: "date_days r * 24 + unat (hour r) = date_days r' * 24 + unat (hour r') \<and> unat (minute r) = unat (minute r')"
    using ok by (intro split[where n = 60]) simp_all
  then have 3: "date_days r = date_days r' \<and> unat (hour r) = unat (hour r')"
    using ok by (intro split[where n = 24]) simp_all
  have "unat (year r) = unat (year r') \<and> unat (month r) - 1 = unat (month r') - 1 \<and> unat (day r) - 1 = unat (day r') - 1"
    using 3 ok by (intro day_number_unique) (simp_all add: date_days_def, linarith+)
  then have "unat (month r) = unat (month r')" "unat (day r) = unat (day r')" "unat (year r) = unat (year r')"
    using ok by linarith+
  with 1 2 3 show ?thesis by (intro rtcdate.equality) (simp_all add: word_unat_eq_iff)
qed

section \<open>The loops\<close>

lemma year_loop_spec:
  assumes "year_loop days y = (d, z)" "1970 \<le> unat y" "unat y + unat days < 2 ^ 64"
  shows "days_before (unat y) + unat days = days_before (unat z) + unat d \<and> unat d < ylen (unat z) \<and> unat y \<le> unat z"
  using assms
proof (induction days y arbitrary: d z rule: year_loop.induct)
  case (1 days y)
  define n where "n = (if is_leap_year y then 366 else 365 :: u64)"
  have n: "unat n = ylen (unat y)" by (simp add: n_def ylen_def is_leap_year_leap)
  show ?case
  proof (cases "days < n")
    case True
    then show ?thesis using "1.prems" n by (simp add: year_loop.simps[of days y] n_def[symmetric] word_less_nat_alt)
  next
    case False
    then have le: "unat n \<le> unat days" by (simp add: word_less_nat_alt)
    have rec: "year_loop (days - n) (y + 1) = (d, z)"
      using "1.prems"(1) False by (simp add: year_loop.simps[of days y] n_def[symmetric])
    have pos: "0 < unat n" by (simp add: n ylen_def)
    have s: "unat (y + 1) = Suc (unat y)"
      using "1.prems"(3) le pos by (simp add: unat_word_ariths)
    have dd: "unat (days - n) = unat days - unat n"
      using le by (simp add: unat_sub word_le_nat_alt)
    have IH: "days_before (unat (y + 1)) + unat (days - n) = days_before (unat z) + unat d \<and>
        unat d < ylen (unat z) \<and> unat (y + 1) \<le> unat z"
    proof (rule "1.IH"[OF n_def _ rec])
      show "\<not> days < n" by (rule False)
      show "1970 \<le> unat (y + 1)" using s "1.prems" by simp
      show "unat (y + 1) + unat (days - n) < 2 ^ 64" using s dd le pos "1.prems" by simp
    qed
    then show ?thesis using s dd le n "1.prems" by (simp add: days_before_Suc)
  qed
qed

lemma month_loop_spec:
  assumes "month_loop days mon y = (d, m)" "unat mon < 12"
    and "months_before (unat y) (unat mon) + unat days < ylen (unat y)"
  shows "months_before (unat y) (unat mon) + unat days = months_before (unat y) (unat m) + unat d \<and>
    unat m < 12 \<and> unat d < mlen (unat y) (unat m)"
  using assms
proof (induction days mon y arbitrary: d m rule: month_loop.induct)
  case (1 days mon y)
  define n where "n = (if mon = 1 \<and> is_leap_year y then 29 else days_in_month ! unat mon)"
  have lt: "mon < 12" using "1.prems"(2) by (simp add: word_less_nat_alt)
  have n: "unat n = mlen (unat y) (unat mon)" unfolding n_def using "1.prems"(2) by (rule unat_days_in_month)
  show ?case
  proof (cases "days < n")
    case True
    then show ?thesis using "1.prems" n lt
      by (simp add: month_loop.simps[of days mon y] n_def[symmetric] word_less_nat_alt)
  next
    case False
    then have le: "unat n \<le> unat days" by (simp add: word_less_nat_alt)
    have rec: "month_loop (days - n) (mon + 1) y = (d, m)"
      using "1.prems"(1) False lt by (simp add: month_loop.simps[of days mon y] n_def[symmetric])
    have s: "unat (mon + 1) = Suc (unat mon)"
      using "1.prems"(2) by (simp add: unat_word_ariths)
    have dd: "unat (days - n) = unat days - unat n"
      using le by (simp add: unat_sub word_le_nat_alt)
    have sum: "months_before (unat y) (Suc (unat mon)) + unat (days - n) < ylen (unat y)"
      using "1.prems"(3) le n dd by simp
    have "Suc (unat mon) \<noteq> 12"
      using sum by (auto simp del: months_before_Suc simp: months_before_12)
    then have s12: "unat (mon + 1) < 12" using s "1.prems"(2) by simp
    have IH: "months_before (unat y) (unat (mon + 1)) + unat (days - n) = months_before (unat y) (unat m) + unat d \<and>
        unat m < 12 \<and> unat d < mlen (unat y) (unat m)"
      by (rule "1.IH"[OF lt n_def False rec s12]) (use sum s in simp)
    then show ?thesis using s dd le n by simp
  qed
qed

lemma timestamp_date: "date_ok (timestamp_to_date ts)" "date_secs (timestamp_to_date ts) = unat ts"
proof -
  obtain d y where yl: "year_loop (ts div 60 div 60 div 24) 1970 = (d, y)" by force
  obtain e m where ml: "month_loop d 0 y = (e, m)" by force
  have r: "timestamp_to_date ts = \<lparr>second = ts mod 60, minute = ts div 60 mod 60,
      hour = ts div 60 div 60 mod 24, day = e + 1, month = m + 1, year = y\<rparr>"
    by (simp add: timestamp_to_date_def Let_def yl ml)
  have dn: "unat (ts div 60 div 60 div 24) = unat ts div 60 div 60 div 24"
    by (simp add: unat_div_distrib)
  have ub: "unat ts < 2 ^ 64" using unsigned_less[of ts] by simp
  have Y: "unat ts div 60 div 60 div 24 = days_before (unat y) + unat d \<and> unat d < ylen (unat y) \<and> 1970 \<le> unat y"
    using year_loop_spec[OF yl] ub dn by (simp add: days_before_def div_mult2_eq[symmetric])
  have M: "unat d = months_before (unat y) (unat m) + unat e \<and> unat m < 12 \<and> unat e < mlen (unat y) (unat m)"
    using month_loop_spec[OF ml] Y by simp
  have m1: "unat (m + 1) = Suc (unat m)" using M by (simp add: unat_word_ariths)
  have "mlen (unat y) (unat m) \<le> 31" using M mlen_bounds by blast
  then have e1: "unat (e + 1) = Suc (unat e)" using M by (simp add: unat_word_ariths)
  have h: "unat (ts mod 60) = unat ts mod 60" "unat (ts div 60 mod 60) = unat ts div 60 mod 60"
      "unat (ts div 60 div 60 mod 24) = unat ts div 60 div 60 mod 24"
    by (simp_all add: unat_div_distrib unat_mod_distrib)
  show "date_ok (timestamp_to_date ts)"
    unfolding r date_ok_def using Y M m1 e1 h by simp
  have "date_days (timestamp_to_date ts) = unat ts div 60 div 60 div 24"
    unfolding r date_days_def using Y M m1 e1 by simp
  then show "date_secs (timestamp_to_date ts) = unat ts"
    unfolding date_secs_def by (simp add: r h)
qed


section \<open>Shifting the hour\<close>

lemma hour_int: "unat h < 24 \<Longrightarrow> sint (ucast (h :: u64) :: u32) = int (unat h)"
proof -
  assume "unat h < 24"
  moreover have "uint h = int (unat h)" by simp
  ultimately have h: "0 \<le> uint h" "uint h < 24" by linarith+
  have "uint (ucast h :: u32) = uint h"
    unfolding unsigned_ucast_eq using h by (intro take_bit_int_eq_self) simp_all
  then have "sint (ucast h :: u32) = signed_take_bit 31 (uint h)" by (simp add: sint_uint)
  also have "\<dots> = uint h"
  proof (rule signed_take_bit_int_eq_self)
    show "- (2 ^ 31) \<le> uint h" using h(1) by (rule order_trans[rotated]) simp
    show "uint h < 2 ^ 31" using h by simp
  qed
  finally show ?thesis by simp
qed

lemma unat_of_int_small: "0 \<le> k \<Longrightarrow> k < 2 ^ 64 \<Longrightarrow> unat (of_int k :: u64) = nat k"
proof -
  assume k: "0 \<le> k" "k < 2 ^ 64"
  have "uint (of_int k :: u64) = take_bit 64 k" by (simp add: unsigned_of_int)
  also have "\<dots> = k" using k by (rule take_bit_int_eq_self)
  finally show ?thesis by (simp only: unat_eq_nat_uint)
qed

lemma unat_of_hour: "0 \<le> k \<Longrightarrow> k < 24 \<Longrightarrow> unat (of_int k :: u64) = nat k"
  by (rule unat_of_int_small) simp_all

lemma unat_month_days:
  assumes "1 \<le> unat mon" "unat mon \<le> 12"
  shows "unat (month_days mon y) = mlen (unat y) (unat mon - 1)"
proof -
  have p: "unat (mon - 1) = unat mon - 1"
    using assms by (simp add: unat_sub word_le_nat_alt)
  have "mon = 2 \<longleftrightarrow> mon - 1 = 1" by (auto simp: diff_eq_eq)
  then show ?thesis
    using unat_days_in_month[of "mon - 1" y] assms p by (simp add: month_days_def)
qed

lemma next_day:
  assumes "date_ok r" "unat (year r) < 2 ^ 64 - 1"
    and "r' = (if day r + 1 > month_days (month r) (year r)
      then (let m1 = month r + 1; (mon, y) = (if m1 > 12 then (1, year r + 1) else (m1, year r)) in
        r\<lparr>month := mon, year := y, day := 1, hour := h\<rparr>)
      else r\<lparr>day := day r + 1, hour := h\<rparr>)"
    and "unat h < 24"
  shows "date_ok r' \<and> date_days r' = Suc (date_days r) \<and> hour r' = h \<and> minute r' = minute r \<and> second r' = second r"
proof -
  note ok = assms(1)[unfolded date_ok_def]
  have md: "unat (month_days (month r) (year r)) = mlen (unat (year r)) (unat (month r) - 1)"
    using ok by (intro unat_month_days) auto
  have ml: "mlen (unat (year r)) (unat (month r) - 1) \<le> 31"
    using mlen_bounds[of "unat (month r) - 1" "unat (year r)"] ok by linarith
  have d1: "unat (day r + 1) = Suc (unat (day r))" using ok ml by (simp add: unat_word_ariths)
  have m1: "unat (month r + 1) = Suc (unat (month r))" using ok by (simp add: unat_word_ariths)
  have y1: "unat (year r + 1) = Suc (unat (year r))" using assms(2) by (simp add: unat_word_ariths)
  have mb: "months_before (unat (year r)) (unat (month r)) =
      months_before (unat (year r)) (unat (month r) - 1) + mlen (unat (year r)) (unat (month r) - 1)"
    using ok months_before_Suc[of "unat (year r)" "unat (month r) - 1"] by simp
  show ?thesis
  proof (cases "unat (day r) < mlen (unat (year r)) (unat (month r) - 1)")
    case True
    then have "r' = r\<lparr>day := day r + 1, hour := h\<rparr>"
      using assms(3) d1 md by (simp add: word_less_nat_alt)
    with True ok d1 assms(4) show ?thesis by (simp add: date_ok_def date_days_def)
  next
    case False
    then have eq: "unat (day r) = mlen (unat (year r)) (unat (month r) - 1)" using ok by simp
    show ?thesis
    proof (cases "unat (month r) = 12")
      case True
      then have "r' = r\<lparr>month := 1, year := year r + 1, day := 1, hour := h\<rparr>"
        using assms(3) d1 m1 md eq by (simp add: word_less_nat_alt Let_def)
      moreover have "1 \<le> mlen (Suc (unat (year r))) 0" by (simp add: mlen_def)
      ultimately show ?thesis
        using ok y1 eq mb True months_before_12[of "unat (year r)"] days_before_Suc[of "unat (year r)"] assms(4)
        by (simp add: date_ok_def date_days_def)
    next
      case False
      then have lt: "unat (month r) < 12" using ok by simp
      then have "r' = r\<lparr>month := month r + 1, day := 1, hour := h\<rparr>"
        using assms(3) d1 m1 md eq by (simp add: word_less_nat_alt Let_def)
      moreover have "1 \<le> mlen (unat (year r)) (unat (month r))" using lt mlen_bounds[of "unat (month r)" "unat (year r)"] by simp
      ultimately show ?thesis
        using ok m1 eq mb lt assms(4) by (simp add: date_ok_def date_days_def)
    qed
  qed
qed

lemma previous_day:
  assumes "date_ok r" "0 < date_days r"
    and "r' = (if day r - 1 < 1
      then (let m0 = month r - 1; (mon, y) = (if m0 < 1 then (12, year r - 1) else (m0, year r)) in
        r\<lparr>month := mon, year := y, day := month_days mon y, hour := h\<rparr>)
      else r\<lparr>day := day r - 1, hour := h\<rparr>)"
    and "unat h < 24"
  shows "date_ok r' \<and> Suc (date_days r') = date_days r \<and> hour r' = h \<and> minute r' = minute r \<and> second r' = second r"
proof -
  note ok = assms(1)[unfolded date_ok_def]
  have d1: "unat (day r - 1) = unat (day r) - 1" using ok by (simp add: unat_sub word_le_nat_alt)
  have m1: "unat (month r - 1) = unat (month r) - 1" using ok by (simp add: unat_sub word_le_nat_alt)
  have y1: "unat (year r - 1) = unat (year r) - 1" using ok by (simp add: unat_sub word_le_nat_alt)
  show ?thesis
  proof (cases "unat (day r) = 1")
    case False
    then have "r' = r\<lparr>day := day r - 1, hour := h\<rparr>"
      using assms(3) d1 ok by (simp add: word_less_nat_alt)
    with False ok d1 assms(4) show ?thesis by (auto simp: date_ok_def date_days_def)
  next
    case one: True
    show ?thesis
    proof (cases "unat (month r) = 1")
      case False
      define k where "k = unat (month r) - 2"
      have k: "unat (month r) = Suc (Suc k)" "Suc k < 12" using False ok by (auto simp: k_def)
      have md: "unat (month_days (month r - 1) (year r)) = mlen (unat (year r)) k"
        using unat_month_days[of "month r - 1" "year r"] m1 k by simp
      have "r' = r\<lparr>month := month r - 1, day := month_days (month r - 1) (year r), hour := h\<rparr>"
        using assms(3) d1 m1 one k by (simp add: word_less_nat_alt Let_def)
      moreover have "1 \<le> mlen (unat (year r)) k" using k mlen_bounds[of k "unat (year r)"] by simp
      ultimately show ?thesis
        using ok m1 md k one assms(4) by (simp add: date_ok_def date_days_def)
    next
      case True
      have dd: "date_days r = days_before (unat (year r))" using one True by (simp add: date_days_def)
      then have gt: "1970 < unat (year r)" using assms(2) ok by (cases "unat (year r) = 1970") (auto simp: days_before_def)
      define y where "y = unat (year r) - 1"
      have y: "unat (year r) = Suc y" "1970 \<le> y" using gt by (auto simp: y_def)
      have md: "unat (month_days 12 (year r - 1)) = mlen y 11"
        using unat_month_days[of 12 "year r - 1"] y1 y by simp
      have r': "r' = r\<lparr>month := 12, year := year r - 1, day := month_days 12 (year r - 1), hour := h\<rparr>"
        using assms(3) d1 m1 one True by (simp add: word_less_nat_alt Let_def)
      have ml: "mlen y 11 = 31" by (simp add: mlen_def)
      have "months_before y 11 + 31 = ylen y"
        using months_before_Suc[of y 11] months_before_12[of y] ml by simp
      then show ?thesis
        using ok r' md y1 y dd ml one True assms(4) days_before_Suc[of y] by (simp add: date_ok_def date_days_def)
    qed
  qed
qed

lemma date_secs_days:
  "date_days r = d \<Longrightarrow> date_secs r = d * 86400 + unat (hour r) * 3600 + unat (minute r) * 60 + unat (second r)"
  by (simp add: date_secs_def)

lemma adjust_ok:
  assumes "date_ok r" "- 24 < h" "h < 24" "0 \<le> int (date_secs r) + 3600 * h" "unat (year r) < 2 ^ 64 - 1"
  shows "date_ok (adjust_timezone r h) \<and> int (date_secs (adjust_timezone r h)) = int (date_secs r) + 3600 * h"
proof -
  define H M S where "H = unat (hour r)" "M = unat (minute r)" "S = unat (second r)"
  define n where "n = int H + h"
  have hr: "H < 24" "M < 60" "S < 60" using assms(1) by (simp_all add: date_ok_def H_M_S_def)
  have nh: "sint (ucast (hour r) :: u32) + h = n" using hr by (simp add: n_def H_M_S_def hour_int)
  define t where "t = adjust_timezone r h"
  have secs: "date_secs r = date_days r * 86400 + H * 3600 + M * 60 + S" by (simp add: date_secs_def H_M_S_def)
  consider "n < 0" | "24 \<le> n" | "0 \<le> n" "n < 24" by linarith
  then show ?thesis
  proof cases
    case 1
    have b: "0 \<le> n + 24" "n + 24 < 24" using 1 assms(2) by (simp_all add: n_def)
    have u: "unat (of_int (n + 24) :: u64) = nat (n + 24)" using b by (rule unat_of_hour)
    have pos: "0 < date_days r" using 1 assms(4) secs hr by (simp add: n_def)
    have "t = (if day r - 1 < 1
      then (let m0 = month r - 1; (mon, y) = (if m0 < 1 then (12, year r - 1) else (m0, year r)) in
        r\<lparr>month := mon, year := y, day := month_days mon y, hour := of_int (n + 24)\<rparr>)
      else r\<lparr>day := day r - 1, hour := of_int (n + 24)\<rparr>)"
      unfolding t_def adjust_timezone_def nh Let_def using 1 by (simp only: if_True)
    then have "date_ok t \<and> Suc (date_days t) = date_days r \<and> hour t = of_int (n + 24) \<and> minute t = minute r \<and> second t = second r"
      by (rule previous_day[OF assms(1) pos]) (use u b in simp)
    then show ?thesis using u b secs unfolding t_def[symmetric]
      by (simp add: date_secs_def n_def H_M_S_def(2,3))
  next
    case 2
    have c: "(n < 0) = False" "(24 \<le> n) = True" using 2 by simp_all
    have b: "0 \<le> n - 24" "n - 24 < 24" using 2 assms(3) hr by (simp_all add: n_def)
    have u: "unat (of_int (n - 24) :: u64) = nat (n - 24)" using b by (rule unat_of_hour)
    have "t = (if day r + 1 > month_days (month r) (year r)
      then (let m1 = month r + 1; (mon, y) = (if m1 > 12 then (1, year r + 1) else (m1, year r)) in
        r\<lparr>month := mon, year := y, day := 1, hour := of_int (n - 24)\<rparr>)
      else r\<lparr>day := day r + 1, hour := of_int (n - 24)\<rparr>)"
      unfolding t_def adjust_timezone_def nh Let_def by (simp only: c if_False if_True)
    then have "date_ok t \<and> date_days t = Suc (date_days r) \<and> hour t = of_int (n - 24) \<and> minute t = minute r \<and> second t = second r"
      by (rule next_day[OF assms(1,5)]) (use u b in simp)
    then show ?thesis using u b secs unfolding t_def[symmetric]
      by (simp add: date_secs_def n_def H_M_S_def(2,3))
  next
    case 3
    then have "t = r\<lparr>hour := of_int n\<rparr>"
      by (simp add: t_def adjust_timezone_def nh)
    moreover have u: "unat (of_int n :: u64) = nat n" using 3 by (rule unat_of_hour)
    moreover have "nat n < 24" using 3 by simp
    ultimately have "date_ok t \<and> date_secs t = date_days r * 86400 + nat n * 3600 + M * 60 + S"
      using assms(1) by (simp add: date_ok_def date_secs_def date_days_def H_M_S_def)
    then show ?thesis using 3 secs unfolding t_def[symmetric] by (simp add: n_def)
  qed
qed

lemma date_year_bound:
  assumes "date_ok r" "date_secs r < 18446744073709551616"
  shows "unat (year r) < 18446744073709551615"
proof -
  have y: "1970 \<le> unat (year r)" using assms(1) by (simp add: date_ok_def)
  have "365 * (unat (year r) - 1970) \<le> days_before (unat (year r))" using y by (rule days_before_ge)
  moreover have "days_before (unat (year r)) \<le> date_days r" by (simp add: date_days_def)
  moreover have "date_days r \<le> date_secs r" by (simp add: date_secs_def)
  ultimately have "365 * (unat (year r) - 1970) < 18446744073709551616" using assms(2) by linarith
  with y show ?thesis by linarith
qed

section \<open>Properties\<close>

text \<open>
  C19: for every timestamp, \<open>timestamp_to_date\<close> gives a date that exists in the Gregorian
  calendar (from 1970, months 1 to 12, days 1 to the length of the month, hours, minutes and
  seconds in range) and that lies exactly that many seconds after 1970-01-01 00:00:00; no
  other valid date does.
\<close>

theorem timestamp_to_date_exact:
  "date_ok (timestamp_to_date ts) \<and>
   (\<forall>r. date_ok r \<and> date_secs r = unat ts \<longleftrightarrow> r = timestamp_to_date ts)"
proof (intro conjI allI iffI)
  show "date_ok (timestamp_to_date ts)" by (rule timestamp_date)
  show "r = timestamp_to_date ts" if "date_ok r \<and> date_secs r = unat ts" for r
    using that by (intro date_unique) (simp_all add: timestamp_date)
qed (simp_all add: timestamp_date)

text \<open>
  C20: shifting the fields of a date by less than a day, over the ends of days, months and
  years, agrees with shifting the timestamp and converting again, as long as neither the
  start of 1970 nor the end of the 64-bit range is crossed.
\<close>

theorem adjust_timezone_shifts:
  assumes "- 24 < h" "h < 24" "0 \<le> int (unat ts) + 3600 * h" "int (unat ts) + 3600 * h < 2 ^ 64"
  shows "adjust_timezone (timestamp_to_date ts) h = timestamp_to_date (ts + of_int (3600 * h))"
proof -
  have "unat ts < 18446744073709551616" using unsigned_less[of ts] by simp
  then have "unat (year (timestamp_to_date ts)) < 18446744073709551615"
    by (intro date_year_bound) (simp_all add: timestamp_date)
  then have yr: "unat (year (timestamp_to_date ts)) < 2 ^ 64 - 1" by simp
  have adj: "date_ok (adjust_timezone (timestamp_to_date ts) h)"
    "int (date_secs (adjust_timezone (timestamp_to_date ts) h)) = int (unat ts) + 3600 * h"
    using adjust_ok[OF timestamp_date(1)[of ts] assms(1,2) _ yr] assms(3) by (simp_all add: timestamp_date(2))
  define k where "k = int (unat ts) + 3600 * h"
  have "ts + of_int (3600 * h) = of_int k" by (simp add: k_def)
  then have "unat (ts + of_int (3600 * h)) = nat k"
    using assms(3,4) unfolding k_def[symmetric] by (simp only: unat_of_int_small)
  then have "date_secs (adjust_timezone (timestamp_to_date ts) h) = unat (ts + of_int (3600 * h))"
    using adj(2) unfolding k_def[symmetric] by linarith
  then show ?thesis
    using adj(1) timestamp_date[of "ts + of_int (3600 * h)"] by (intro date_unique) simp_all
qed

text \<open>At 2023-12-31 23:30:00 UTC, two hours later is the next year.\<close>

theorem adjust_timezone_shifts_witness:
  "adjust_timezone (timestamp_to_date 1704065400) 2 = timestamp_to_date 1704072600"
  using adjust_timezone_shifts[of 2 1704065400] by simp

end
