(* ===== verification/Syscall.thy ===== *)
theory Syscall
  imports Virtio Datetime
begin

text \<open>
  The remaining system calls (\<open>kernel/sysproc.c\<close>, \<open>sysprocessid.c\<close>, \<open>sysptable.c\<close>,
  \<open>sysutil.c\<close>, \<open>syscount.c\<close>, \<open>sys_datetime\<close> of \<open>datetime.c\<close>) and the dispatcher
  (\<open>syscall\<close> of \<open>kernel/syscall.c\<close>). \<open>mtime\<close> is the clock register; \<open>boot_epoch\<close> the
  compile-time constant \<open>BOOT_EPOCH\<close>; \<open>test_device\<close> the word at \<open>0x100000\<close> that powers
  the machine off.
\<close>

record kstat = kvirt +
  count_sys :: u64
  rand_seed :: u32
  mtime :: u64
  boot_epoch :: u64
  test_device :: u32

section \<open>Processes\<close>

definition sys_exit :: "('z kstat_scheme, u64) prog" where
  "sys_exit = bind (argint 0) (\<lambda>n. exit n)"

definition sys_getpid :: "('z kstat_scheme, u64) prog" where
  "sys_getpid = bind curproc (\<lambda>p. bind (getp p ppid) (\<lambda>pid. ret (of_int pid)))"

definition sys_fork :: "('z kstat_scheme, u64) prog" where
  "sys_fork = bind fork (\<lambda>v. ret (of_int v))"

definition sys_wait :: "('z kstat_scheme, u64) prog" where
  "sys_wait = bind (argaddr 0) (\<lambda>p. bind (wait p) (\<lambda>v. ret (of_int v)))"

definition sys_sbrk :: "('z kstat_scheme, u64) prog" where
  "sys_sbrk =
     bind (argint 0) (\<lambda>n.
     bind curproc (\<lambda>p.
     bind (getp p psz) (\<lambda>addr.
     bind (growproc n) (\<lambda>v.
     ret (if v < 0 then -1 else addr)))))"

text \<open>\<open>ticks - ticks0 < n\<close> compares as \<open>uint\<close>s.\<close>

definition sys_sleep :: "('z kstat_scheme, u64) prog" where
  "sys_sleep =
     bind (argint 0) (\<lambda>n.
     let n = (if n < 0 then 0 else n) in
     bind (acquire TicksLock) (\<lambda>_.
     bind (gets ticks) (\<lambda>ticks0.
     bind (gets (\<lambda>s. ticks s - ticks0 < of_int n)) (\<lambda>early.
     if early
     then bind curproc (\<lambda>p.
          bind (killed p) (\<lambda>d.
          if d \<noteq> 0 then bind (release TicksLock) (\<lambda>_. ret (-1))
          else bind (sleep ChTicks TicksLock) (\<lambda>_. ret 0)))
     else bind (release TicksLock) (\<lambda>_. ret 0)))))"

definition sys_kill :: "('z kstat_scheme, u64) prog" where
  "sys_kill = bind (argint 0) (\<lambda>pid. bind (kill pid) (\<lambda>v. ret (of_int v)))"

definition sys_uptime :: "('z kstat_scheme, u64) prog" where
  "sys_uptime =
     bind (acquire TicksLock) (\<lambda>_.
     bind (gets ticks) (\<lambda>xticks.
     bind (release TicksLock) (\<lambda>_.
     ret (ucast xticks))))"

definition sys_getprocinfo :: "('z kstat_scheme, u64) prog" where
  "sys_getprocinfo = bind (argaddr 0) (\<lambda>p. bind (getprocinfo p) (\<lambda>v. ret (of_int v)))"

definition sys_getppid :: "('z kstat_scheme, u64) prog" where
  "sys_getppid =
     bind curproc (\<lambda>p.
     gets (\<lambda>s. case pparent (procs s p) of None \<Rightarrow> 0 | Some q \<Rightarrow> of_int (ppid (procs s q))))"

definition sys_getptable :: "('z kstat_scheme, u64) prog" where
  "sys_getptable =
     bind (argint 0) (\<lambda>nproc.
     bind (argaddr 1) (\<lambda>buffer.
     bind (gets stack_junk) (\<lambda>junk.
     bind (getptable nproc buffer junk) (\<lambda>v.
     ret (of_int v)))))"

section \<open>The rest\<close>

definition sys_kbdint :: "('z kstat_scheme, u64) prog" where
  "sys_kbdint = gets (\<lambda>s. of_int (keyboard_int_cnt s))"

definition sys_shutdown :: "('z kstat_scheme, u64) prog" where
  "sys_shutdown = bind (modify (\<lambda>s. s\<lparr>test_device := 0x5555\<rparr>)) (\<lambda>_. ret 0)"

definition sys_random :: "('z kstat_scheme, u64) prog" where
  "sys_random =
     bind (modify (\<lambda>s. s\<lparr>rand_seed := ticks s\<rparr>)) (\<lambda>_.
     bind (modify (\<lambda>s. s\<lparr>rand_seed := (1103515245 * rand_seed s + 12345) mod 10\<rparr>)) (\<lambda>_.
     gets (\<lambda>s. ucast (rand_seed s))))"

definition sys_count :: "('z kstat_scheme, u64) prog" where
  "sys_count = gets count_sys"

definition sys_datetime :: "('z kstat_scheme, u64) prog" where
  "sys_datetime =
     bind (gets (\<lambda>s. boot_epoch s + mtime s div 10000000)) (\<lambda>now.
     let r = adjust_timezone (timestamp_to_date now) 2 in
     bind (printf (''Date: %d-%d-%d'' @ [CHR 0x0A])
       [VInt (ucast (year r)), VInt (ucast (month r)), VInt (ucast (day r))]) (\<lambda>_.
     bind (printf (''Time: %d:%d:%d (UTC-2)'' @ [CHR 0x0A])
       [VInt (ucast (hour r)), VInt (ucast (minute r)), VInt (ucast (second r))]) (\<lambda>_.
     ret 0)))"

section \<open>Dispatch\<close>

definition syscalls :: "(int \<times> ('z kstat_scheme, u64) prog) list" where
  "syscalls =
    [(1, sys_fork), (2, sys_exit), (3, sys_wait), (4, sys_pipe), (5, sys_read), (6, sys_kill),
     (7, sys_exec), (8, sys_fstat), (9, sys_chdir), (10, sys_dup), (11, sys_getpid), (12, sys_sbrk),
     (13, sys_sleep), (14, sys_uptime), (15, sys_open), (16, sys_write), (17, sys_mknod),
     (18, sys_unlink), (19, sys_link), (20, sys_mkdir), (21, sys_close), (22, sys_kbdint),
     (23, sys_count), (24, sys_getppid), (25, sys_getptable), (26, sys_shutdown), (27, sys_random),
     (28, sys_datetime), (29, sys_getprocinfo)]"

definition unknown_msg :: string where
  "unknown_msg = ''%d %s: unknown sys call %d'' @ [CHR 0x0A]"

definition syscall :: "('z kstat_scheme, unit) prog" where
  "syscall =
     bind curproc (\<lambda>p.
     bind (get_tf p TF_A7) (\<lambda>a7.
     let num = to_int (ucast a7) in
     case map_of syscalls num of
       Some f \<Rightarrow>
         bind (modify (\<lambda>s. s\<lparr>count_sys := count_sys s + 1\<rparr>)) (\<lambda>_.
         bind f (\<lambda>v.
         set_tf p TF_A0 v))
     | None \<Rightarrow>
         bind (getp p (\<lambda>q. (ppid q, pname q))) (\<lambda>(pid, nm).
         bind (printf unknown_msg [VInt (of_int pid), VStr (Some (cstring 16 nm)), VInt (of_int num)]) (\<lambda>_.
         set_tf p TF_A0 (-1)))))"

end
