(* ===== verification/Trap.thy ===== *)
theory Trap
  imports Syscall
begin

text \<open>
  Traps and interrupts (\<open>kernel/trap.c\<close>, \<open>kernel/plic.c\<close>), the first return of a process
  (\<open>forkret\<close>), and booting (\<open>kernel/start.c\<close>, \<open>kernel/main.c\<close>). The supervisor and machine
  registers of \<open>kernel/riscv.h\<close> that this code uses are fields of the state; addresses of
  assembly routines are constants of it. \<open>usertrapret\<close> ends in the jump to \<open>userret\<close>, which
  does not return to C; its result here is the argument of that jump, the user's \<open>satp\<close>.
\<close>

section \<open>Registers\<close>

record ktrap = kstat +
  sepc :: u64
  scause :: u64
  stval :: u64
  stvec :: u64
  stimecmp :: u64
  timereg :: u64
  plic :: "addr \<Rightarrow> u32"
  kernelvec_addr :: addr
  usertrap_addr :: addr
  uservec_addr :: addr
  userret_addr :: addr
  forkret_first :: int
  started :: int
  mstatus :: u64
  mepc :: u64
  medeleg :: u64
  mideleg :: u64
  sie :: u64
  mie :: u64
  menvcfg :: u64
  mcounteren :: u64
  pmpaddr0 :: u64
  pmpcfg0 :: u64
  mhartid :: u64
  main_addr :: addr

definition r_sstatus :: "('z kbase_scheme, u64) prog" where
  "r_sstatus = getm sstatus"

definition w_sstatus :: "u64 \<Rightarrow> ('z kbase_scheme, unit) prog" where
  "w_sstatus x = updm (\<lambda>m. m\<lparr>sstatus := x\<rparr>)"

definition w_stvec :: "u64 \<Rightarrow> ('z ktrap_scheme, unit) prog" where
  "w_stvec x = modify (\<lambda>s. s\<lparr>stvec := x\<rparr>)"

definition w_sepc :: "u64 \<Rightarrow> ('z ktrap_scheme, unit) prog" where
  "w_sepc x = modify (\<lambda>s. s\<lparr>sepc := x\<rparr>)"

definition w_stimecmp :: "u64 \<Rightarrow> ('z ktrap_scheme, unit) prog" where
  "w_stimecmp x = modify (\<lambda>s. s\<lparr>stimecmp := x\<rparr>)"

section \<open>The interrupt controller\<close>

definition UART0_IRQ :: nat where
  "UART0_IRQ = 10"

definition VIRTIO0_IRQ :: nat where
  "VIRTIO0_IRQ = 1"

definition PLIC_SENABLE :: "int \<Rightarrow> addr" where
  "PLIC_SENABLE hart = PLIC + 0x2080 + of_int hart * 0x100"

definition PLIC_SPRIORITY :: "int \<Rightarrow> addr" where
  "PLIC_SPRIORITY hart = PLIC + 0x201000 + of_int hart * 0x2000"

definition PLIC_SCLAIM :: "int \<Rightarrow> addr" where
  "PLIC_SCLAIM hart = PLIC + 0x201004 + of_int hart * 0x2000"

definition plic_write :: "addr \<Rightarrow> u32 \<Rightarrow> ('z ktrap_scheme, unit) prog" where
  "plic_write a v = modify (\<lambda>s. s\<lparr>plic := (plic s)(a := v)\<rparr>)"

definition plicinit :: "('z ktrap_scheme, unit) prog" where
  "plicinit =
     bind (plic_write (PLIC + of_nat (UART0_IRQ * 4)) 1) (\<lambda>_.
     plic_write (PLIC + of_nat (VIRTIO0_IRQ * 4)) 1)"

definition plicinithart :: "('z ktrap_scheme, unit) prog" where
  "plicinithart =
     bind cpuid (\<lambda>hart.
     bind (plic_write (PLIC_SENABLE hart) (push_bit UART0_IRQ 1 OR push_bit VIRTIO0_IRQ 1)) (\<lambda>_.
     plic_write (PLIC_SPRIORITY hart) 0))"

definition plic_claim :: "('z ktrap_scheme, int) prog" where
  "plic_claim = bind cpuid (\<lambda>hart. gets (\<lambda>s. to_int (plic s (PLIC_SCLAIM hart))))"

definition plic_complete :: "int \<Rightarrow> ('z ktrap_scheme, unit) prog" where
  "plic_complete irq = bind cpuid (\<lambda>hart. plic_write (PLIC_SCLAIM hart) (of_int irq))"

section \<open>Interrupts\<close>

definition trapinit :: "('z ktrap_scheme, unit) prog" where
  "trapinit = initlock TicksLock ''time''"

definition trapinithart :: "('z ktrap_scheme, unit) prog" where
  "trapinithart = bind (gets kernelvec_addr) w_stvec"

definition clockintr :: "('z ktrap_scheme, unit) prog" where
  "clockintr =
     bind cpuid (\<lambda>id.
     bind (only_if (id = 0)
       (bind (acquire TicksLock) (\<lambda>_.
        bind (modify (\<lambda>s. s\<lparr>ticks := ticks s + 1\<rparr>)) (\<lambda>_.
        bind update_time (\<lambda>_.
        bind (wakeup ChTicks) (\<lambda>_.
        release TicksLock)))))) (\<lambda>_.
     bind myproc (\<lambda>r.
     bind (case r of
         None \<Rightarrow> ret ()
       | Some p \<Rightarrow>
           bind (getp p pstate) (\<lambda>st.
           bind (gets sched_mode) (\<lambda>mode.
           only_if (st = RUNNING \<and> (mode = SCHED_ROUND_ROBIN \<or> mode = SCHED_PRIORITY)) yield))) (\<lambda>_.
     bind (gets timereg) (\<lambda>t.
     w_stimecmp (t + 1000000))))))"

definition unexpected_msg :: string where
  "unexpected_msg = ''unexpected interrupt irq=%d'' @ [CHR 0x0A]"

definition devintr :: "('z ktrap_scheme, int) prog" where
  "devintr =
     bind (gets scause) (\<lambda>cause.
     if cause = 0x8000000000000009
     then bind plic_claim (\<lambda>irq.
          bind (if irq = int UART0_IRQ then uartintr
                else if irq = int VIRTIO0_IRQ then virtio_disk_intr
                else only_if (irq \<noteq> 0)
                  (bind (printf unexpected_msg [VInt (of_int irq)]) (\<lambda>_. ret ()))) (\<lambda>_.
          bind (only_if (irq \<noteq> 0) (plic_complete irq)) (\<lambda>_.
          ret 1)))
     else if cause = 0x8000000000000005 then bind clockintr (\<lambda>_. ret 2)
     else ret 0)"

definition kerneltrap_msg :: string where
  "kerneltrap_msg = ''scause=0x%lx sepc=0x%lx stval=0x%lx'' @ [CHR 0x0A]"

definition kerneltrap :: "('z ktrap_scheme, unit) prog" where
  "kerneltrap =
     bind (gets sepc) (\<lambda>pc.
     bind r_sstatus (\<lambda>st.
     bind (gets scause) (\<lambda>cause.
     if st AND SSTATUS_SPP = 0 then panic ''kerneltrap: not from supervisor mode''
     else bind intr_get (\<lambda>i.
     if i \<noteq> 0 then panic ''kerneltrap: interrupts enabled''
     else bind devintr (\<lambda>which_dev.
     if which_dev = 0
     then bind (gets (\<lambda>s. (sepc s, stval s))) (\<lambda>(pc, v).
          bind (printf kerneltrap_msg [VLong cause, VLong pc, VLong v]) (\<lambda>_.
          panic ''kerneltrap''))
     else bind (if which_dev = 2 then myproc else ret None) (\<lambda>r.
     bind (only_if (r \<noteq> None) yield) (\<lambda>_.
     bind (w_sepc pc) (\<lambda>_.
     w_sstatus st))))))))"

section \<open>Traps from user space\<close>

definition usertrapret :: "('z ktrap_scheme, u64) prog" where
  "usertrapret =
     bind curproc (\<lambda>p.
     bind intr_off (\<lambda>_.
     bind (gets (\<lambda>s. TRAMPOLINE + (uservec_addr s - trampoline s))) (\<lambda>uv.
     bind (w_stvec uv) (\<lambda>_.
     bind (gets satp) (\<lambda>ksatp.
     bind (set_tf p TF_KERNEL_SATP ksatp) (\<lambda>_.
     bind (getp p pkstack) (\<lambda>ks.
     bind (set_tf p TF_KERNEL_SP (ks + pgsz)) (\<lambda>_.
     bind (gets usertrap_addr) (\<lambda>ut.
     bind (set_tf p TF_KERNEL_TRAP ut) (\<lambda>_.
     bind r_tp (\<lambda>h.
     bind (set_tf p TF_KERNEL_HARTID h) (\<lambda>_.
     bind r_sstatus (\<lambda>x.
     bind (w_sstatus ((x AND NOT SSTATUS_SPP) OR SSTATUS_SPIE)) (\<lambda>_.
     bind (get_tf p TF_EPC) (\<lambda>pc.
     bind (w_sepc pc) (\<lambda>_.
     bind (getp p ppagetable) (\<lambda>pt.
     ret (MAKE_SATP pt))))))))))))))))))"

definition usertrap_msg1 :: string where
  "usertrap_msg1 = ''usertrap(): unexpected scause 0x%lx pid=%d'' @ [CHR 0x0A]"

definition usertrap_msg2 :: string where
  "usertrap_msg2 = ''            sepc=0x%lx stval=0x%lx'' @ [CHR 0x0A]"

definition usertrap :: "('z ktrap_scheme, u64) prog" where
  "usertrap =
     bind r_sstatus (\<lambda>st.
     if st AND SSTATUS_SPP \<noteq> 0 then panic ''usertrap: not from user mode''
     else bind (gets kernelvec_addr) (\<lambda>kv.
     bind (w_stvec kv) (\<lambda>_.
     bind curproc (\<lambda>p.
     bind (gets sepc) (\<lambda>pc.
     bind (set_tf p TF_EPC pc) (\<lambda>_.
     bind (gets scause) (\<lambda>cause.
     bind
       (if cause = 8
        then bind (killed p) (\<lambda>d.
             bind (only_if (d \<noteq> 0) (exit (-1))) (\<lambda>_.
             bind (get_tf p TF_EPC) (\<lambda>epc.
             bind (set_tf p TF_EPC (epc + 4)) (\<lambda>_.
             bind intr_on (\<lambda>_.
             bind syscall (\<lambda>_.
             ret 0))))))
        else bind devintr (\<lambda>which_dev.
             bind (only_if (which_dev = 0)
               (bind (gets (\<lambda>s. (scause s, sepc s, stval s, ppid (procs s p)))) (\<lambda>(c, pc, v, pid).
                bind (printf usertrap_msg1 [VLong c, VInt (of_int pid)]) (\<lambda>_.
                bind (printf usertrap_msg2 [VLong pc, VLong v]) (\<lambda>_.
                setkilled p))))) (\<lambda>_.
             ret which_dev))) (\<lambda>which_dev.
     bind (killed p) (\<lambda>d.
     bind (only_if (d \<noteq> 0) (exit (-1))) (\<lambda>_.
     bind (only_if (which_dev = 2) yield) (\<lambda>_.
     usertrapret)))))))))))"

definition forkret :: "('z ktrap_scheme, u64) prog" where
  "forkret =
     bind curproc (\<lambda>p.
     bind (release (ProcLock p)) (\<lambda>_.
     bind (gets forkret_first) (\<lambda>first.
     bind (only_if (first \<noteq> 0)
       (bind (fsinit (uint ROOTDEV)) (\<lambda>_.
        modify (\<lambda>s. s\<lparr>forkret_first := 0\<rparr>)))) (\<lambda>_.
     usertrapret))))"

section \<open>Booting\<close>

definition MSTATUS_MPP_MASK :: u64 where
  "MSTATUS_MPP_MASK = push_bit 11 3"

definition MSTATUS_MPP_S :: u64 where
  "MSTATUS_MPP_S = push_bit 11 1"

definition SIE_SEIE :: u64 where
  "SIE_SEIE = push_bit 9 1"

definition SIE_STIE :: u64 where
  "SIE_STIE = push_bit 5 1"

definition SIE_SSIE :: u64 where
  "SIE_SSIE = push_bit 1 1"

definition MIE_STIE :: u64 where
  "MIE_STIE = push_bit 5 1"

definition timerinit :: "('z ktrap_scheme, unit) prog" where
  "timerinit =
     modify (\<lambda>s. s\<lparr>mie := mie s OR MIE_STIE, menvcfg := menvcfg s OR push_bit 63 1,
       mcounteren := mcounteren s OR 2, stimecmp := timereg s + 1000000\<rparr>)"

definition start :: "('z ktrap_scheme, unit) prog" where
  "start =
     bind (modify (\<lambda>s. s\<lparr>mstatus := (mstatus s AND NOT MSTATUS_MPP_MASK) OR MSTATUS_MPP_S, mepc := main_addr s,
       satp := 0, medeleg := 0xffff, mideleg := 0xffff,
       sie := sie s OR SIE_SEIE OR SIE_STIE OR SIE_SSIE,
       pmpaddr0 := 0x3fffffffffffff, pmpcfg0 := 0xf\<rparr>)) (\<lambda>_.
     bind timerinit (\<lambda>_.
     bind (gets mhartid) (\<lambda>h.
     updm (\<lambda>m. m\<lparr>tp := scast (ucast h :: u32)\<rparr>))))"

definition nl :: string where
  "nl = [CHR 0x0A]"

definition main :: "('z ktrap_scheme, unit) prog" where
  "main =
     bind cpuid (\<lambda>id.
     if id = 0
     then bind consoleinit (\<lambda>_.
          bind printfinit (\<lambda>_.
          bind (printf nl []) (\<lambda>_.
          bind (printf (''xv6 kernel is booting'' @ nl) []) (\<lambda>_.
          bind (printf nl []) (\<lambda>_.
          bind kinit (\<lambda>_.
          bind kvminit (\<lambda>_.
          bind kvminithart (\<lambda>_.
          bind procinit (\<lambda>_.
          bind trapinit (\<lambda>_.
          bind trapinithart (\<lambda>_.
          bind plicinit (\<lambda>_.
          bind plicinithart (\<lambda>_.
          bind binit (\<lambda>_.
          bind iinit (\<lambda>_.
          bind fileinit (\<lambda>_.
          bind virtio_disk_init (\<lambda>_.
          bind userinit (\<lambda>_.
          modify (\<lambda>s. s\<lparr>started := 1\<rparr>)))))))))))))))))))
     else bind (gets started) (\<lambda>go.
          if go = 0 then spin
          else bind (printf (''hart %d starting'' @ nl) [VInt (of_int id)]) (\<lambda>_.
          bind kvminithart (\<lambda>_.
          bind trapinithart (\<lambda>_.
          plicinithart)))))"

end
