(* ===== verification/Vmmap.thy ===== *)
theory Vmmap
  imports Vm
begin

text \<open>
  What the page-table code of theory \<open>Vm\<close> does to address translation.

  A table page is named by the list of indices that leads to it from the root
  (innermost first), \<open>tab\<close> finds it and \<open>xlate\<close> is the entry that translates an
  address. \<open>ptwf\<close> is the invariant: table pages are allocated pages, none of them is on
  the free list, and no page is reached by two paths.

  Results: \<open>walk\<close> only adds empty table pages; \<open>mappages\<close> changes the translation
  of exactly the pages of its range; \<open>uvmunmap\<close> removes exactly the range's.
\<close>

section \<open>Slots of table pages\<close>

lemma load64_store64_other:
  assumes "8 dvd unat a" "8 dvd unat b" "a \<noteq> b"
  shows "load64 (store64 m a v) b = load64 m b"
proof (rule load64_cong, rule store64_other)
  fix k :: nat
  assume k: "k < 8"
  obtain x where x: "unat a = 8 * x" using assms(1) by (elim dvdE)
  obtain y where y: "unat b = 8 * y" using assms(2) by (elim dvdE)
  have lt: "unat a < 2 ^ 64" "unat b < 2 ^ 64"
    using unsigned_less[of a, where ?'a = nat] unsigned_less[of b, where ?'a = nat] by simp_all
  have ne: "x \<noteq> y" using x y assms(3) by (auto simp: word_unat_eq_iff)
  have bk: "unat (b + of_nat k) = unat b + k"
    using k y lt by (simp add: unat_word_ariths unat_of_nat)
  show "8 \<le> unat (b + of_nat k - a)"
  proof (cases "x < y")
    case True
    then have "a \<le> b + of_nat k" using bk x y by (simp add: word_le_nat_alt)
    then have "unat (b + of_nat k - a) = unat b + k - unat a" using bk by (simp add: unat_sub)
    with True x y show ?thesis by simp
  next
    case False
    with ne have "y < x" by simp
    then have "\<not> a \<le> b + of_nat k" using bk x y k by (simp add: word_le_nat_alt)
    then have "unat (b + of_nat k - a) = 2 ^ 64 - (unat a - (unat b + k))"
      using bk lt by (simp add: unat_sub_if_size word_size word_le_nat_alt)
    moreover have "unat a - (unat b + k) \<le> 2 ^ 64 - 8" using x lt by simp
    ultimately show ?thesis by simp
  qed
qed

definition slot :: "addr \<Rightarrow> u64 \<Rightarrow> addr" where
  "slot p i = p + 8 * i"

lemma unat_slot:
  assumes "aligned p" "i < 512"
  shows "unat (slot p i) = unat p + 8 * unat i" "8 * unat i < 4096"
proof -
  obtain k where k: "unat p = 4096 * k" using assms(1) by (rule alignedE)
  have "unat i < 512" using assms(2) by (simp add: word_less_nat_alt)
  moreover have "4096 * k + 4096 \<le> 2 ^ 64"
    using unsigned_less[of p, where ?'a = nat] k by simp
  ultimately show "unat (slot p i) = unat p + 8 * unat i" "8 * unat i < 4096"
    using k by (simp_all add: slot_def unat_word_ariths)
qed

lemma slot_inj:
  assumes "aligned p" "aligned q" "i < 512" "j < 512" "slot p i = slot q j"
  shows "p = q" "i = j"
proof -
  note u = unat_slot[OF assms(1,3)] unat_slot[OF assms(2,4)]
  have e: "unat p + 8 * unat i = unat q + 8 * unat j" using u(1,3) assms(5) by simp
  obtain k where k: "unat p = 4096 * k" using assms(1) by (rule alignedE)
  obtain l where l: "unat q = 4096 * l" using assms(2) by (rule alignedE)
  have "(4096 * k + 8 * unat i) div 4096 = k" "(4096 * l + 8 * unat j) div 4096 = l"
    using u(2,4) by simp_all
  then have "k = l" using e k l by simp
  then show "p = q" "i = j" using e k l by (simp_all add: word_unat_eq_iff)
qed

lemma slot_dvd: "aligned p \<Longrightarrow> i < 512 \<Longrightarrow> 8 dvd unat (slot p i)"
proof -
  assume "aligned p" "i < 512"
  then obtain k where "unat (slot p i) = 4096 * k + 8 * unat i"
    using unat_slot[of p i] by (auto elim: alignedE)
  then have "unat (slot p i) = 8 * (512 * k + unat i)" by simp
  then show ?thesis by (rule dvdI)
qed

lemma load_store_slot:
  assumes "aligned p" "aligned q" "i < 512" "j < 512" "(p, i) \<noteq> (q, j)"
  shows "load64 (store64 m (slot p i) v) (slot q j) = load64 m (slot q j)"
  using assms by (intro load64_store64_other slot_dvd) (auto dest: slot_inj)

lemma slot_in_page:
  assumes "aligned p" "i < 512" "k < 8"
  shows "in_page (slot p i + of_nat k) p"
proof -
  have "slot p i + of_nat k - p = of_nat (8 * unat i + k)" by (simp add: slot_def)
  moreover have "unat i < 512" using assms(2) by (simp add: word_less_nat_alt)
  ultimately show ?thesis using assms(3) by (simp add: in_page_def unat_of_nat del: of_nat_add of_nat_mult)
qed

lemma load_slot_cong:
  "aligned p \<Longrightarrow> i < 512 \<Longrightarrow> (\<And>a. in_page a p \<Longrightarrow> m a = n a) \<Longrightarrow>
     load64 m (slot p i) = load64 n (slot p i)"
  by (rule load64_cong) (simp add: slot_in_page)

lemma load_slot_zero:
  "aligned p \<Longrightarrow> i < 512 \<Longrightarrow> (\<And>a. in_page a p \<Longrightarrow> m a = 0) \<Longrightarrow> load64 m (slot p i) = 0"
  using load_slot_cong[of p i m "\<lambda>_. 0"] by (simp add: load64_def)

lemma store_slot_other_page:
  assumes "aligned p" "i < 512" "\<not> in_page a p"
  shows "store64 m (slot p i) v a = m a"
proof (rule store64_other)
  show "8 \<le> unat (a - slot p i)"
  proof (rule ccontr)
    assume *: "\<not> ?thesis"
    have "a = slot p i + of_nat (unat (a - slot p i))" by simp
    moreover have "in_page (slot p i + of_nat (unat (a - slot p i))) p"
      using * assms by (intro slot_in_page) simp_all
    ultimately show False using assms(3) by simp
  qed
qed

section \<open>Entries\<close>

lemma PX_less [simp]: "PX l va < 512"
proof -
  have "PX l va \<le> 0x1FF" unfolding PX_def by (rule word_and_le1)
  then show ?thesis by (simp add: word_le_nat_alt word_less_nat_alt)
qed

lemma small_bits: "x < 2 ^ k \<Longrightarrow> k \<le> n \<Longrightarrow> \<not> bit x n" for x :: u64
proof -
  assume "x < 2 ^ k" "k \<le> n"
  then have "\<not> bit (x AND mask k) n" by (simp add: bit_simps)
  with \<open>x < 2 ^ k\<close> show ?thesis by (simp add: less_mask_eq)
qed

lemma aligned_bits: "aligned p \<Longrightarrow> n < 12 \<Longrightarrow> \<not> bit p n"
proof -
  assume "aligned p" "n < 12"
  have "p mod 2 ^ 12 = p AND mask 12" by (rule word_mod_2p_is_mask) simp
  moreover have "p mod 2 ^ 12 = 0"
    using \<open>aligned p\<close> by (simp add: aligned_def pgsz_def)
  ultimately have "p AND mask 12 = 0" by simp
  then have "\<not> bit (p AND mask 12) n" by simp
  with \<open>n < 12\<close> show ?thesis by (auto simp: bit_simps)
qed

lemma PTE2PA_pte:
  assumes "aligned pa" "pa < 2 ^ 56" "perm < 2 ^ 10"
  shows "PTE2PA (PA2PTE pa OR perm OR PTE_V) = pa"
proof (rule bit_word_eqI)
  fix n
  assume "n < LENGTH(64)"
  then show "bit (PTE2PA (PA2PTE pa OR perm OR PTE_V)) n = bit pa n"
    using aligned_bits[OF assms(1), of n] small_bits[OF assms(2), of n]
      small_bits[OF assms(3), of "n - 2"]
    by (cases "n < 12"; cases "n < 56")
       (auto simp: PTE2PA_def PA2PTE_def PTE_V_def bit_simps)
qed

lemma PTE_V_nonzero [simp]: "PTE_V \<noteq> 0"
  by (simp add: PTE_V_def)

lemma pte_valid [simp]: "(x OR perm OR PTE_V) AND PTE_V \<noteq> 0" "(x OR PTE_V) AND PTE_V \<noteq> 0"
proof -
  have "bit ((x OR perm OR PTE_V) AND PTE_V) 0" "bit ((x OR PTE_V) AND PTE_V) 0"
    by (simp_all add: PTE_V_def bit_simps)
  then show "(x OR perm OR PTE_V) AND PTE_V \<noteq> 0" "(x OR PTE_V) AND PTE_V \<noteq> 0"
    by (metis bit_0_eq bot_apply bot_bool_def)+
qed

lemma PTE2PA_table: "aligned pa \<Longrightarrow> pa < 2 ^ 56 \<Longrightarrow> PTE2PA (PA2PTE pa OR PTE_V) = pa"
  using PTE2PA_pte[of pa 0] by simp

section \<open>Table pages by path\<close>

type_synonym path = "u64 list"

definition child :: "memory \<Rightarrow> addr \<Rightarrow> u64 \<Rightarrow> addr option" where
  "child m p i =
     (let e = load64 m (slot p i) in if e AND PTE_V \<noteq> 0 then Some (PTE2PA e) else None)"

fun tab :: "memory \<Rightarrow> addr \<Rightarrow> path \<Rightarrow> addr option" where
  "tab m pt [] = Some pt"
| "tab m pt (i # is) = (case tab m pt is of None \<Rightarrow> None | Some p \<Rightarrow> child m p i)"

definition valid_path :: "path \<Rightarrow> bool" where
  "valid_path is \<longleftrightarrow> length is \<le> 2 \<and> (\<forall>i \<in> set is. i < 512)"

definition vpath :: "addr \<Rightarrow> path" where
  "vpath va = [PX 1 va, PX 2 va]"

definition ptwf :: "addr \<Rightarrow> memory \<Rightarrow> addr \<Rightarrow> addr set \<Rightarrow> bool" where
  "ptwf e m pt free \<longleftrightarrow>
     (\<forall>is p. valid_path is \<longrightarrow> tab m pt is = Some p \<longrightarrow> phys_page e p \<and> p \<notin> free) \<and>
     (\<forall>is js p. valid_path is \<longrightarrow> valid_path js \<longrightarrow> tab m pt is = Some p \<longrightarrow>
        tab m pt js = Some p \<longrightarrow> is = js)"

definition tables :: "memory \<Rightarrow> addr \<Rightarrow> addr set" where
  "tables m pt = {p. \<exists>is. valid_path is \<and> tab m pt is = Some p}"

definition xlate :: "memory \<Rightarrow> addr \<Rightarrow> addr \<Rightarrow> u64 option" where
  "xlate m pt va = (case tab m pt (vpath va) of
      None \<Rightarrow> None
    | Some p \<Rightarrow> let e = load64 m (slot p (PX 0 va)) in
               if e AND PTE_V \<noteq> 0 then Some e else None)"

lemma tablesI: "valid_path is \<Longrightarrow> tab m pt is = Some p \<Longrightarrow> p \<in> tables m pt"
  by (auto simp: tables_def)

lemma valid_path_Cons [simp]:
  "valid_path (i # is) \<longleftrightarrow> i < 512 \<and> length is \<le> 1 \<and> valid_path is"
  by (auto simp: valid_path_def)

lemma valid_path_Nil [simp]: "valid_path []"
  by (simp add: valid_path_def)

lemma valid_vpath [simp]: "valid_path (vpath va)"
  by (simp add: vpath_def)

lemma length_vpath [simp]: "length (vpath va) = 2"
  by (simp add: vpath_def)

lemma ptwf_page:
  "ptwf e m pt free \<Longrightarrow> valid_path is \<Longrightarrow> tab m pt is = Some p \<Longrightarrow>
     phys_page e p \<and> aligned p \<and> p \<notin> free"
  by (auto simp: ptwf_def phys_page_def)

lemma ptwf_inj:
  "ptwf e m pt free \<Longrightarrow> valid_path is \<Longrightarrow> valid_path js \<Longrightarrow>
     tab m pt is = Some p \<Longrightarrow> tab m pt js = Some p \<Longrightarrow> is = js"
  by (auto simp: ptwf_def)

lemma phys_page_less_2_56: "phys_page e p \<Longrightarrow> p < 2 ^ 56"
  by (simp add: phys_page_def PHYSTOP_val word_less_nat_alt)

text \<open>Adding a zeroed page as the table at path \<open>i # is\<close>.\<close>

lemma tab_grow:
  assumes wf: "ptwf e m pt free" and v: "valid_path (i # is)" and p: "tab m pt is = Some p"
    and inv: "load64 m (slot p i) AND PTE_V = 0"
    and q: "phys_page e q" "q \<in> free"
    and m': "m' = store64 (memset m q 0 PGSIZE) (slot p i) (PA2PTE q OR PTE_V)"
    and js: "valid_path js"
  shows "tab m' pt js = (if js = i # is then Some q else tab m pt js)"
  using js
proof (induction js)
  case Nil
  then show ?case by simp
next
  case (Cons j js)
  have pa: "aligned p" "p \<notin> free" and qa: "aligned q"
    using ptwf_page[OF wf _ p] v q(1) by (auto simp: phys_page_def)
  have pq: "p \<noteq> q" using pa(2) q(2) by auto
  have i: "i < 512" and j: "j < 512" "valid_path js" using v Cons.prems by simp_all
  have other: "m' a = m a" if "\<not> in_page a q" "\<not> in_page a p" for a
    using that pa(1) i unfolding m' by (simp add: store_slot_other_page memset_page)
  show ?case
  proof (cases "js = i # is")
    case True
    then have "tab m' pt js = Some q" using Cons.IH j(2) by simp
    moreover have "m' a = 0" if "in_page a q" for a
    proof -
      have "\<not> in_page a p" using pages_disjoint[OF pa(1) qa _ that] pq by blast
      then show ?thesis using that pa(1) i unfolding m' by (simp add: store_slot_other_page memset_page)
    qed
    then have "load64 m' (slot q j) = 0" using load_slot_zero[OF qa j(1)] by blast
    moreover have "tab m pt (j # js) = None" using True p inv by (simp add: child_def)
    moreover have "j # js \<noteq> i # is" using True by auto
    ultimately show ?thesis by (simp add: child_def)
  next
    case False
    then have IH: "tab m' pt js = tab m pt js" using Cons.IH j(2) by simp
    show ?thesis
    proof (cases "tab m pt js")
      case None
      moreover have "js \<noteq> is" using None p by auto
      ultimately show ?thesis using IH by simp
    next
      case (Some r)
      have r: "aligned r" "r \<notin> free" using ptwf_page[OF wf j(2) Some] by auto
      have rq: "r \<noteq> q" using r(2) q(2) by auto
      have l: "load64 (memset m q 0 PGSIZE) (slot r j) = load64 m (slot r j)"
        by (rule load_slot_cong[OF r(1) j(1)])
           (use pages_disjoint[OF r(1) qa] rq in \<open>auto simp: memset_page\<close>)
      show ?thesis
      proof (cases "r = p \<and> j = i")
        case True
        then have "js = is" using ptwf_inj[OF wf j(2) _ Some] p v by auto
        then show ?thesis
          using True IH p q(1) qa phys_page_less_2_56[OF q(1)]
          by (simp add: m' child_def PTE2PA_table)
      next
        case False
        then have "load64 m' (slot r j) = load64 m (slot r j)"
          using load_store_slot[OF pa(1) r(1) i j(1)] l by (auto simp: m')
        moreover have "j # js \<noteq> i # is" using False Some p by auto
        ultimately show ?thesis using IH Some by (auto simp: child_def)
      qed
    qed
  qed
qed

lemma ptwf_grow:
  assumes "ptwf e m pt free" "valid_path (i # is)" "tab m pt is = Some p"
    and "load64 m (slot p i) AND PTE_V = 0" "phys_page e q" "q \<in> free"
    and "m' = store64 (memset m q 0 PGSIZE) (slot p i) (PA2PTE q OR PTE_V)"
  shows "ptwf e m' pt (free - {q})"
proof -
  note tab = tab_grow[OF assms]
  have none: "tab m pt (i # is) = None" using assms(3,4) by (simp add: child_def)
  have fresh: "tab m pt js \<noteq> Some q" if "valid_path js" for js
    using ptwf_page[OF assms(1) that] assms(6) by blast
  show ?thesis
    unfolding ptwf_def
  proof (intro conjI allI impI)
    fix js r
    assume "valid_path js" "tab m' pt js = Some r"
    then show "phys_page e r" "r \<notin> free - {q}"
      using tab[of js] assms(5) ptwf_page[OF assms(1), of js r] by (auto split: if_splits)
  next
    fix js ks r
    assume "valid_path js" "valid_path ks" "tab m' pt js = Some r" "tab m' pt ks = Some r"
    then show "js = ks"
      using tab[of js] tab[of ks] fresh[of js] fresh[of ks] ptwf_inj[OF assms(1), of js ks r]
      by (auto split: if_splits)
  qed
qed

lemma xlate_grow:
  assumes "ptwf e m pt free" "valid_path (i # is)" "tab m pt is = Some p"
    and "load64 m (slot p i) AND PTE_V = 0" "phys_page e q" "q \<in> free"
    and "m' = store64 (memset m q 0 PGSIZE) (slot p i) (PA2PTE q OR PTE_V)"
  shows "xlate m' pt va = xlate m pt va"
proof -
  have pa: "aligned p" "p \<noteq> q" "i < 512" "aligned q"
    using ptwf_page[OF assms(1) _ assms(3)] assms(2,5,6) by (auto simp: phys_page_def)
  note tab = tab_grow[OF assms valid_vpath, of va]
  show ?thesis
  proof (cases "vpath va = i # is")
    case True
    have "m' a = 0" if "in_page a q" for a
    proof -
      have "\<not> in_page a p" using pages_disjoint[OF pa(1,4) _ that] pa(2) by blast
      then show ?thesis
        using that by (simp add: assms(7) store_slot_other_page[OF pa(1,3)] memset_page)
    qed
    then have "load64 m' (slot q (PX 0 va)) = 0" using load_slot_zero[OF pa(4)] by simp
    then have "xlate m' pt va = None" using tab True by (simp add: xlate_def)
    moreover have "tab m pt (vpath va) = None" using True assms(3,4) by (simp add: child_def)
    ultimately show ?thesis by (simp add: xlate_def)
  next
    case False
    show ?thesis
    proof (cases "tab m pt (vpath va)")
      case None
      with tab False show ?thesis by (simp add: xlate_def)
    next
      case (Some r)
      have r: "aligned r" "r \<noteq> q" using ptwf_page[OF assms(1) valid_vpath Some] assms(6) by auto
      have "r \<noteq> p"
      proof
        assume "r = p"
        then have "vpath va = is" using ptwf_inj[OF assms(1) valid_vpath _ Some] assms(2,3) by simp
        then have "length is = 2" using length_vpath by metis
        then show False using assms(2) by simp
      qed
      then have "load64 m' (slot r (PX 0 va)) = load64 (memset m q 0 PGSIZE) (slot r (PX 0 va))"
        unfolding assms(7) by (intro load_store_slot pa r PX_less) simp
      also have "\<dots> = load64 m (slot r (PX 0 va))"
        by (rule load_slot_cong[OF r(1) PX_less])
           (use pages_disjoint[OF r(1) pa(4)] r(2) in \<open>auto simp: memset_page\<close>)
      finally show ?thesis using tab False Some by (simp add: xlate_def)
    qed
  qed
qed

text \<open>Writing a leaf entry.\<close>

lemma tab_leaf:
  assumes wf: "ptwf e m pt free" and "valid_path is" "length is = 2" "tab m pt is = Some p" "i < 512"
    and js: "valid_path js"
  shows "tab (store64 m (slot p i) v) pt js = tab m pt js"
  using js
proof (induction js)
  case Nil
  then show ?case by simp
next
  case (Cons j js)
  then have IH: "tab (store64 m (slot p i) v) pt js = tab m pt js" by simp
  show ?case
  proof (cases "tab m pt js")
    case None
    with IH show ?thesis by simp
  next
    case (Some r)
    have "r \<noteq> p"
      using ptwf_inj[OF wf assms(2) _ assms(4), of js] Some Cons.prems assms(3) by auto
    moreover have "aligned r" "aligned p"
      using ptwf_page[OF wf] Some assms(2,4) Cons.prems by auto
    ultimately have "load64 (store64 m (slot p i) v) (slot r j) = load64 m (slot r j)"
      using Cons.prems assms(5) by (intro load_store_slot) auto
    with IH Some show ?thesis by (simp add: child_def)
  qed
qed

lemma ptwf_leaf:
  assumes "ptwf e m pt free" "valid_path is" "length is = 2" "tab m pt is = Some p" "i < 512"
  shows "ptwf e (store64 m (slot p i) v) pt free"
  using assms(1) tab_leaf[OF assms] unfolding ptwf_def by simp

lemma xlate_leaf:
  assumes "ptwf e m pt free" "tab m pt (vpath va) = Some p"
  shows "xlate (store64 m (slot p (PX 0 va)) v) pt va' =
    (if vpath va' = vpath va \<and> PX 0 va' = PX 0 va then (if v AND PTE_V \<noteq> 0 then Some v else None)
     else xlate m pt va')"
proof -
  have tab: "tab (store64 m (slot p (PX 0 va)) v) pt (vpath va') = tab m pt (vpath va')"
    by (rule tab_leaf[OF assms(1) _ _ assms(2)]) simp_all
  show ?thesis
  proof (cases "tab m pt (vpath va')")
    case None
    with tab assms(2) show ?thesis by (auto simp: xlate_def)
  next
    case (Some r)
    have al: "aligned p" "aligned r"
      using ptwf_page[OF assms(1) valid_vpath] assms(2) Some by auto
    show ?thesis
    proof (cases "r = p \<and> PX 0 va' = PX 0 va")
      case True
      then have "vpath va' = vpath va" using ptwf_inj[OF assms(1) _ _ Some] assms(2) by simp
      with True tab Some show ?thesis by (simp add: xlate_def)
    next
      case False
      then have "\<not> (vpath va' = vpath va \<and> PX 0 va' = PX 0 va)" using Some assms(2) by auto
      moreover have "load64 (store64 m (slot p (PX 0 va)) v) (slot r (PX 0 va'))
          = load64 m (slot r (PX 0 va'))"
        using False al by (intro load_store_slot) auto
      ultimately show ?thesis using tab Some by (auto simp: xlate_def)
    qed
  qed
qed

section \<open>walk\<close>

text \<open>
  \<open>asp s pt ps\<close>: the page table \<open>pt\<close> is well formed and the free pages are \<open>ps\<close>.
  \<open>kept pt s t\<close>: from \<open>s\<close> to \<open>t\<close> the tables of \<open>pt\<close> only grew and no byte
  outside them changed; \<open>grown\<close>: in addition every address translates as before.
\<close>

definition asp :: "'z kmem_scheme \<Rightarrow> addr \<Rightarrow> addr list \<Rightarrow> bool" where
  "asp s pt ps \<longleftrightarrow> alloc_ready s \<and> pool s ps \<and> ptwf (kend s) (mem s) pt (set ps)"

definition same_but_mem :: "'z kmem_scheme \<Rightarrow> 'z kmem_scheme \<Rightarrow> bool" where
  "same_but_mem s t \<longleftrightarrow> settled (mc t) = settled (mc s) \<and> kend t = kend s \<and> etext t = etext s \<and>
     trampoline t = trampoline s \<and> kmem.more t = kmem.more s"

definition kept :: "addr \<Rightarrow> 'z kmem_scheme \<Rightarrow> 'z kmem_scheme \<Rightarrow> bool" where
  "kept pt s t \<longleftrightarrow> same_but_mem s t \<and>
     (\<forall>is p. valid_path is \<longrightarrow> tab (mem s) pt is = Some p \<longrightarrow> tab (mem t) pt is = Some p) \<and>
     (\<forall>a. mem t a \<noteq> mem s a \<longrightarrow> (\<exists>q \<in> tables (mem t) pt. in_page a q))"

definition grown :: "addr \<Rightarrow> 'z kmem_scheme \<Rightarrow> 'z kmem_scheme \<Rightarrow> bool" where
  "grown pt s t \<longleftrightarrow> kept pt s t \<and> (\<forall>va. xlate (mem t) pt va = xlate (mem s) pt va)"

lemma same_but_mem_refl [simp]: "same_but_mem s s"
  by (simp add: same_but_mem_def)

lemma same_but_mem_trans: "same_but_mem s t \<Longrightarrow> same_but_mem t u \<Longrightarrow> same_but_mem s u"
  by (simp add: same_but_mem_def)

lemma kept_refl [simp]: "kept pt s s"
  by (simp add: kept_def)

lemma kept_tables: "kept pt s t \<Longrightarrow> tables (mem s) pt \<subseteq> tables (mem t) pt"
  by (auto simp: kept_def tables_def)

lemma kept_trans:
  assumes "kept pt s t" "kept pt t u"
  shows "kept pt s u"
proof -
  have "\<exists>q \<in> tables (mem u) pt. in_page a q" if "mem u a \<noteq> mem s a" for a
  proof (cases "mem u a = mem t a")
    case True
    with that assms(1) obtain q where "q \<in> tables (mem t) pt" "in_page a q"
      by (auto simp: kept_def)
    with kept_tables[OF assms(2)] show ?thesis by blast
  next
    case False
    with assms(2) show ?thesis by (simp add: kept_def)
  qed
  moreover have "same_but_mem s u"
    using assms by (auto simp: kept_def intro: same_but_mem_trans)
  ultimately show ?thesis
    using assms by (simp add: kept_def)
qed

lemma grown_refl [simp]: "grown pt s s"
  by (simp add: grown_def)

lemma grown_trans: "grown pt s t \<Longrightarrow> grown pt t u \<Longrightarrow> grown pt s u"
  by (auto simp: grown_def intro: kept_trans)

lemma memset_twice: "memset (memset m q c PGSIZE) q d PGSIZE = memset m q d PGSIZE"
  by (rule ext) (simp add: memset_page)

lemma asp_grow:
  assumes "asp s pt (q # ps)" "valid_path (i # is)" "tab (mem s) pt is = Some p"
    and "load64 (mem s) (slot p i) AND PTE_V = 0"
    and "t = (took q s)\<lparr>mem := store64 (memset (mem s) q 0 PGSIZE) (slot p i) (PA2PTE q OR PTE_V)\<rparr>"
  shows "asp t pt ps" "grown pt s t" "tab (mem t) pt (i # is) = Some q"
proof -
  have wf: "ptwf (kend s) (mem s) pt (set (q # ps))" and ar: "alloc_ready s"
    and pl: "pool s (q # ps)" using assms(1) by (simp_all add: asp_def)
  have q: "phys_page (kend s) q" "q \<notin> set ps" "distinct ps" using pl by (simp_all add: pool_def)
  note g = tab_grow[OF wf assms(2-4) q(1) _ refl] ptwf_grow[OF wf assms(2-4) q(1) _ refl]
    xlate_grow[OF wf assms(2-4) q(1) _ refl]
  have p: "aligned p" "p \<notin> set (q # ps)" "i < 512"
    using ptwf_page[OF wf _ assms(3)] assms(2) by auto
  show "tab (mem t) pt (i # is) = Some q"
    using g(1)[of "i # is"] assms(2,5) by simp
  have other: "mem t a = mem s a" if "\<not> in_page a p" "\<not> in_page a q" for a
    using that p by (simp add: assms(5) store_slot_other_page memset_page)
  have "fl_rep (mem t) (load64 (mem s) q) ps"
  proof (rule fl_rep_frame)
    show "fl_rep (mem s) (load64 (mem s) q) ps" using pl by (simp add: pool_def)
    fix a r
    assume r: "r \<in> set ps" "in_page a r"
    have "aligned r" using pl r(1) by (auto simp: pool_def phys_page_def)
    then have "\<not> in_page a p" "\<not> in_page a q"
      using pages_disjoint[OF p(1) _ _ r(2)] pages_disjoint[of q r a] r p(2) q
      by (auto simp: phys_page_def)
    then show "mem t a = mem s a" by (rule other)
  qed
  then show "asp t pt ps"
    using g(2) q ar pl by (simp add: asp_def pool_def assms(5) took_def alloc_ready_def Diff_insert_absorb)
  have "p \<in> tables (mem t) pt"
    using tablesI[of "is" "mem t" pt p] g(1)[of "is"] assms(2,3,5) by simp
  moreover have "q \<in> tables (mem t) pt"
    using tablesI[OF assms(2) \<open>tab (mem t) pt (i # is) = Some q\<close>] .
  moreover have "tab (mem t) pt js = Some r" if "valid_path js" "tab (mem s) pt js = Some r" for js r
    using g(1)[of js] that assms(3,4,5) by (auto simp: child_def)
  moreover have "\<exists>r \<in> tables (mem t) pt. in_page a r" if "mem t a \<noteq> mem s a" for a
    using that other[of a] calculation(1,2) by blast
  ultimately show "grown pt s t"
    using g(3) by (auto simp: grown_def kept_def same_but_mem_def assms(5) took_def)
qed


lemma walk_noalloc:
  "va < MAXVA \<Longrightarrow> walk pt va 0 s =
     Ret (case tab (mem s) pt (vpath va) of None \<Rightarrow> 0 | Some p \<Rightarrow> slot p (PX 0 va)) s"
  by (auto simp: walk_def run_simps vpath_def pte_at_def child_def slot_def Let_def bind_def
      split: option.splits)

text \<open>
  With allocation, each level either finds the next table or adds one, as long as pages
  last: the walk consumes at most one page per level and fails only when none is left.
\<close>

definition walked :: "addr \<Rightarrow> addr \<Rightarrow> nat \<Rightarrow> addr list \<Rightarrow> 'z kmem_scheme \<Rightarrow> addr \<Rightarrow> 'z kmem_scheme \<Rightarrow> bool"
  where
  "walked pt va levels ps s pte t \<longleftrightarrow>
     (\<exists>n \<le> levels. n \<le> length ps \<and> asp t pt (drop n ps) \<and> grown pt s t \<and>
        (if pte = 0 then n = length ps \<and> n < levels
         else \<exists>p. tab (mem t) pt (vpath va) = Some p \<and> pte = slot p (PX 0 va)))"

lemma walked_Suc: "walked pt va l ps s pte t \<Longrightarrow> walked pt va (Suc l) ps s pte t"
proof -
  assume "walked pt va l ps s pte t"
  then obtain n where n: "n \<le> l" "n \<le> length ps" "asp t pt (drop n ps)" "grown pt s t"
    "if pte = 0 then n = length ps \<and> n < l
     else \<exists>p. tab (mem t) pt (vpath va) = Some p \<and> pte = slot p (PX 0 va)"
    by (auto simp: walked_def)
  show ?thesis
    unfolding walked_def by (rule exI[of _ n]) (use n in \<open>auto split: if_splits\<close>)
qed

lemma walk_levels_walked:
  assumes "asp s pt ps" "tab (mem s) pt is = Some p"
    and "vpath va = rev (map (\<lambda>l. PX l va) ls) @ is"
  shows "wp (walk_levels ls p va 1) (walked pt va (length ls) ps s) s"
  using assms
proof (induction ls arbitrary: s p "is" ps)
  case Nil
  then have p: "tab (mem s) pt (vpath va) = Some p" by simp
  have "phys_page (kend s) p" "kend s \<noteq> 0"
    using ptwf_page[OF _ valid_vpath p] Nil.prems(1) by (auto simp: asp_def alloc_ready_def)
  then have "0 < unat p" "aligned p"
    by (auto simp: phys_page_def word_le_nat_alt word_unat_eq_iff)
  then have "0 < unat (slot p (PX 0 va))" by (simp add: unat_slot)
  then have "slot p (PX 0 va) \<noteq> 0" by auto
  with p Nil.prems(1) show ?case
    by (auto simp: wp_simps walked_def slot_def intro!: exI[of _ 0])
next
  case (Cons l ls)
  let ?i = "PX l va" and ?e = "load64 (mem s) (slot p (PX l va))"
  have path: "vpath va = rev (map (\<lambda>l. PX l va) ls) @ (?i # is)" using Cons.prems(3) by simp
  then have len: "length ls + Suc (length is) = 2"
    by (metis length_Cons length_append length_map length_rev length_vpath)
  have "valid_path (rev (map (\<lambda>l. PX l va) ls) @ (?i # is))" using path valid_vpath by metis
  then have v: "valid_path (?i # is)" using len by (simp add: valid_path_def)
  show ?case
  proof (cases "?e AND PTE_V \<noteq> 0")
    case True
    then have "tab (mem s) pt (?i # is) = Some (PTE2PA ?e)" using Cons.prems(2) by (simp add: child_def)
    from Cons.IH[OF Cons.prems(1) this path]
    have "wp (walk_levels ls (PTE2PA ?e) va 1) (walked pt va (length ls) ps s) s" .
    then have "wp (walk_levels ls (PTE2PA ?e) va 1) (walked pt va (Suc (length ls)) ps s) s"
      by (rule wp_mono) (rule walked_Suc)
    then show ?thesis using True by (simp add: wp_simps pte_at_def slot_def Let_def)
  next
    case False
    then have inv: "?e AND PTE_V = 0" by simp
    show ?thesis
    proof (cases ps)
      case Nil
      then have "kalloc s = Ret 0 (s\<lparr>mc := settled (mc s)\<rparr>)"
        using Cons.prems(1) kalloc_nil by (auto simp: asp_def)
      then have "walk_levels (l # ls) p va 1 s = Ret 0 (s\<lparr>mc := settled (mc s)\<rparr>)"
        using inv by (simp add: run_simps pte_at_def slot_def Let_def)
      moreover have "asp (s\<lparr>mc := settled (mc s)\<rparr>) pt []" "grown pt s (s\<lparr>mc := settled (mc s)\<rparr>)"
        using Cons.prems(1) Nil by (simp_all add: asp_def alloc_ready_def grown_def kept_def same_but_mem_def)
      ultimately show ?thesis using Nil by (auto simp: wp_def walked_def)
    next
      case (Cons q qs)
      let ?t = "(took q s)\<lparr>mem := store64 (memset (mem s) q 0 PGSIZE) (slot p ?i) (PA2PTE q OR PTE_V)\<rparr>"
      have asp: "asp s pt (q # qs)" using Cons.prems(1) Cons by simp
      note g = asp_grow[OF asp v Cons.prems(2) inv refl]
      have k: "kalloc s = Ret q (took q s)" and q0: "q \<noteq> 0"
        using asp kalloc_cons[of s q qs] by (auto simp: asp_def pool_def)
      have "walk_levels (l # ls) p va 1 s = walk_levels ls q va 1 ?t"
        using k q0 inv
        by (simp add: run_simps pte_at_def set_pte_def set_mem_def slot_def Let_def took_def memset_twice)
      moreover have "wp (walk_levels ls q va 1) (walked pt va (length ls) qs ?t) ?t"
        by (rule Cons.IH[OF g(1) g(3) path])
      then have "wp (walk_levels ls q va 1) (walked pt va (Suc (length ls)) ps s) ?t"
      proof (rule wp_mono)
        fix pte u
        assume "walked pt va (length ls) qs ?t pte u"
        then obtain n where "n \<le> length ls" "n \<le> length qs" "asp u pt (drop n qs)" "grown pt ?t u"
          and "if pte = 0 then n = length qs \<and> n < length ls
               else \<exists>p. tab (mem u) pt (vpath va) = Some p \<and> pte = slot p (PX 0 va)"
          by (auto simp: walked_def)
        then show "walked pt va (Suc (length ls)) ps s pte u"
          using grown_trans[OF g(2)] Cons
          by (auto simp: walked_def intro!: exI[of _ "Suc n"])
      qed
      ultimately show ?thesis by (simp add: wp_def)
    qed
  qed
qed

lemma walk_walked:
  assumes "asp s pt ps" "va < MAXVA"
  shows "wp (walk pt va 1) (walked pt va 2 ps s) s"
proof -
  have "wp (walk_levels [2, 1] pt va 1) (walked pt va (length [2, 1 :: nat]) ps s) s"
    by (rule walk_levels_walked[OF assms(1)]) (simp_all add: vpath_def)
  moreover have "walk pt va 1 s = walk_levels [2, 1] pt va 1 s"
    using assms(2) unfolding walk_def by (simp only: not_le[symmetric] if_False)
  moreover have "length [2, 1 :: nat] = 2" by simp
  ultimately show ?thesis by (simp only: wp_def)
qed

section \<open>Pages of the address space\<close>

lemma bit_PX: "bit (PX l va) n \<longleftrightarrow> n < 9 \<and> bit va (12 + 9 * l + n)"
proof -
  have "PX l va = drop_bit (12 + 9 * l) va AND mask 9"
    by (simp add: PX_def mask_eq_exp_minus_1)
  then show ?thesis by (auto simp: bit_simps ac_simps)
qed

lemma MAXVA_bits: "va < MAXVA \<Longrightarrow> 38 \<le> n \<Longrightarrow> \<not> bit va n"
  by (rule small_bits[where k = 38]) (simp_all add: MAXVA_val)

lemma bit_PGROUNDDOWN: "bit (PGROUNDDOWN va) n \<longleftrightarrow> 12 \<le> n \<and> bit va n"
proof -
  have "PGROUNDDOWN va = va AND NOT (mask 12)"
    by (simp add: PGROUNDDOWN_def pgsz_def mask_eq_exp_minus_1)
  then show ?thesis by (auto simp: bit_simps dest: bit_imp_le_length)
qed

lemma same_page_iff:
  assumes "va < MAXVA" "vb < MAXVA"
  shows "vpath va = vpath vb \<and> PX 0 va = PX 0 vb \<longleftrightarrow> PGROUNDDOWN va = PGROUNDDOWN vb"
proof
  assume *: "vpath va = vpath vb \<and> PX 0 va = PX 0 vb"
  have px: "bit (PX l va) n = bit (PX l vb) n" if "l \<le> 2" for l n
    using * that by (cases l; cases "l - 1") (auto simp: vpath_def numeral_2_eq_2)
  show "PGROUNDDOWN va = PGROUNDDOWN vb"
  proof (rule bit_eqI)
    fix n :: nat
    consider "n < 12" | "12 \<le> n" "n < 21" | "21 \<le> n" "n < 30" | "30 \<le> n" "n < 38" | "38 \<le> n"
      by linarith
    then show "bit (PGROUNDDOWN va) n = bit (PGROUNDDOWN vb) n"
    proof cases
      case 1
      then show ?thesis by (simp add: bit_PGROUNDDOWN)
    next
      case 2
      then show ?thesis using px[of 0 "n - 12"] by (simp add: bit_PGROUNDDOWN bit_PX less_diff_conv2)
    next
      case 3
      then show ?thesis using px[of 1 "n - 21"] by (simp add: bit_PGROUNDDOWN bit_PX less_diff_conv2)
    next
      case 4
      then show ?thesis using px[of 2 "n - 30"] by (simp add: bit_PGROUNDDOWN bit_PX less_diff_conv2)
    next
      case 5
      then show ?thesis using MAXVA_bits[OF assms(1)] MAXVA_bits[OF assms(2)] by (simp add: bit_PGROUNDDOWN)
    qed
  qed
next
  assume *: "PGROUNDDOWN va = PGROUNDDOWN vb"
  have b: "bit va n = bit vb n" if "12 \<le> n" for n
    using arg_cong[OF *, of "\<lambda>x. bit x n"] that by (simp add: bit_PGROUNDDOWN)
  have "PX l va = PX l vb" for l
    by (rule bit_eqI) (simp add: bit_PX b)
  then show "vpath va = vpath vb \<and> PX 0 va = PX 0 vb" by (simp add: vpath_def)
qed

section \<open>mappages\<close>

lemma PGROUNDDOWN_id: "aligned a \<Longrightarrow> PGROUNDDOWN a = a"
  by (auto simp: word_unat_eq_iff unat_PGROUNDDOWN elim!: alignedE)

lemma page_of_range:
  assumes "aligned a"
  shows "PGROUNDDOWN va = a \<longleftrightarrow> unat a \<le> unat va \<and> unat va < unat a + 4096"
proof -
  obtain k where k: "unat a = 4096 * k" using assms by (rule alignedE)
  have "unat va div 4096 = k \<longleftrightarrow> 4096 * k \<le> unat va \<and> unat va < 4096 * k + 4096"
  proof
    assume "unat va div 4096 = k"
    then have "4096 * k + unat va mod 4096 = unat va" using mult_div_mod_eq[of 4096 "unat va"] by simp
    moreover have "unat va mod 4096 < 4096" by simp
    ultimately show "4096 * k \<le> unat va \<and> unat va < 4096 * k + 4096" by linarith
  qed (auto intro: div_nat_eqI)
  moreover have "unat va div 4096 * 4096 = 4096 * k \<longleftrightarrow> unat va div 4096 = k" by auto
  ultimately show ?thesis by (simp add: word_unat_eq_iff unat_PGROUNDDOWN k)
qed

text \<open>\<open>mapped\<close>: \<open>k\<close> pages from \<open>a\<close> on now map to \<open>pa\<close> on; the rest is as before.\<close>

definition mapped ::
  "memory \<Rightarrow> memory \<Rightarrow> addr \<Rightarrow> addr \<Rightarrow> nat \<Rightarrow> addr \<Rightarrow> u64 \<Rightarrow> bool" where
  "mapped m m' pt a k pa perm \<longleftrightarrow> (\<forall>va < MAXVA. xlate m' pt va =
     (if unat a \<le> unat va \<and> unat va < unat a + k * 4096
      then Some (PA2PTE (pa + (PGROUNDDOWN va - a)) OR perm OR PTE_V) else xlate m pt va))"

lemma asp_leaf:
  assumes "asp s pt ps" "tab (mem s) pt (vpath va) = Some p"
    and t: "t = s\<lparr>mem := store64 (mem s) (slot p (PX 0 va)) v\<rparr>"
  shows "asp t pt ps" "kept pt s t"
proof -
  have wf: "ptwf (kend s) (mem s) pt (set ps)" and pl: "pool s ps"
    using assms(1) by (simp_all add: asp_def)
  have p: "aligned p" "p \<notin> set ps" using ptwf_page[OF wf _ assms(2)] by auto
  have tab: "tab (mem t) pt js = tab (mem s) pt js" if "valid_path js" for js
    using tab_leaf[OF wf _ _ assms(2), of "PX 0 va" js v] that t by simp
  have other: "mem t a = mem s a" if "\<not> in_page a p" for a
    using that p(1) t by (simp add: store_slot_other_page)
  have "fl_rep (mem t) (freelist s) ps"
    by (rule fl_rep_other_page[where p = p and m = "mem s" and e = "kend s"])
       (use pl p other in \<open>auto simp: pool_def\<close>)
  then show "asp t pt ps"
    using assms(1) ptwf_leaf[OF wf _ _ assms(2), of "PX 0 va" v] t
    by (simp add: asp_def pool_def alloc_ready_def)
  have "p \<in> tables (mem t) pt"
    using tablesI[of "vpath va"] tab assms(2) by simp
  then show "kept pt s t"
    using tab other t by (auto simp: kept_def same_but_mem_def)
qed

lemma mapped_step:
  assumes "ptwf e m pt free" "tab m pt (vpath a) = Some p" "aligned a" "a < MAXVA"
  shows "mapped m (store64 m (slot p (PX 0 a)) (PA2PTE pa OR perm OR PTE_V)) pt a 1 pa perm"
proof -
  have "vpath va = vpath a \<and> PX 0 va = PX 0 a \<longleftrightarrow> unat a \<le> unat va \<and> unat va < unat a + 4096"
    if "va < MAXVA" for va
    using same_page_iff[OF that assms(4)] page_of_range[OF assms(3)] PGROUNDDOWN_id[OF assms(3)] by simp
  moreover have "PGROUNDDOWN va - a = 0" if "unat a \<le> unat va \<and> unat va < unat a + 4096" for va
    using that page_of_range[OF assms(3)] by simp
  ultimately show ?thesis
    unfolding mapped_def xlate_leaf[OF assms(1,2)] by auto
qed

lemma mapped_compose:
  assumes "mapped m m1 pt a 1 pa perm" "mapped m1 m2 pt (a + pgsz) k (pa + pgsz) perm"
    and "unat (a + pgsz) = unat a + 4096"
  shows "mapped m m2 pt a (Suc k) pa perm"
proof -
  have "pa + pgsz + (x - (a + pgsz)) = pa + (x - a)" for x by simp
  then show ?thesis using assms unfolding mapped_def by auto
qed

definition mappages_post ::
  "'z kmem_scheme \<Rightarrow> addr \<Rightarrow> addr list \<Rightarrow> addr \<Rightarrow> nat \<Rightarrow> addr \<Rightarrow> u64 \<Rightarrow> int \<Rightarrow> 'z kmem_scheme \<Rightarrow> bool" where
  "mappages_post s pt ps a n pa perm r t \<longleftrightarrow>
     (\<exists>k j. j \<le> 2 * n \<and> j \<le> length ps \<and> asp t pt (drop j ps) \<and> kept pt s t \<and>
        mapped (mem s) (mem t) pt a k pa perm \<and>
        (if r = 0 then k = n else r = -1 \<and> k < n \<and> j < 2 * n \<and> j = length ps))"

lemma mapped_grown: "grown pt s t \<Longrightarrow> mapped (mem t) m pt a k pa perm \<Longrightarrow> mapped (mem s) m pt a k pa perm"
  by (simp add: mapped_def grown_def)

lemma mapped_0: "grown pt s t \<Longrightarrow> mapped (mem s) (mem t) pt a 0 pa perm"
  by (auto simp: mapped_def grown_def)

lemma mappages_fail:
  assumes "f s = Ret (-1) t" "asp t pt []" "grown pt s t" "length ps < 2"
  shows "wp f (mappages_post s pt ps a (Suc n) pa perm) s"
proof -
  have "mappages_post s pt ps a (Suc n) pa perm (-1) t"
    unfolding mappages_post_def
    by (intro exI[of _ 0] exI[of _ "length ps"])
       (use assms mapped_0[OF assms(3)] in \<open>auto simp: grown_def\<close>)
  with assms(1) show ?thesis by (simp add: wp_def)
qed

lemma mappages_step:
  assumes "asp s pt ps" "aligned a" "a < MAXVA" "xlate (mem s) pt a = None"
  shows "(\<exists>t. mappages_loop pt a lst pa perm s = Ret (-1) t \<and> asp t pt [] \<and> grown pt s t \<and>
            length ps < 2) \<or>
    (\<exists>u j. j \<le> 2 \<and> j \<le> length ps \<and> asp u pt (drop j ps) \<and> kept pt s u \<and>
       mapped (mem s) (mem u) pt a 1 pa perm \<and>
       mappages_loop pt a lst pa perm s =
         (if a = lst then Ret 0 u else mappages_loop pt (a + pgsz) lst (pa + pgsz) perm u))"
proof -
  from walk_walked[OF assms(1,3)] obtain pte t where
    w: "walk pt a 1 s = Ret pte t" and wd: "walked pt a 2 ps s pte t" by (rule wpE)
  from wd obtain j where j: "j \<le> 2" "j \<le> length ps" "asp t pt (drop j ps)" "grown pt s t"
    and pte: "if pte = 0 then j = length ps \<and> j < 2
      else \<exists>p. tab (mem t) pt (vpath a) = Some p \<and> pte = slot p (PX 0 a)"
    by (auto simp: walked_def)
  show ?thesis
  proof (cases "pte = 0")
    case True
    then have "mappages_loop pt a lst pa perm s = Ret (-1) t"
      using w by (subst mappages_loop.simps) simp
    with True pte j show ?thesis by auto
  next
    case False
    then obtain p where p: "tab (mem t) pt (vpath a) = Some p" "pte = slot p (PX 0 a)"
      using pte by auto
    let ?v = "PA2PTE pa OR perm OR PTE_V"
    let ?u = "t\<lparr>mem := store64 (mem t) (slot p (PX 0 a)) ?v\<rparr>"
    have "xlate (mem t) pt a = None" using assms(4) j(4) by (simp add: grown_def)
    then have "load64 (mem t) pte AND PTE_V = 0"
      using p by (auto simp: xlate_def Let_def split: if_splits)
    then have "mappages_loop pt a lst pa perm s =
        (if a = lst then Ret 0 ?u else mappages_loop pt (a + pgsz) lst (pa + pgsz) perm ?u)"
      using w False p(2) by (subst mappages_loop.simps) simp
    moreover have "asp ?u pt (drop j ps)" "kept pt t ?u"
      using asp_leaf[OF j(3) p(1) refl] by simp_all
    moreover have "ptwf (kend t) (mem t) pt (set (drop j ps))" using j(3) by (simp add: asp_def)
    then have "mapped (mem t) (mem ?u) pt a 1 pa perm"
      using mapped_step[OF _ p(1) assms(2,3)] by simp
    then have "mapped (mem s) (mem ?u) pt a 1 pa perm" by (rule mapped_grown[OF j(4)])
    moreover have "kept pt s t" using j(4) by (simp add: grown_def)
    ultimately show ?thesis
      using j(1,2) kept_trans[of pt s t ?u] by (intro disjI2 exI[of _ ?u] exI[of _ j]) simp
  qed
qed

lemma mappages_loop_post:
  assumes "asp s pt ps" "aligned a" "unat a + Suc n * 4096 \<le> unat MAXVA"
    and "lst = a + of_nat n * pgsz"
    and "\<And>va. unat a \<le> unat va \<Longrightarrow> unat va < unat a + Suc n * 4096 \<Longrightarrow> xlate (mem s) pt va = None"
  shows "wp (mappages_loop pt a lst pa perm) (mappages_post s pt ps a (Suc n) pa perm) s"
  using assms
proof (induction n arbitrary: s ps a pa)
  case 0
  have a: "a < MAXVA" using 0(3) by (simp add: word_less_nat_alt)
  have "xlate (mem s) pt a = None" using 0(5) by simp
  from mappages_step[OF 0(1,2) a this, of lst pa perm] show ?case
  proof (elim disjE exE conjE)
    fix t
    assume "mappages_loop pt a lst pa perm s = Ret (-1) t" "asp t pt []" "grown pt s t" "length ps < 2"
    then show ?thesis
      by (rule mappages_fail)
  next
    fix u j
    assume "j \<le> 2" "j \<le> length ps" "asp u pt (drop j ps)" "kept pt s u"
      "mapped (mem s) (mem u) pt a 1 pa perm"
      "mappages_loop pt a lst pa perm s =
         (if a = lst then Ret 0 u else mappages_loop pt (a + pgsz) lst (pa + pgsz) perm u)"
    then show ?thesis
      using 0(4) by (auto simp: wp_def mappages_post_def intro!: exI[of _ 1] exI[of _ j])
  qed
next
  case (Suc n)
  have a: "a < MAXVA" using Suc.prems(3) by (simp add: word_less_nat_alt)
  have nx: "unat (a + pgsz) = unat a + 4096" by (rule unat_next_page[OF a])
  have "xlate (mem s) pt a = None" using Suc.prems(5) by simp
  from mappages_step[OF Suc.prems(1,2) a this, of lst pa perm] show ?case
  proof (elim disjE exE conjE)
    fix t
    assume "mappages_loop pt a lst pa perm s = Ret (-1) t" "asp t pt []" "grown pt s t" "length ps < 2"
    then show ?thesis
      by (rule mappages_fail)
  next
    fix u j
    assume u: "j \<le> 2" "j \<le> length ps" "asp u pt (drop j ps)" "kept pt s u"
      "mapped (mem s) (mem u) pt a 1 pa perm"
      "mappages_loop pt a lst pa perm s =
         (if a = lst then Ret 0 u else mappages_loop pt (a + pgsz) lst (pa + pgsz) perm u)"
    have "unat (of_nat (Suc n) * pgsz) = Suc n * 4096"
      using Suc.prems(3)
      by (simp add: pgsz_def unat_word_ariths unat_of_nat MAXVA_val del: of_nat_Suc)
    then have "of_nat (Suc n) * pgsz \<noteq> 0"
      by (metis mult_is_0 nat.distinct(1) unat_0 zero_neq_numeral)
    then have ne: "a \<noteq> lst" using Suc.prems(4) by (simp del: of_nat_Suc)
    have IH: "wp (mappages_loop pt (a + pgsz) lst (pa + pgsz) perm)
        (mappages_post u pt (drop j ps) (a + pgsz) (Suc n) (pa + pgsz) perm) u"
    proof (rule Suc.IH[OF u(3)])
      show "aligned (a + pgsz)" using Suc.prems(2) nx by (simp add: aligned_unat)
      show "unat (a + pgsz) + Suc n * 4096 \<le> unat MAXVA" using nx Suc.prems(3) by simp
      show "lst = a + pgsz + of_nat n * pgsz" using Suc.prems(4) by (simp add: algebra_simps)
      show "xlate (mem u) pt va = None" if "unat (a + pgsz) \<le> unat va"
        "unat va < unat (a + pgsz) + Suc n * 4096" for va
      proof -
        have "va < MAXVA" using that nx Suc.prems(3) by (simp add: word_less_nat_alt)
        then show ?thesis
          using u(5) that nx Suc.prems(5)[of va] by (simp add: mapped_def)
      qed
    qed
    have "wp (mappages_loop pt (a + pgsz) lst (pa + pgsz) perm)
        (mappages_post s pt ps a (Suc (Suc n)) pa perm) u"
    proof (rule wp_mono[OF IH])
      fix r t
      assume "mappages_post u pt (drop j ps) (a + pgsz) (Suc n) (pa + pgsz) perm r t"
      then obtain k i where "i \<le> 2 * Suc n" "i \<le> length (drop j ps)" "asp t pt (drop i (drop j ps))"
        "kept pt u t" "mapped (mem u) (mem t) pt (a + pgsz) k (pa + pgsz) perm"
        "if r = 0 then k = Suc n else r = -1 \<and> k < Suc n \<and> i < 2 * Suc n \<and> i = length (drop j ps)"
        by (auto simp: mappages_post_def)
      then show "mappages_post s pt ps a (Suc (Suc n)) pa perm r t"
        unfolding mappages_post_def using u kept_trans[OF u(4)] mapped_compose[OF u(5) _ nx]
        by (intro exI[of _ "Suc k"] exI[of _ "i + j"]) (auto split: if_splits)
    qed
    then show ?thesis using u(6) ne by (simp add: wp_def)
  qed
qed

section \<open>Writes outside the tables\<close>

lemma tab_frame:
  assumes wf: "ptwf e m pt free" and eq: "\<And>a q. q \<in> tables m pt \<Longrightarrow> in_page a q \<Longrightarrow> m' a = m a"
    and js: "valid_path js"
  shows "tab m' pt js = tab m pt js"
  using js
proof (induction js)
  case Nil
  then show ?case by simp
next
  case (Cons j js)
  then have IH: "tab m' pt js = tab m pt js" by simp
  show ?case
  proof (cases "tab m pt js")
    case None
    with IH show ?thesis by simp
  next
    case (Some r)
    then have "load64 m' (slot r j) = load64 m (slot r j)"
      using ptwf_page[OF wf _ Some] Cons.prems tablesI[OF _ Some]
      by (intro load_slot_cong eq) auto
    with IH Some show ?thesis by (simp add: child_def)
  qed
qed

lemma tables_frame:
  assumes "ptwf e m pt free" "\<And>a q. q \<in> tables m pt \<Longrightarrow> in_page a q \<Longrightarrow> m' a = m a"
  shows "tables m' pt = tables m pt"
  using tab_frame[OF assms] by (auto simp: tables_def)

lemma xlate_frame:
  assumes "ptwf e m pt free" "\<And>a q. q \<in> tables m pt \<Longrightarrow> in_page a q \<Longrightarrow> m' a = m a"
  shows "xlate m' pt va = xlate m pt va"
proof (cases "tab m pt (vpath va)")
  case None
  with tab_frame[OF assms valid_vpath] show ?thesis by (simp add: xlate_def)
next
  case (Some r)
  then have "load64 m' (slot r (PX 0 va)) = load64 m (slot r (PX 0 va))"
    using ptwf_page[OF assms(1) _ Some] tablesI[OF _ Some]
    by (intro load_slot_cong assms(2)) auto
  with Some tab_frame[OF assms valid_vpath] show ?thesis by (simp add: xlate_def)
qed

lemma ptwf_frame:
  assumes "ptwf e m pt free" "\<And>a q. q \<in> tables m pt \<Longrightarrow> in_page a q \<Longrightarrow> m' a = m a"
    and "tables m pt \<inter> free' = {}"
  shows "ptwf e m' pt free'"
proof -
  have "p \<notin> free'" if "valid_path is" "tab m pt is = Some p" for "is" p
    using tablesI[OF that] assms(3) by blast
  then show ?thesis
    using assms(1) tab_frame[OF assms(1,2)] unfolding ptwf_def by simp
qed

lemma table_aligned: "ptwf e m pt free \<Longrightarrow> q \<in> tables m pt \<Longrightarrow> aligned q \<and> phys_page e q \<and> q \<notin> free"
  using ptwf_page by (auto simp: tables_def)

text \<open>Pushing a page that is not a table page leaves the page table alone.\<close>

lemma asp_gave:
  assumes "asp s pt ps" "phys_page (kend s) p" "p \<notin> set ps" "p \<notin> tables (mem s) pt"
  shows "kfree p s = Ret () (gave p s)" "asp (gave p s) pt (p # ps)"
    and "\<And>va. xlate (mem (gave p s)) pt va = xlate (mem s) pt va"
    and "\<And>js. valid_path js \<Longrightarrow> tab (mem (gave p s)) pt js = tab (mem s) pt js"
    and "tables (mem (gave p s)) pt = tables (mem s) pt"
proof -
  have ar: "alloc_ready s" and pl: "pool s ps" and wf: "ptwf (kend s) (mem s) pt (set ps)"
    using assms(1) by (simp_all add: asp_def)
  note k = kfree_push[OF ar pl assms(2,3)]
  have eq: "mem (gave p s) a = mem s a" if "q \<in> tables (mem s) pt" "in_page a q" for a q
  proof -
    have "\<not> in_page a p"
      using pages_disjoint[of p q a] that table_aligned[OF wf that(1)] assms(2,4)
      by (auto simp: phys_page_def)
    then show ?thesis by (simp add: gave_def memset_page store64_page)
  qed
  show "kfree p s = Ret () (gave p s)" by (rule k(1))
  show "xlate (mem (gave p s)) pt va = xlate (mem s) pt va" for va
    by (rule xlate_frame[OF wf eq])
  show "tab (mem (gave p s)) pt js = tab (mem s) pt js" if "valid_path js" for js
    by (rule tab_frame[OF wf eq that])
  show "tables (mem (gave p s)) pt = tables (mem s) pt" by (rule tables_frame[OF wf eq])
  have "ptwf (kend s) (mem (gave p s)) pt (set (p # ps))"
    by (rule ptwf_frame[OF wf eq]) (use assms(4) table_aligned[OF wf] in auto)
  then show "asp (gave p s) pt (p # ps)" using k(2) ar by (simp add: asp_def)
qed

section \<open>uvmunmap\<close>

definition unmapped :: "memory \<Rightarrow> memory \<Rightarrow> addr \<Rightarrow> addr \<Rightarrow> nat \<Rightarrow> bool" where
  "unmapped m m' pt a n \<longleftrightarrow> (\<forall>va < MAXVA. xlate m' pt va =
     (if unat a \<le> unat va \<and> unat va < unat a + n * 4096 then None else xlate m pt va))"

text \<open>\<open>page_at m pt a k\<close> is the physical page under the \<open>k\<close>-th page from \<open>a\<close> on.\<close>

definition page_at :: "memory \<Rightarrow> addr \<Rightarrow> addr \<Rightarrow> nat \<Rightarrow> addr" where
  "page_at m pt a k = PTE2PA (the (xlate m pt (a + of_nat k * pgsz)))"

definition leafs :: "memory \<Rightarrow> addr \<Rightarrow> addr \<Rightarrow> nat \<Rightarrow> bool" where
  "leafs m pt a n \<longleftrightarrow> (\<forall>k < n. \<exists>e. xlate m pt (a + of_nat k * pgsz) = Some e \<and> PTE_FLAGS e \<noteq> PTE_V)"

definition freeable :: "'z kmem_scheme \<Rightarrow> addr \<Rightarrow> addr list \<Rightarrow> addr list \<Rightarrow> bool" where
  "freeable s pt ps qs \<longleftrightarrow> distinct qs \<and>
     (\<forall>p \<in> set qs. phys_page (kend s) p \<and> p \<notin> set ps \<and> p \<notin> tables (mem s) pt)"

lemma freeable_Cons: "freeable s pt ps (q # qs) \<Longrightarrow> freeable s pt (q # ps) qs"
  by (auto simp: freeable_def)

lemma freeable_cong:
  "kend u = kend s \<Longrightarrow> tables (mem u) pt = tables (mem s) pt \<Longrightarrow> freeable u pt ps qs = freeable s pt ps qs"
  by (simp add: freeable_def)

lemma slot_nonzero:
  assumes "asp s pt ps" "valid_path is" "tab (mem s) pt is = Some p" "i < 512"
  shows "slot p i \<noteq> 0"
proof -
  have "phys_page (kend s) p" "kend s \<noteq> 0" "aligned p"
    using ptwf_page[OF _ assms(2,3)] assms(1) by (auto simp: asp_def alloc_ready_def)
  then have "0 < unat p" "aligned p"
    by (auto simp: phys_page_def word_le_nat_alt word_unat_eq_iff)
  then have "0 < unat (slot p i)" using assms(4) by (simp add: unat_slot)
  then show ?thesis by auto
qed

lemma unat_page_add:
  assumes "unat a + n * 4096 \<le> unat MAXVA" "k \<le> n"
  shows "unat (a + of_nat k * pgsz) = unat a + k * 4096"
proof -
  have "unat a + k * 4096 \<le> 0x4000000000"
    using assms by (simp add: MAXVA_val)
  then show ?thesis by (simp add: pgsz_def unat_word_ariths unat_of_nat)
qed

lemma uvmunmap_step:
  assumes "asp s pt ps" "aligned a" "a < MAXVA" "a < bound"
    and "xlate (mem s) pt a = Some e" "PTE_FLAGS e \<noteq> PTE_V"
    and "df \<noteq> 0 \<Longrightarrow> freeable s pt ps [PTE2PA e]"
  shows "\<exists>u. uvmunmap_loop pt a bound df s = uvmunmap_loop pt (a + pgsz) bound df u \<and>
    asp u pt ((if df \<noteq> 0 then [PTE2PA e] else []) @ ps) \<and> unmapped (mem s) (mem u) pt a 1 \<and>
    same_but_mem s u \<and> tables (mem u) pt = tables (mem s) pt"
proof -
  obtain p where p: "tab (mem s) pt (vpath a) = Some p" "load64 (mem s) (slot p (PX 0 a)) = e"
    "e AND PTE_V \<noteq> 0"
    using assms(5) by (auto simp: xlate_def Let_def split: option.splits if_splits)
  let ?pte = "slot p (PX 0 a)"
  define t where "t = (if df \<noteq> 0 then gave (PTE2PA e) s else s)"
  let ?u = "t\<lparr>mem := store64 (mem t) ?pte 0\<rparr>"
  let ?qs = "(if df \<noteq> 0 then [PTE2PA e] else []) @ ps"
  have tt: "asp t pt ?qs" "\<And>va. xlate (mem t) pt va = xlate (mem s) pt va"
    "\<And>js. valid_path js \<Longrightarrow> tab (mem t) pt js = tab (mem s) pt js"
    "tables (mem t) pt = tables (mem s) pt"
    "(if df \<noteq> 0 then kfree (PTE2PA e) s else Ret () s) = Ret () t"
    using assms(1,7) asp_gave[OF assms(1), of "PTE2PA e"] unfolding t_def by (auto simp: freeable_def)
  have pt: "tab (mem t) pt (vpath a) = Some p" using tt(3) p(1) by simp
  note l = asp_leaf[OF tt(1) pt, of ?u 0]
  have wf: "ptwf (kend t) (mem t) pt (set ?qs)" using tt(1) by (simp add: asp_def)
  have "walk pt a 0 s = Ret ?pte s" by (simp add: walk_noalloc assms(3) p(1))
  then have "uvmunmap_loop pt a bound df s = uvmunmap_loop pt (a + pgsz) bound df ?u"
    using assms(4,6) p tt(5) slot_nonzero[OF assms(1) _ p(1)]
    by (subst uvmunmap_loop.simps) (auto simp: Let_def)
  moreover have "unmapped (mem s) (mem ?u) pt a 1"
  proof -
    have "vpath va = vpath a \<and> PX 0 va = PX 0 a \<longleftrightarrow> unat a \<le> unat va \<and> unat va < unat a + 4096"
      if "va < MAXVA" for va
      using same_page_iff[OF that assms(3)] page_of_range[OF assms(2)] PGROUNDDOWN_id[OF assms(2)]
      by simp
    then show ?thesis
      using xlate_leaf[OF wf pt, of 0] tt(2) by (simp add: unmapped_def)
  qed
  moreover have "same_but_mem s ?u" by (auto simp: same_but_mem_def gave_def t_def)
  moreover have "tables (mem ?u) pt = tables (mem s) pt"
    using tab_leaf[OF wf _ _ pt, of "PX 0 a"] tt(3) by (auto simp: tables_def)
  ultimately show ?thesis using l(1) by (intro exI[of _ ?u]) simp
qed

lemma uvmunmap_loop_pages:
  assumes "asp s pt ps" "aligned a" "unat a + n * 4096 \<le> unat MAXVA" "leafs (mem s) pt a n"
    and "b = a + of_nat n * pgsz"
    and "df \<noteq> 0 \<Longrightarrow> freeable s pt ps (map (page_at (mem s) pt a) [0..<n])"
  shows "\<exists>t. uvmunmap_loop pt a b df s = Ret () t \<and>
    asp t pt ((if df \<noteq> 0 then rev (map (page_at (mem s) pt a) [0..<n]) else []) @ ps) \<and>
    unmapped (mem s) (mem t) pt a n \<and> same_but_mem s t \<and> tables (mem t) pt = tables (mem s) pt"
  using assms
proof (induction n arbitrary: s ps a)
  case 0
  then show ?case
    by (subst uvmunmap_loop.simps) (auto simp: unmapped_def)
next
  case (Suc n)
  let ?pg = "page_at (mem s) pt a"
  have a: "a < MAXVA" using Suc.prems(3) by (simp add: word_less_nat_alt)
  have nx: "unat (a + pgsz) = unat a + 4096" by (rule unat_next_page[OF a])
  have "unat b = unat a + Suc n * 4096"
    using unat_page_add[OF Suc.prems(3) order_refl] Suc.prems(5) by simp
  then have ab: "a < b" by (simp add: word_less_nat_alt)
  obtain e where e: "xlate (mem s) pt a = Some e" "PTE_FLAGS e \<noteq> PTE_V"
    using Suc.prems(4) by (auto simp: leafs_def)
  have pe: "PTE2PA e = ?pg 0" using e by (simp add: page_at_def)
  have "[0..<Suc n] = 0 # map Suc [0..<n]" by (simp add: map_Suc_upt upt_conv_Cons del: upt_Suc)
  then have pgs: "map ?pg [0..<Suc n] = ?pg 0 # map (?pg \<circ> Suc) [0..<n]" by simp
  have "df \<noteq> 0 \<Longrightarrow> freeable s pt ps [PTE2PA e]"
    using Suc.prems(6) pgs pe by (auto simp: freeable_def simp del: upt_Suc)
  from uvmunmap_step[OF Suc.prems(1,2) a ab e this] obtain u where
    u: "uvmunmap_loop pt a b df s = uvmunmap_loop pt (a + pgsz) b df u"
      "asp u pt ((if df \<noteq> 0 then [PTE2PA e] else []) @ ps)" "unmapped (mem s) (mem u) pt a 1"
      "same_but_mem s u" "tables (mem u) pt = tables (mem s) pt" by blast
  have off: "a + pgsz + of_nat k * pgsz = a + of_nat (Suc k) * pgsz" for k by (simp add: algebra_simps)
  have xl: "xlate (mem u) pt (a + pgsz + of_nat k * pgsz) = xlate (mem s) pt (a + of_nat (Suc k) * pgsz)"
    if "k < n" for k
  proof -
    have "unat (a + of_nat (Suc k) * pgsz) = unat a + Suc k * 4096"
      by (rule unat_page_add[OF Suc.prems(3)]) (use that in simp)
    moreover from this have "a + of_nat (Suc k) * pgsz < MAXVA"
      using that Suc.prems(3) by (simp add: word_less_nat_alt del: of_nat_Suc)
    ultimately show ?thesis using u(3) unfolding off by (simp add: unmapped_def del: of_nat_Suc)
  qed
  have pgu: "map (page_at (mem u) pt (a + pgsz)) [0..<n] = map (?pg \<circ> Suc) [0..<n]"
    using xl by (simp add: page_at_def del: of_nat_Suc)
  have IH: "\<exists>t. uvmunmap_loop pt (a + pgsz) b df u = Ret () t \<and>
    asp t pt ((if df \<noteq> 0 then rev (map (page_at (mem u) pt (a + pgsz)) [0..<n]) else []) @
              (if df \<noteq> 0 then [PTE2PA e] else []) @ ps) \<and>
    unmapped (mem u) (mem t) pt (a + pgsz) n \<and> same_but_mem u t \<and> tables (mem t) pt = tables (mem u) pt"
  proof (rule Suc.IH[OF u(2)])
    show "aligned (a + pgsz)" using Suc.prems(2) nx by (simp add: aligned_unat)
    show "unat (a + pgsz) + n * 4096 \<le> unat MAXVA" using nx Suc.prems(3) by simp
    show "leafs (mem u) pt (a + pgsz) n"
      using Suc.prems(4) xl by (auto simp: leafs_def simp del: of_nat_Suc)
    show "b = a + pgsz + of_nat n * pgsz" using Suc.prems(5) by (simp add: algebra_simps)
    show "freeable u pt ((if df \<noteq> 0 then [PTE2PA e] else []) @ ps)
        (map (page_at (mem u) pt (a + pgsz)) [0..<n])" if "df \<noteq> 0"
    proof -
      have "freeable s pt (PTE2PA e # ps) (map (?pg \<circ> Suc) [0..<n])"
        using freeable_Cons Suc.prems(6)[OF that] unfolding pgs pe .
      then show ?thesis
        using freeable_cong[of u s pt] u(4,5) that unfolding pgu by (simp add: same_but_mem_def)
    qed
  qed
  then obtain t where t: "uvmunmap_loop pt (a + pgsz) b df u = Ret () t"
    "asp t pt ((if df \<noteq> 0 then rev (map (?pg \<circ> Suc) [0..<n]) else []) @
              (if df \<noteq> 0 then [PTE2PA e] else []) @ ps)"
    "unmapped (mem u) (mem t) pt (a + pgsz) n" "same_but_mem u t" "tables (mem t) pt = tables (mem u) pt"
    unfolding pgu by blast
  have "unmapped (mem s) (mem t) pt a (Suc n)"
    using u(3) t(3) nx by (auto simp: unmapped_def)
  moreover have "same_but_mem s t" by (rule same_but_mem_trans[OF u(4) t(4)])
  moreover have "asp t pt ((if df \<noteq> 0 then rev (map ?pg [0..<Suc n]) else []) @ ps)"
    unfolding pgs using t(2) pe by (simp split: if_splits)
  ultimately show ?case using u(1,5) t(1,5) by (intro exI[of _ t]) simp
qed

section \<open>An address space with one page\<close>

lemma ptwf_empty:
  assumes "phys_page e pt" "pt \<notin> free" "\<And>a. in_page a pt \<Longrightarrow> m a = 0"
  shows "ptwf e m pt free" "\<And>js. valid_path js \<Longrightarrow> js \<noteq> [] \<Longrightarrow> tab m pt js = None"
proof -
  have al: "aligned pt" using assms(1) by (simp add: phys_page_def)
  have one: "tab m pt [i] = None" if "i < 512" for i
    using load_slot_zero[OF al that assms(3)] by (simp add: child_def)
  show none: "tab m pt js = None" if "valid_path js" "js \<noteq> []" for js
    using that
  proof (induction js)
    case (Cons j js)
    then show ?case using one by (cases js) auto
  qed simp
  have root: "js = [] \<and> p = pt" if "valid_path js" "tab m pt js = Some p" for js p
    using none[OF that(1)] that(2) by (cases "js = []") auto
  show "ptwf e m pt free"
    unfolding ptwf_def using root assms(1,2) by blast
qed

text \<open>
  The states used to apply the properties below: an empty table at \<open>ex_pt\<close>, then its
  two inner tables, then page 0 mapped to \<open>ex_page\<close>.
\<close>

definition ex_pt :: addr where
  "ex_pt = 0x80001000"

definition ex_page :: addr where
  "ex_page = 0x80004000"

definition ex_grow :: "addr \<Rightarrow> addr \<Rightarrow> kmem \<Rightarrow> kmem" where
  "ex_grow p q s = (took q s)\<lparr>mem := store64 (memset (mem s) q 0 PGSIZE) (slot p 0) (PA2PTE q OR PTE_V)\<rparr>"

definition ex_tables :: kmem where
  "ex_tables = ex_grow 0x80002000 0x80003000 (ex_grow ex_pt 0x80002000 ex_kmem)"

definition ex_mapped :: kmem where
  "ex_mapped = ex_tables\<lparr>mem := store64 (mem ex_tables) (slot 0x80003000 0)
     (PA2PTE ex_page OR (PTE_R OR PTE_W OR PTE_U) OR PTE_V)\<rparr>"

lemma ex_kmem_zero: "in_page a p \<Longrightarrow> aligned p \<Longrightarrow> p \<noteq> 0x80002000 \<Longrightarrow> mem ex_kmem a = 0"
  using pages_disjoint[of p "0x80002000" a]
  by (auto simp: ex_kmem_def aligned_unat intro!: store64_page)

lemma ex_aligned [simp]: "aligned 0x80001000" "aligned 0x80002000" "aligned 0x80003000" "aligned 0x80004000"
  by (simp_all add: aligned_unat)

lemma ex_asp: "asp ex_kmem ex_pt [0x80002000, 0x80003000]"
  and ex_none: "valid_path js \<Longrightarrow> js \<noteq> [] \<Longrightarrow> tab (mem ex_kmem) ex_pt js = None"
proof -
  have "phys_page (kend ex_kmem) ex_pt"
    by (simp add: ex_kmem_def ex_pt_def phys_page_def PHYSTOP_val)
  moreover have "mem ex_kmem a = 0" if "in_page a ex_pt" for a
    using ex_kmem_zero[OF that] by (simp add: ex_pt_def)
  moreover have "ex_pt \<notin> set [0x80002000, 0x80003000]" by (simp add: ex_pt_def)
  ultimately have "ptwf (kend ex_kmem) (mem ex_kmem) ex_pt (set [0x80002000, 0x80003000])"
    "\<And>js. valid_path js \<Longrightarrow> js \<noteq> [] \<Longrightarrow> tab (mem ex_kmem) ex_pt js = None"
    using ptwf_empty[of "kend ex_kmem" ex_pt "set [0x80002000, 0x80003000]" "mem ex_kmem"] by blast+
  then show "asp ex_kmem ex_pt [0x80002000, 0x80003000]"
    "valid_path js \<Longrightarrow> js \<noteq> [] \<Longrightarrow> tab (mem ex_kmem) ex_pt js = None"
    using ex_kmem_pool by (simp_all add: asp_def)
qed

lemma ex_tables_tab:
  "asp ex_tables ex_pt []"
  "valid_path js \<Longrightarrow> tab (mem ex_tables) ex_pt js =
     (if js = [0, 0] then Some 0x80003000 else if js = [0] then Some 0x80002000
      else if js = [] then Some ex_pt else None)"
proof -
  let ?s1 = "ex_grow ex_pt 0x80002000 ex_kmem"
  have e0: "load64 (mem ex_kmem) (slot ex_pt 0) AND PTE_V = 0"
    using ex_none[of "[0]"] by (auto simp: child_def Let_def split: if_splits)
  have s1: "asp ?s1 ex_pt [0x80003000]"
    using asp_grow(1)[OF ex_asp _ _ e0 refl, of "[]"] by (simp add: ex_grow_def)
  have wf0: "ptwf (kend ex_kmem) (mem ex_kmem) ex_pt (set [0x80002000, 0x80003000])"
    using ex_asp by (simp add: asp_def)
  have ph: "phys_page (kend ex_kmem) 0x80002000" "phys_page (kend ?s1) 0x80003000"
    by (simp_all add: ex_kmem_def ex_grow_def phys_page_def PHYSTOP_val)
  have t1: "tab (mem ?s1) ex_pt js = (if js = [0] then Some 0x80002000 else if js = [] then Some ex_pt else None)"
    if "valid_path js" for js
    using tab_grow[OF wf0 _ _ e0 ph(1) _ refl that, of "[]"] ex_none[OF that] by (simp add: ex_grow_def)
  have e1: "load64 (mem ?s1) (slot 0x80002000 0) AND PTE_V = 0"
    using t1[of "[0, 0]"] t1[of "[0]"] by (auto simp: child_def Let_def split: if_splits)
  show "asp ex_tables ex_pt []"
    using asp_grow(1)[OF s1 _ _ e1 refl, of "[0]"] t1[of "[0]"] by (simp add: ex_tables_def ex_grow_def[of "0x80002000"])
  have wf1: "ptwf (kend ?s1) (mem ?s1) ex_pt (set [0x80003000])"
    using s1 by (simp add: asp_def)
  show "valid_path js \<Longrightarrow> tab (mem ex_tables) ex_pt js =
     (if js = [0, 0] then Some 0x80003000 else if js = [0] then Some 0x80002000
      else if js = [] then Some ex_pt else None)"
    using tab_grow[OF wf1 _ _ e1 ph(2) _ refl, of "[0]" js] t1[of "[0]"] t1[of js]
    by (simp add: ex_tables_def ex_grow_def[of "0x80002000"])
qed

lemma vpath_0 [simp]: "vpath 0 = [0, 0]" "PX l 0 = 0"
  by (simp_all add: vpath_def PX_def)

lemma tables_ex: "p \<in> tables (mem ex_tables) ex_pt \<Longrightarrow> p \<in> {0x80001000, 0x80002000, 0x80003000}"
  using ex_tables_tab(2) by (auto simp: tables_def ex_pt_def split: if_splits)

lemma ex_mapped_asp:
  "asp ex_mapped ex_pt []" "tables (mem ex_mapped) ex_pt = tables (mem ex_tables) ex_pt"
  "xlate (mem ex_mapped) ex_pt 0 = Some (PA2PTE ex_page OR (PTE_R OR PTE_W OR PTE_U) OR PTE_V)"
proof -
  have p: "tab (mem ex_tables) ex_pt (vpath 0) = Some 0x80003000"
    using ex_tables_tab(2)[of "vpath 0"] by simp
  have wf: "ptwf (kend ex_tables) (mem ex_tables) ex_pt {}"
    using ex_tables_tab(1) by (simp add: asp_def)
  show "asp ex_mapped ex_pt []"
    using asp_leaf(1)[OF ex_tables_tab(1) p refl] by (simp add: ex_mapped_def)
  show "tables (mem ex_mapped) ex_pt = tables (mem ex_tables) ex_pt"
    using tab_leaf[OF wf _ _ p] by (auto simp: tables_def ex_mapped_def)
  show "xlate (mem ex_mapped) ex_pt 0 = Some (PA2PTE ex_page OR (PTE_R OR PTE_W OR PTE_U) OR PTE_V)"
    using xlate_leaf[OF wf p, of _ 0] by (simp add: ex_mapped_def)
qed

section \<open>Properties\<close>

text \<open>
  C6: \<open>mappages\<close> on an unmapped, page-aligned range below \<open>MAXVA\<close> never panics. It
  returns 0 or -1, and 0 for certain when two free pages per mapped page are left. When
  it returns 0, exactly the pages of the range translate to the given physical pages with
  the given permissions, every other address translates as before, and the page table and
  the free list are still well formed and disjoint.
\<close>

theorem mappages_maps_range:
  assumes "asp s pt ps" "va mod pgsz = 0" "0 < n" "unat va + n * 4096 \<le> unat MAXVA"
    and "\<And>a. unat va \<le> unat a \<Longrightarrow> unat a < unat va + n * 4096 \<Longrightarrow> xlate (mem s) pt a = None"
  shows "\<exists>r t. mappages pt va (of_nat n * pgsz) pa perm s = Ret r t \<and> (r = 0 \<or> r = -1) \<and>
    (2 * n \<le> length ps \<longrightarrow> r = 0) \<and> (\<exists>qs. asp t pt qs) \<and>
    (r = 0 \<longrightarrow> (\<forall>a < MAXVA. xlate (mem t) pt a =
       (if unat va \<le> unat a \<and> unat a < unat va + n * 4096
        then Some (PA2PTE (pa + (PGROUNDDOWN a - va)) OR perm OR PTE_V)
        else xlate (mem s) pt a)))"
proof -
  obtain k where k: "n = Suc k" using assms(3) by (cases n) auto
  have sz: "unat (of_nat n * pgsz) = n * 4096"
    using assms(4) by (simp add: pgsz_def unat_word_ariths unat_of_nat MAXVA_val)
  then have al: "(of_nat n * pgsz) mod pgsz = 0" using aligned_unat[of "of_nat n * pgsz"]
    by (simp add: aligned_def)
  have nz: "of_nat n * pgsz \<noteq> 0" using sz assms(3) by (metis mult_is_0 not_gr_zero unat_0 zero_neq_numeral)
  have last: "va + of_nat n * pgsz - pgsz = va + of_nat k * pgsz" by (simp add: k algebra_simps)
  have eq: "mappages pt va (of_nat n * pgsz) pa perm s =
      mappages_loop pt va (va + of_nat k * pgsz) pa perm s"
    unfolding mappages_def last using assms(2) al nz by simp
  have "wp (mappages_loop pt va (va + of_nat k * pgsz) pa perm) (mappages_post s pt ps va n pa perm) s"
    unfolding k using assms k by (intro mappages_loop_post) (simp_all add: aligned_def)
  then obtain r t where "mappages pt va (of_nat n * pgsz) pa perm s = Ret r t"
    "mappages_post s pt ps va n pa perm r t"
    unfolding eq by (rule wpE)
  then show ?thesis
    by (auto simp: mappages_post_def mapped_def split: if_splits)
qed

theorem mappages_maps_range_witness:
  "\<exists>t. mappages ex_pt 0 (of_nat 1 * pgsz) ex_page (PTE_R OR PTE_U) ex_kmem = Ret 0 t \<and>
     xlate (mem t) ex_pt 5 = Some (PA2PTE ex_page OR (PTE_R OR PTE_U) OR PTE_V)"
proof -
  have "xlate (mem ex_kmem) ex_pt a = None" for a
    using ex_none[OF valid_vpath, of a] by (simp add: xlate_def vpath_def)
  then have "\<exists>r t. mappages ex_pt 0 (of_nat 1 * pgsz) ex_page (PTE_R OR PTE_U) ex_kmem = Ret r t \<and> r = 0 \<and>
      (\<forall>a < MAXVA. unat (0 :: addr) \<le> unat a \<and> unat a < unat (0 :: addr) + 1 * 4096 \<longrightarrow>
        xlate (mem t) ex_pt a = Some (PA2PTE (ex_page + (PGROUNDDOWN a - 0)) OR (PTE_R OR PTE_U) OR PTE_V))"
    using mappages_maps_range[OF ex_asp, of 0 1 ex_page "PTE_R OR PTE_U"]
    by (fastforce simp: MAXVA_val)
  moreover have "PGROUNDDOWN 5 = 0" "5 < MAXVA" by (simp_all add: PGROUNDDOWN_def pgsz_def MAXVA_val)
  ultimately show ?thesis by fastforce
qed

text \<open>
  C5: \<open>uvmunmap\<close> with \<open>do_free\<close> on a range of mapped leaf pages returns, removes
  exactly the translations of the range, and pushes exactly the physical pages that were
  mapped there on the free list. The hypothesis \<open>freeable\<close> says that those are distinct
  allocated pages, none of them free already or used by the page table itself.
\<close>

theorem uvmunmap_frees_range:
  assumes "asp s pt ps" "va mod pgsz = 0" "unat va + n * 4096 \<le> unat MAXVA" "leafs (mem s) pt va n"
    and "freeable s pt ps (map (page_at (mem s) pt va) [0..<n])"
  shows "\<exists>t. uvmunmap pt va (of_nat n) 1 s = Ret () t \<and>
    asp t pt (rev (map (page_at (mem s) pt va) [0..<n]) @ ps) \<and>
    (\<forall>a < MAXVA. xlate (mem t) pt a =
       (if unat va \<le> unat a \<and> unat a < unat va + n * 4096 then None else xlate (mem s) pt a))"
  using uvmunmap_loop_pages[OF assms(1) _ assms(3,4) refl, of 1] assms(2,5)
  by (auto simp: uvmunmap_def aligned_def unmapped_def)

theorem uvmunmap_frees_range_witness:
  "\<exists>t. uvmunmap ex_pt 0 (of_nat 1) 1 ex_mapped = Ret () t \<and> asp t ex_pt [ex_page] \<and>
     xlate (mem t) ex_pt 0 = None"
proof -
  have pte: "PTE2PA (PA2PTE ex_page OR (PTE_R OR PTE_W OR PTE_U) OR PTE_V) = ex_page"
    "PTE_FLAGS (PA2PTE ex_page OR (PTE_R OR PTE_W OR PTE_U) OR PTE_V) \<noteq> PTE_V"
    by (simp_all add: PTE2PA_def PA2PTE_def PTE_FLAGS_def ex_page_def PTE_R_def PTE_W_def PTE_U_def PTE_V_def)
  then have pg: "map (page_at (mem ex_mapped) ex_pt 0) [0..<1] = [ex_page]"
    using ex_mapped_asp(3) by (simp add: page_at_def)
  have "ex_page \<notin> tables (mem ex_mapped) ex_pt"
    using tables_ex[of ex_page] ex_mapped_asp(2) by (auto simp: ex_page_def)
  moreover have "phys_page (kend ex_mapped) ex_page"
    by (simp add: ex_mapped_def ex_tables_def ex_grow_def ex_kmem_def ex_page_def phys_page_def PHYSTOP_val)
  ultimately have "freeable ex_mapped ex_pt [] (map (page_at (mem ex_mapped) ex_pt 0) [0..<1])"
    unfolding pg by (simp add: freeable_def)
  moreover have "leafs (mem ex_mapped) ex_pt 0 1"
    using ex_mapped_asp(3) pte(2) by (simp add: leafs_def)
  ultimately show ?thesis
    using uvmunmap_frees_range[OF ex_mapped_asp(1), of 0 1] pg by (auto simp: MAXVA_val)
qed

end
