(* ===== verification/Vmcopy.thy ===== *)
theory Vmcopy
  imports Vmmap
begin

text \<open>
  What \<open>copyin\<close>, \<open>copyout\<close> and \<open>copyinstr\<close> of theory \<open>Vm\<close> transfer.

  \<open>upa m pt va\<close> is the physical address behind a user address, \<open>ureadable\<close> and
  \<open>uwritable\<close> say when user code could read or write it. Results: \<open>copyin\<close>
  succeeds exactly when every byte of the range is readable and then returns those bytes;
  \<open>copyout\<close> writes exactly the bytes of the range; the two are inverse.
\<close>

section \<open>User addresses\<close>

definition ureadable :: "memory \<Rightarrow> addr \<Rightarrow> addr \<Rightarrow> bool" where
  "ureadable m pt va \<longleftrightarrow> va < MAXVA \<and>
     (case xlate m pt va of None \<Rightarrow> False | Some e \<Rightarrow> e AND PTE_U \<noteq> 0 \<and> PTE2PA e \<noteq> 0)"

definition uwritable :: "memory \<Rightarrow> addr \<Rightarrow> addr \<Rightarrow> bool" where
  "uwritable m pt va \<longleftrightarrow> va < MAXVA \<and>
     (case xlate m pt va of None \<Rightarrow> False | Some e \<Rightarrow> e AND PTE_U \<noteq> 0 \<and> e AND PTE_W \<noteq> 0)"

definition upa :: "memory \<Rightarrow> addr \<Rightarrow> addr \<Rightarrow> addr" where
  "upa m pt va = PTE2PA (the (xlate m pt va)) + (va - PGROUNDDOWN va)"

lemma PX_PGROUNDDOWN [simp]: "PX l (PGROUNDDOWN va) = PX l va"
  by (rule bit_eqI) (simp add: bit_PX bit_PGROUNDDOWN)

lemma xlate_PGROUNDDOWN [simp]: "xlate m pt (PGROUNDDOWN va) = xlate m pt va"
  unfolding xlate_def vpath_def by (simp only: PX_PGROUNDDOWN)

lemma PGROUNDDOWN_less_MAXVA: "PGROUNDDOWN va < MAXVA \<longleftrightarrow> va < MAXVA"
proof -
  have "unat va div 4096 * 4096 < 4096 * 2 ^ 26 \<longleftrightarrow> unat va < 4096 * 2 ^ 26"
    using div_less_iff_less_mult[of 4096 "unat va" "2 ^ 26"] by simp
  then show ?thesis by (simp add: word_less_nat_alt MAXVA_val unat_PGROUNDDOWN)
qed

lemma MAXVA_le_PGROUNDDOWN: "MAXVA \<le> PGROUNDDOWN va \<longleftrightarrow> \<not> va < MAXVA"
  using PGROUNDDOWN_less_MAXVA by (simp add: not_less[symmetric])

lemma same_page_offset:
  assumes "j < unat (chunk va len)"
  shows "PGROUNDDOWN (va + of_nat j) = PGROUNDDOWN va" "unat (va + of_nat j) = unat va + j"
proof -
  have j: "unat va mod 4096 + j < 4096" using assms by (simp add: unat_chunk less_diff_conv)
  have "unat va div 4096 * 4096 + 4096 \<le> 2 ^ 64"
  proof -
    have "unat va < 2 ^ 52 * 4096" using unsigned_less[of va, where ?'a = nat] by simp
    then have "unat va div 4096 < 2 ^ 52" by (rule less_mult_imp_div_less)
    then show ?thesis by simp
  qed
  moreover have va: "unat va = unat va div 4096 * 4096 + unat va mod 4096" by simp
  ultimately have lt: "unat va + j < 2 ^ 64" using j by linarith
  then show u: "unat (va + of_nat j) = unat va + j"
    by (simp add: unat_word_ariths unat_of_nat)
  obtain q r where q: "q = unat va div 4096" and r: "r = unat va mod 4096" by simp
  then have eq: "unat va = 4096 * q + r" and rj: "r + j < 4096" using j by simp_all
  have "(unat va + j) div 4096 = q"
    unfolding eq using rj by (intro div_nat_eqI) simp_all
  then have "(unat va + j) div 4096 = unat va div 4096" using q by simp
  then show "PGROUNDDOWN (va + of_nat j) = PGROUNDDOWN va"
    by (simp add: word_unat_eq_iff unat_PGROUNDDOWN u)
qed


lemma chunk_address:
  assumes "j < unat (chunk va len)"
  shows "upa m pt (va + of_nat j) = PTE2PA (the (xlate m pt va)) + (va - PGROUNDDOWN va) + of_nat j"
    "ureadable m pt (va + of_nat j) = ureadable m pt va"
    "uwritable m pt (va + of_nat j) = uwritable m pt va"
proof -
  note s = same_page_offset[OF assms]
  have x: "xlate m pt (va + of_nat j) = xlate m pt va"
    using xlate_PGROUNDDOWN[of m pt "va + of_nat j"] s(1) by simp
  have "va + of_nat j < MAXVA \<longleftrightarrow> va < MAXVA"
    using PGROUNDDOWN_less_MAXVA[of "va + of_nat j"] PGROUNDDOWN_less_MAXVA[of va] s(1) by simp
  then show "upa m pt (va + of_nat j) = PTE2PA (the (xlate m pt va)) + (va - PGROUNDDOWN va) + of_nat j"
    "ureadable m pt (va + of_nat j) = ureadable m pt va"
    "uwritable m pt (va + of_nat j) = uwritable m pt va"
    using x s(1) by (simp_all add: upa_def ureadable_def uwritable_def algebra_simps)
qed

lemma chunk_positive: "len > 0 \<Longrightarrow> 0 < unat (chunk va len)"
  by (simp add: unat_chunk word_less_nat_alt del: zero_less_diff)

lemma chunk_le: "chunk va len \<le> len"
  by (simp add: word_le_nat_alt unat_chunk)

lemma next_chunk:
  assumes "chunk va len < len"
  shows "PGROUNDDOWN va + pgsz = va + chunk va len"
proof -
  have "chunk va len = pgsz - (va - PGROUNDDOWN va)"
    using assms by (auto simp: chunk_def Let_def split: if_splits)
  then show ?thesis by simp
qed

lemma walkaddr_run:
  assumes "asp s pt ps"
  shows "walkaddr pt va s =
    Ret (if ureadable (mem s) pt va then PTE2PA (the (xlate (mem s) pt va)) else 0) s"
proof (cases "va < MAXVA")
  case False
  then show ?thesis by (auto simp: walkaddr_def run_simps ureadable_def)
next
  case va: True
  show ?thesis
  proof (cases "tab (mem s) pt (vpath va)")
    case None
    then show ?thesis
      using va by (simp add: walkaddr_def not_le walk_noalloc run_simps ureadable_def xlate_def)
  next
    case (Some p)
    have "slot p (PX 0 va) \<noteq> 0" using slot_nonzero[OF assms _ Some] by simp
    with va Some show ?thesis
      by (auto simp: walkaddr_def not_le walk_noalloc run_simps ureadable_def xlate_def pte_at_def
          Let_def)
  qed
qed

section \<open>copyin\<close>

definition ucovers :: "(addr \<Rightarrow> bool) \<Rightarrow> addr \<Rightarrow> nat \<Rightarrow> bool" where
  "ucovers P va n \<longleftrightarrow> (\<forall>j < n. P (va + of_nat j))"

lemma ucovers_split: "ucovers P va (a + b) \<longleftrightarrow> ucovers P va a \<and> ucovers P (va + of_nat a) b"
proof -
  have "(\<forall>j < a + b. Q j) \<longleftrightarrow> (\<forall>j < a. Q j) \<and> (\<forall>j < b. Q (a + j))" for Q :: "nat \<Rightarrow> bool"
    by (metis add_diff_inverse_nat nat_add_left_cancel_less trans_less_add1)
  then show ?thesis by (simp add: ucovers_def add.assoc)
qed

definition copied_in :: "memory \<Rightarrow> addr \<Rightarrow> cstr \<Rightarrow> nat \<Rightarrow> addr \<Rightarrow> nat \<Rightarrow> cstr" where
  "copied_in m pt dst k va n =
     (\<lambda>j. if k \<le> j \<and> j < k + n then m (upa m pt (va + of_nat (j - k))) else dst j)"

lemma copied_in_0 [simp]: "copied_in m pt dst k va 0 = dst"
  by (rule ext) (auto simp: copied_in_def)

lemma move_in_chunk:
  assumes "n = unat (chunk va len)"
  shows "move_in dst k m (PTE2PA (the (xlate m pt va)) + (va - PGROUNDDOWN va)) n
    = copied_in m pt dst k va n"
proof
  fix j
  show "move_in dst k m (PTE2PA (the (xlate m pt va)) + (va - PGROUNDDOWN va)) n j
    = copied_in m pt dst k va n j"
  proof (cases "k \<le> j \<and> j < k + n")
    case True
    then have "j - k < unat (chunk va len)" using assms by linarith
    from chunk_address(1)[OF this, of m pt] True show ?thesis
      by (simp add: move_in_apply copied_in_def del: of_nat_diff)
  next
    case False
    then show ?thesis by (auto simp: move_in_apply copied_in_def)
  qed
qed

lemma copied_in_split:
  "copied_in m pt (copied_in m pt dst k va a) (k + a) (va + of_nat a) b = copied_in m pt dst k va (a + b)"
proof -
  have "va + of_nat a + of_nat (j - (k + a)) = va + of_nat (j - k)" if "k + a \<le> j" for j
    using that by (simp add: of_nat_diff)
  then show ?thesis by (intro ext) (auto simp: copied_in_def add.assoc simp del: of_nat_diff)
qed

lemma copyin_loop_spec:
  assumes "asp s pt ps"
  shows "\<exists>r d. copyin_loop pt dst k va len s = Ret (r, d) s \<and>
    (r = 0 \<or> r = -1) \<and> (r = 0 \<longleftrightarrow> ucovers (ureadable (mem s) pt) va (unat len)) \<and>
    (r = 0 \<longrightarrow> d = copied_in (mem s) pt dst k va (unat len)) \<and>
    (\<forall>j. j < k \<or> k + unat len \<le> j \<longrightarrow> d j = dst j)"
proof (induction "unat len" arbitrary: dst k va len rule: less_induct)
  case less
  let ?P = "ureadable (mem s) pt"
  show ?case
  proof (cases "len > 0")
    case False
    then have "len = 0" by (simp add: word_gt_0)
    then show ?thesis
      by (subst copyin_loop.simps) (simp add: ucovers_def)
  next
    case True
    define n where "n = chunk va len"
    have n: "0 < unat n" "n \<le> len" using True chunk_positive chunk_le by (simp_all add: n_def)
    have lenn: "unat len = unat n + unat (len - n)" using n(2) by (simp add: unat_sub word_le_nat_alt)
    have first: "ucovers ?P va (unat n) \<longleftrightarrow> ?P va"
      using n(1) chunk_address(2)[of _ va len "mem s" pt]
      by (auto simp: ucovers_def n_def intro: exI[of _ 0])
    have w: "walkaddr pt (PGROUNDDOWN va) s =
        Ret (if ?P va then PTE2PA (the (xlate (mem s) pt va)) else 0) s"
      using walkaddr_run[OF assms] by (simp add: ureadable_def PGROUNDDOWN_less_MAXVA)
    show ?thesis
    proof (cases "?P va")
      case False
      then have "\<not> ucovers ?P va (unat len)" using first ucovers_split lenn by metis
      with False True w show ?thesis
        by (subst copyin_loop.simps) (simp add: Let_def)
    next
      case P: True
      then have nz: "PTE2PA (the (xlate (mem s) pt va)) \<noteq> 0"
        by (auto simp: ureadable_def split: option.splits)
      let ?dst = "copied_in (mem s) pt dst k va (unat n)"
      have step: "copyin_loop pt dst k va len s =
          copyin_loop pt ?dst (k + unat n) (PGROUNDDOWN va + pgsz) (len - n) s"
        using True P w nz move_in_chunk[OF refl, of dst k "mem s" pt va len]
        by (subst copyin_loop.simps) (simp add: Let_def n_def[symmetric])
      have "unat (len - n) < unat len" using lenn n(1) by simp
      from less.hyps[OF this, of ?dst "k + unat n" "PGROUNDDOWN va + pgsz"]
      obtain r d where rd: "copyin_loop pt ?dst (k + unat n) (PGROUNDDOWN va + pgsz) (len - n) s = Ret (r, d) s"
        "r = 0 \<or> r = -1" "r = 0 \<longleftrightarrow> ucovers ?P (PGROUNDDOWN va + pgsz) (unat (len - n))"
        "r = 0 \<longrightarrow> d = copied_in (mem s) pt ?dst (k + unat n) (PGROUNDDOWN va + pgsz) (unat (len - n))"
        "\<forall>j. j < k + unat n \<or> k + unat n + unat (len - n) \<le> j \<longrightarrow> d j = ?dst j"
        by blast
      have nxt: "PGROUNDDOWN va + pgsz = va + of_nat (unat n) \<or> unat (len - n) = 0"
        using next_chunk[of va len] n(2) by (cases "n = len") (auto simp: n_def)
      have "ucovers ?P (PGROUNDDOWN va + pgsz) (unat (len - n)) \<longleftrightarrow>
          ucovers ?P (va + of_nat (unat n)) (unat (len - n))"
        using nxt by (auto simp: ucovers_def)
      then have "r = 0 \<longleftrightarrow> ucovers ?P va (unat len)"
        using rd(3) first P ucovers_split[of ?P va "unat n" "unat (len - n)"] lenn by simp
      moreover have "copied_in (mem s) pt ?dst (k + unat n) (PGROUNDDOWN va + pgsz) (unat (len - n)) =
          copied_in (mem s) pt ?dst (k + unat n) (va + of_nat (unat n)) (unat (len - n))"
        using nxt by (elim disjE) simp_all
      then have "r = 0 \<longrightarrow> d = copied_in (mem s) pt dst k va (unat len)"
        using rd(4) copied_in_split[of "mem s" pt dst k va "unat n" "unat (len - n)"] lenn by simp
      moreover have "\<forall>j. j < k \<or> k + unat len \<le> j \<longrightarrow> d j = dst j"
        using rd(5) lenn by (auto simp: copied_in_def)
      ultimately show ?thesis using rd(1,2) step by auto
    qed
  qed
qed

section \<open>copyout\<close>

text \<open>
  \<open>wrote\<close>: the bytes of the range, and only they, changed. \<open>uspace_ok\<close>: the
  writable user pages of the range are neither table pages nor free pages, and no two of
  its bytes share a physical address.
\<close>

definition wrote :: "memory \<Rightarrow> memory \<Rightarrow> addr \<Rightarrow> addr \<Rightarrow> cstr \<Rightarrow> nat \<Rightarrow> bool" where
  "wrote m m' pt va src n \<longleftrightarrow>
     (\<forall>j < n. m' (upa m pt (va + of_nat j)) = src j) \<and>
     (\<forall>a. (\<forall>j < n. a \<noteq> upa m pt (va + of_nat j)) \<longrightarrow> m' a = m a)"

definition uspace_ok :: "memory \<Rightarrow> addr \<Rightarrow> addr list \<Rightarrow> addr \<Rightarrow> nat \<Rightarrow> bool" where
  "uspace_ok m pt ps va n \<longleftrightarrow>
     (\<forall>j < n. uwritable m pt (va + of_nat j) \<longrightarrow>
        (\<forall>q \<in> tables m pt \<union> set ps. \<not> in_page (upa m pt (va + of_nat j)) q)) \<and>
     inj_on (\<lambda>j. upa m pt (va + of_nat j)) {..<n}"

lemma asp_wrote:
  assumes "asp s pt ps" "wrote (mem s) m' pt va src n" "uspace_ok (mem s) pt ps va n"
    and "\<forall>j < n. uwritable (mem s) pt (va + of_nat j)"
  shows "asp (s\<lparr>mem := m'\<rparr>) pt ps" "\<And>v. xlate m' pt v = xlate (mem s) pt v"
    "tables m' pt = tables (mem s) pt"
proof -
  have wf: "ptwf (kend s) (mem s) pt (set ps)" and pl: "pool s ps"
    using assms(1) by (simp_all add: asp_def)
  have eq: "m' a = mem s a" if "in_page a q" "q \<in> tables (mem s) pt \<union> set ps" for a q
  proof -
    have "a \<noteq> upa (mem s) pt (va + of_nat j)" if j: "j < n" for j
      using \<open>in_page a q\<close> \<open>q \<in> tables (mem s) pt \<union> set ps\<close> j assms(3,4) by (auto simp: uspace_ok_def)
    then show ?thesis using assms(2) by (simp add: wrote_def)
  qed
  have "fl_rep m' (freelist s) ps"
    by (rule fl_rep_frame[of "mem s"]) (use pl eq in \<open>auto simp: pool_def\<close>)
  moreover have "ptwf (kend s) m' pt (set ps)"
    by (rule ptwf_frame[OF wf]) (use eq table_aligned[OF wf] in auto)
  ultimately show "asp (s\<lparr>mem := m'\<rparr>) pt ps"
    using assms(1) by (simp add: asp_def pool_def alloc_ready_def)
  show "xlate m' pt v = xlate (mem s) pt v" for v
    by (rule xlate_frame[OF wf]) (use eq in auto)
  show "tables m' pt = tables (mem s) pt"
    by (rule tables_frame[OF wf]) (use eq in auto)
qed

lemma wrote_chunk:
  assumes "n = unat (chunk va len)"
  shows "wrote m (move_out m (PTE2PA (the (xlate m pt va)) + (va - PGROUNDDOWN va)) src n) pt va src n"
proof -
  let ?d = "PTE2PA (the (xlate m pt va)) + (va - PGROUNDDOWN va)"
  have n: "n \<le> 4096" by (simp add: assms unat_chunk)
  have ua: "upa m pt (va + of_nat j) = ?d + of_nat j" if "j < n" for j
    using chunk_address(1)[of j va len] that assms by simp
  have "move_out m ?d src n (?d + of_nat j) = src j" if "j < n" for j
    using that n by (simp add: move_out_apply unat_of_nat)
  moreover have "move_out m ?d src n a = m a" if "\<forall>j < n. a \<noteq> ?d + of_nat j" for a
  proof -
    have "\<not> unat (a - ?d) < n"
    proof
      assume "unat (a - ?d) < n"
      with that have "a \<noteq> ?d + of_nat (unat (a - ?d))" by blast
      then show False by simp
    qed
    then show ?thesis using n by (simp add: move_out_apply)
  qed
  ultimately show ?thesis using ua by (simp add: wrote_def)
qed

lemma wrote_split:
  assumes "wrote m m1 pt va src a" "wrote m1 m2 pt (va + of_nat a) (\<lambda>i. src (a + i)) b"
    and "\<And>v. xlate m1 pt v = xlate m pt v" "inj_on (\<lambda>j. upa m pt (va + of_nat j)) {..<a + b}"
  shows "wrote m m2 pt va src (a + b)"
proof -
  have up: "upa m1 pt v = upa m pt v" for v using assms(3) by (simp add: upa_def)
  have sh: "va + of_nat a + of_nat j = va + of_nat (a + j)" for j by simp
  have w2: "\<forall>j < b. m2 (upa m pt (va + of_nat (a + j))) = src (a + j)"
    "\<forall>x. (\<forall>j < b. x \<noteq> upa m pt (va + of_nat (a + j))) \<longrightarrow> m2 x = m1 x"
    using assms(2) unfolding wrote_def up sh by simp_all
  have "m2 (upa m pt (va + of_nat j)) = src j" if j: "j < a + b" for j
  proof (cases "j < a")
    case True
    have "upa m pt (va + of_nat j) \<noteq> upa m pt (va + of_nat (a + i))" if "i < b" for i
      using inj_onD[OF assms(4), of j "a + i"] that True by auto
    then have "m2 (upa m pt (va + of_nat j)) = m1 (upa m pt (va + of_nat j))" using w2(2) by blast
    then show ?thesis using assms(1) True by (simp add: wrote_def)
  next
    case False
    then have "m2 (upa m pt (va + of_nat (a + (j - a)))) = src (a + (j - a))"
      using j by (intro w2(1)[rule_format]) simp
    then show ?thesis using False by simp
  qed
  moreover have "m2 x = m x" if x: "\<forall>j < a + b. x \<noteq> upa m pt (va + of_nat j)" for x
  proof -
    have "x \<noteq> upa m pt (va + of_nat (a + j))" if "j < b" for j
      by (rule x[rule_format]) (use that in simp)
    then have "m2 x = m1 x" using w2(2) by blast
    also have "\<dots> = m x" using assms(1) x by (simp add: wrote_def)
    finally show ?thesis .
  qed
  ultimately show ?thesis by (simp add: wrote_def)
qed

lemma uspace_ok_split:
  assumes "uspace_ok m pt ps va (a + b)"
    and "\<And>v. xlate m' pt v = xlate m pt v" "tables m' pt = tables m pt"
  shows "uspace_ok m' pt ps (va + of_nat a) b" "uspace_ok m pt ps va a"
proof -
  have up: "upa m' pt v = upa m pt v" "uwritable m' pt v = uwritable m pt v" for v
    using assms(2) by (simp_all add: upa_def uwritable_def)
  have sh: "va + of_nat a + of_nat j = va + of_nat (a + j)" for j by simp
  have inj: "inj_on (\<lambda>j. upa m pt (va + of_nat j)) {..<a + b}" using assms(1) by (simp add: uspace_ok_def)
  have "inj_on (\<lambda>j. upa m pt (va + of_nat (a + j))) {..<b}"
  proof (rule inj_onI)
    fix i j
    assume "i \<in> {..<b}" "j \<in> {..<b}" "upa m pt (va + of_nat (a + i)) = upa m pt (va + of_nat (a + j))"
    then have "a + i = a + j" by (intro inj_onD[OF inj]) simp_all
    then show "i = j" by simp
  qed
  moreover have "\<forall>j < b. uwritable m pt (va + of_nat (a + j)) \<longrightarrow>
        (\<forall>q \<in> tables m pt \<union> set ps. \<not> in_page (upa m pt (va + of_nat (a + j))) q)"
    using assms(1) unfolding uspace_ok_def by (meson nat_add_left_cancel_less)
  ultimately show "uspace_ok m' pt ps (va + of_nat a) b"
    unfolding uspace_ok_def up sh assms(3) by blast
  show "uspace_ok m pt ps va a"
    using assms(1) by (auto simp: uspace_ok_def intro: inj_on_subset)
qed

lemma copyout_spec:
  assumes "asp s pt ps" "uspace_ok (mem s) pt ps va (unat len)"
  shows "\<exists>r m'. copyout pt va src len s = Ret r (s\<lparr>mem := m'\<rparr>) \<and> (r = 0 \<or> r = -1) \<and>
    (r = 0 \<longleftrightarrow> ucovers (uwritable (mem s) pt) va (unat len)) \<and>
    (r = 0 \<longrightarrow> wrote (mem s) m' pt va src (unat len) \<and> asp (s\<lparr>mem := m'\<rparr>) pt ps \<and>
      (\<forall>v. xlate m' pt v = xlate (mem s) pt v))"
  using assms
proof (induction "unat len" arbitrary: s va src len rule: less_induct)
  case less
  let ?m = "mem s" and ?P = "uwritable (mem s) pt"
  show ?case
  proof (cases "len > 0")
    case False
    then have "len = 0" by (simp add: word_gt_0)
    then show ?thesis
      using less.prems
      by (subst copyout.simps) (auto simp: ucovers_def wrote_def intro!: exI[of _ ?m])
  next
    case True
    define n where "n = chunk va len"
    have n: "0 < unat n" "n \<le> len" using True chunk_positive chunk_le by (simp_all add: n_def)
    have lenn: "unat len = unat n + unat (len - n)" using n(2) by (simp add: unat_sub word_le_nat_alt)
    have first: "ucovers ?P va (unat n) \<longleftrightarrow> ?P va"
      using n(1) chunk_address(3)[of _ va len ?m pt]
      by (auto simp: ucovers_def n_def intro: exI[of _ 0])
    show ?thesis
    proof (cases "?P va")
      case False
      then have "\<not> ucovers ?P va (unat len)" using first ucovers_split lenn by metis
      moreover have "copyout pt va src len s = Ret (-1) s"
        using True False
        by (subst copyout.simps)
           (auto simp: Let_def PGROUNDDOWN_less_MAXVA walk_noalloc uwritable_def xlate_def not_le
              vpath_def split: option.splits)
      ultimately show ?thesis by (intro exI[of _ "-1"] exI[of _ ?m]) simp
    next
      case P: True
      then obtain e where e: "xlate ?m pt va = Some e" "va < MAXVA" "e AND PTE_U \<noteq> 0" "e AND PTE_W \<noteq> 0"
        by (auto simp: uwritable_def split: option.splits)
      then obtain p where p: "tab ?m pt (vpath va) = Some p" "load64 ?m (slot p (PX 0 va)) = e" "e AND PTE_V \<noteq> 0"
        by (auto simp: xlate_def Let_def split: option.splits if_splits)
      have pg: "vpath (PGROUNDDOWN va) = vpath va" by (simp add: vpath_def)
      define m1 where "m1 = move_out ?m (PTE2PA e + (va - PGROUNDDOWN va)) src (unat n)"
      have w1: "wrote ?m m1 pt va src (unat n)"
        using wrote_chunk[OF refl, where m = ?m and pt = pt and va = va and len = len and src = src] e(1) by (simp add: m1_def n_def)
      have u: "uspace_ok ?m pt ps va (unat n)"
        using uspace_ok_split(2)[where m = ?m and m' = ?m] less.prems(2) lenn by simp
      have "\<forall>j < unat n. ?P (va + of_nat j)" using first P by (simp add: ucovers_def)
      note a1 = asp_wrote[OF less.prems(1) w1 u this]
      have u2: "uspace_ok m1 pt ps (va + of_nat (unat n)) (unat (len - n))"
        by (rule uspace_ok_split(1)[where m = ?m and m' = m1, OF _ a1(2,3)]) (use less.prems(2) lenn in simp)
      have step: "copyout pt va src len s =
          copyout pt (PGROUNDDOWN va + pgsz) (\<lambda>i. src (unat n + i)) (len - n) (s\<lparr>mem := m1\<rparr>)"
        using True e p slot_nonzero[OF less.prems(1) _ p(1), of "PX 0 va"]
        by (subst copyout.simps)
           (simp add: Let_def PGROUNDDOWN_less_MAXVA MAXVA_le_PGROUNDDOWN walk_noalloc pg
             n_def[symmetric] m1_def)
      let ?va = "PGROUNDDOWN va + pgsz" and ?s = "s\<lparr>mem := m1\<rparr>" and ?src = "\<lambda>i. src (unat n + i)"
      have nxt: "?va = va + of_nat (unat n) \<or> unat (len - n) = 0"
        using next_chunk[of va len] n(2) by (cases "n = len") (auto simp: n_def)
      have "unat (len - n) < unat len" using lenn n(1) by simp
      moreover have "uspace_ok (mem ?s) pt ps ?va (unat (len - n))"
        using nxt u2 by (auto simp: uspace_ok_def)
      ultimately obtain r m2 where r: "copyout pt ?va ?src (len - n) ?s = Ret r (s\<lparr>mem := m2\<rparr>)"
        "r = 0 \<or> r = -1" "r = 0 \<longleftrightarrow> ucovers (uwritable m1 pt) ?va (unat (len - n))"
        "r = 0 \<longrightarrow> wrote m1 m2 pt ?va ?src (unat (len - n)) \<and> asp (s\<lparr>mem := m2\<rparr>) pt ps \<and>
          (\<forall>v. xlate m2 pt v = xlate m1 pt v)"
        using less.hyps[of "len - n" ?s ?va ?src] a1(1) by auto
      have "uwritable m1 pt = ?P" using a1(2) by (auto simp: uwritable_def)
      then have "r = 0 \<longleftrightarrow> ucovers ?P (va + of_nat (unat n)) (unat (len - n))"
        using r(3) nxt by (auto simp: ucovers_def)
      then have "r = 0 \<longleftrightarrow> ucovers ?P va (unat len)"
        using first P ucovers_split[of ?P va "unat n" "unat (len - n)"] lenn by simp
      moreover have "wrote ?m m2 pt va src (unat len)" if "r = 0"
      proof -
        have "wrote m1 m2 pt (va + of_nat (unat n)) ?src (unat (len - n))"
          using r(4) that nxt by (auto simp: wrote_def)
        from wrote_split[OF w1 this a1(2)] less.prems(2) lenn show ?thesis
          by (simp add: uspace_ok_def)
      qed
      ultimately show ?thesis using step r(1,2,4) a1(2) by auto
    qed
  qed
qed

section \<open>Properties\<close>

text \<open>
  C9: \<open>copyin\<close> never panics and never changes memory. It returns 0 exactly when every
  byte of the user range is mapped readable for the user, and then the kernel buffer holds
  those bytes; otherwise it returns -1. Nothing beyond \<open>len\<close> bytes of the buffer changes.
\<close>

theorem copyin_exact:
  assumes "asp s pt ps"
  shows "\<exists>r d. copyin pt dst va len s = Ret (r, d) s \<and> (r = 0 \<or> r = -1) \<and>
    (r = 0 \<longleftrightarrow> (\<forall>j < unat len. ureadable (mem s) pt (va + of_nat j))) \<and>
    (r = 0 \<longrightarrow> (\<forall>j < unat len. d j = mem s (upa (mem s) pt (va + of_nat j)))) \<and>
    (\<forall>j \<ge> unat len. d j = dst j)"
  using copyin_loop_spec[OF assms, of dst 0 va len]
  by (auto simp: copyin_def ucovers_def copied_in_def)

lemma ex_user:
  assumes "j < 4096"
  shows "xlate (mem ex_mapped) ex_pt (of_nat j) =
      Some (PA2PTE ex_page OR (PTE_R OR PTE_W OR PTE_U) OR PTE_V)"
    "of_nat j < MAXVA" "upa (mem ex_mapped) ex_pt (of_nat j) = ex_page + of_nat j"
    "ureadable (mem ex_mapped) ex_pt (of_nat j)" "uwritable (mem ex_mapped) ex_pt (of_nat j)"
proof -
  have "unat (of_nat j :: addr) = j" using assms by (simp add: unat_of_nat)
  then have pd: "PGROUNDDOWN (of_nat j) = 0"
    using assms by (simp add: word_unat_eq_iff unat_PGROUNDDOWN)
  show x: "xlate (mem ex_mapped) ex_pt (of_nat j) =
      Some (PA2PTE ex_page OR (PTE_R OR PTE_W OR PTE_U) OR PTE_V)"
    using xlate_PGROUNDDOWN[of "mem ex_mapped" ex_pt "of_nat j"] ex_mapped_asp(3) pd by simp
  have pa: "PTE2PA (PA2PTE ex_page OR (PTE_R OR PTE_W OR PTE_U) OR PTE_V) = ex_page"
    by (simp add: PTE2PA_def PA2PTE_def ex_page_def PTE_R_def PTE_W_def PTE_U_def PTE_V_def)
  show m: "of_nat j < MAXVA"
    using assms \<open>unat (of_nat j :: addr) = j\<close> by (simp add: word_less_nat_alt MAXVA_val)
  show "upa (mem ex_mapped) ex_pt (of_nat j) = ex_page + of_nat j"
    using x pa pd by (simp add: upa_def)
  have "(PA2PTE ex_page OR (PTE_R OR PTE_W OR PTE_U) OR PTE_V) AND PTE_U \<noteq> 0"
    "(PA2PTE ex_page OR (PTE_R OR PTE_W OR PTE_U) OR PTE_V) AND PTE_W \<noteq> 0" "ex_page \<noteq> 0"
    by (simp_all add: PA2PTE_def ex_page_def PTE_R_def PTE_W_def PTE_U_def PTE_V_def)
  then show "ureadable (mem ex_mapped) ex_pt (of_nat j)" "uwritable (mem ex_mapped) ex_pt (of_nat j)"
    using x m pa by (simp_all add: ureadable_def uwritable_def)
qed

theorem copyin_exact_witness:
  "\<exists>d. copyin ex_pt (\<lambda>_. 0) 0 5 ex_mapped = Ret (0, d) ex_mapped \<and>
     d 2 = mem ex_mapped (ex_page + 2)"
proof -
  have "\<forall>j < unat (5 :: u64). ureadable (mem ex_mapped) ex_pt (0 + of_nat j)" by (simp add: ex_user(4))
  then show ?thesis
    using copyin_exact[OF ex_mapped_asp(1), of "\<lambda>_. 0" 0 5] ex_user(3)[of 2] by fastforce
qed

lemma ex_uspace: "uspace_ok (mem ex_mapped) ex_pt [] 0 5"
proof -
  have "\<not> in_page (ex_page + of_nat j) q" if j: "j < 5" and q: "q \<in> tables (mem ex_mapped) ex_pt" for j q
  proof
    assume "in_page (ex_page + of_nat j) q"
    moreover have "in_page (ex_page + of_nat j) ex_page" by (rule in_page_offset) (use j in simp)
    moreover have q': "q \<in> {0x80001000, 0x80002000, 0x80003000}"
      using q tables_ex ex_mapped_asp(2) by metis
    moreover have "aligned q" "aligned ex_page" using q' by (auto simp: ex_page_def)
    ultimately have "q = ex_page" using pages_disjoint by metis
    then show False using q' by (auto simp: ex_page_def)
  qed
  moreover have "inj_on (\<lambda>j. ex_page + of_nat j :: addr) {..<5}"
  proof (rule inj_onI)
    fix x y :: nat
    assume "x \<in> {..<5}" "y \<in> {..<5}" "ex_page + of_nat x = ex_page + of_nat y"
    then have "unat (of_nat x :: addr) = unat (of_nat y :: addr)" "x < 5" "y < 5" by auto
    then show "x = y" by (simp add: unat_of_nat)
  qed
  ultimately show ?thesis
    unfolding uspace_ok_def by (auto simp: ex_user(3) inj_on_def)
qed

text \<open>
  C10: what \<open>copyout\<close> writes to user memory, \<open>copyin\<close> reads back, over any number of
  pages. The hypotheses say that the range is mapped readable and writable for the user
  and that its physical bytes are distinct and belong to no page table or free page.
\<close>

theorem copyout_copyin_roundtrip:
  assumes "asp s pt ps" "uspace_ok (mem s) pt ps va (unat len)"
    and "\<forall>j < unat len. ureadable (mem s) pt (va + of_nat j) \<and> uwritable (mem s) pt (va + of_nat j)"
  shows "\<exists>t d. copyout pt va src len s = Ret 0 t \<and> copyin pt dst va len t = Ret (0, d) t \<and>
    (\<forall>j < unat len. d j = src j)"
proof -
  from copyout_spec[OF assms(1,2), of src] assms(3) obtain m' where
    o: "copyout pt va src len s = Ret 0 (s\<lparr>mem := m'\<rparr>)" "wrote (mem s) m' pt va src (unat len)"
      "asp (s\<lparr>mem := m'\<rparr>) pt ps" "\<forall>v. xlate m' pt v = xlate (mem s) pt v"
    by (auto simp: ucovers_def)
  have same: "ureadable m' pt v = ureadable (mem s) pt v" "upa m' pt v = upa (mem s) pt v" for v
    using o(4) by (simp_all add: ureadable_def upa_def)
  from copyin_loop_spec[OF o(3), of dst 0 va len] assms(3) obtain d where
    "copyin_loop pt dst 0 va len (s\<lparr>mem := m'\<rparr>) = Ret (0, d) (s\<lparr>mem := m'\<rparr>)"
    "d = copied_in m' pt dst 0 va (unat len)"
    by (auto simp: ucovers_def same)
  moreover from this(2) have "\<forall>j < unat len. d j = src j"
    using o(2) by (simp add: copied_in_def wrote_def same)
  ultimately show ?thesis using o(1) by (auto simp: copyin_def)
qed

theorem copyout_copyin_roundtrip_witness:
  "\<exists>t d. copyout ex_pt 0 (\<lambda>i. of_nat i + 65) 5 ex_mapped = Ret 0 t \<and>
     copyin ex_pt (\<lambda>_. 0) 0 5 t = Ret (0, d) t \<and> d 4 = 69"
proof -
  have "uspace_ok (mem ex_mapped) ex_pt [] 0 (unat (5 :: u64))" using ex_uspace by simp
  moreover have "\<forall>j < unat (5 :: u64). ureadable (mem ex_mapped) ex_pt (0 + of_nat j) \<and>
      uwritable (mem ex_mapped) ex_pt (0 + of_nat j)"
    by (simp add: ex_user(4,5))
  ultimately show ?thesis
    using copyout_copyin_roundtrip[OF ex_mapped_asp(1), of 0 5 "\<lambda>i. of_nat i + 65" "\<lambda>_. 0"] by fastforce
qed

end
