(* ===== verification/Example.thy ===== *)
theory Example
  imports File Vmcopy Bcache
begin

text \<open>
  A concrete machine state on which the properties of the upper layers are exercised: process 0
  runs with one user page mapped, the buffer cache is empty, the disk holds block number \<open>n\<close> in
  every byte of block \<open>n\<close>, the log is empty, no inode or file is in use and every pipe is open
  and empty.
\<close>

definition ex_klog :: klog where
  "ex_klog = kbuf.extend ex_kbuf
     \<lparr>log_start = 2, log_size = 31, outstanding = 0, committing = 0, log_dev = 1, lh_n = 0, lh_block = (\<lambda>_. 0)\<rparr>"

definition ex_kfs :: kfs where
  "ex_kfs = klog.extend ex_klog
     \<lparr>fs_sb = \<lparr>sb_magic = 0x10203040, sb_size = 2000, sb_nblocks = 1953, sb_ninodes = 200, sb_nlog = 31,
        sb_logstart = 2, sb_inodestart = 33, sb_bmapstart = 46\<rparr>,
      inodes = (\<lambda>_. \<lparr>idev = 0, inum = 0, iref = 0, ivalid = 0, itype = 0, imajor = 0, iminor = 0, inlink = 0,
        isize = 0, iaddrs = (\<lambda>_. 0)\<rparr>)\<rparr>"

definition ex_kcons :: kcons where
  "ex_kcons = kfs.extend ex_kfs
     \<lparr>uart_tx_buf = (\<lambda>_. 0), uart_tx_w = 0, uart_tx_r = 0, cons_buf = (\<lambda>_. 0), cons_r = 0, cons_w = 0, cons_e = 0,
      keyboard_int_cnt = 0, devsw_read = (\<lambda>_. None), devsw_write = (\<lambda>_. None)\<rparr>"

definition ex_kfile :: kfile where
  "ex_kfile = kcons.extend (ex_kcons\<lparr>mem := mem ex_mapped, freelist := freelist ex_mapped, kend := kend ex_mapped,
       procs := (procs ex_kcons)(0 := (procs ex_kcons 0)\<lparr>ppagetable := ex_pt\<rparr>)\<rparr>)
     \<lparr>files = (\<lambda>_. \<lparr>fkind = FD_NONE, fref = 0, freadable = 0, fwritable = 0, fpipe = 0, fip = None, foff = 0, fmajor = 0\<rparr>),
      pipes = (\<lambda>_. \<lparr>pdata = (\<lambda>i. of_nat i), pnread = 0, pnwrite = 0, preadopen = 1, pwriteopen = 1\<rparr>),
      stack_junk = (\<lambda>_. 0)\<rparr>"

lemmas ex_state_defs = ex_klog_def ex_kfs_def ex_kcons_def ex_kfile_def kbuf.defs klog.defs kfs.defs kcons.defs
  ex_kbuf_def kslp.defs ex_kslp_def kproc.defs ex_kproc_def kio.defs ex_proc_def

lemma ex_klog_opened: "opened ex_klog 0 {}"
  using ex_kbuf_opened
  by (simp add: ex_klog_def kbuf.defs opened_def calm_def cur_def bcache_ok_def uniq_def has_def lru_def clip_def)

lemma ex_kfile_calm: "calm ex_kfile 0" "noff (mycpu_of (mc ex_kfile)) = 0"
  by (simp_all add: ex_state_defs calm_def cur_def mycpu_of_def me_def cpu_ok_def lkfree_def quiet_def)

lemma ex_kfile_user: "asp ex_kfile (ppagetable (procs ex_kfile 0)) []" "mem ex_kfile = mem ex_mapped"
  "ppagetable (procs ex_kfile 0) = ex_pt" "pkilled (procs ex_kfile 0) = 0"
proof -
  show m: "mem ex_kfile = mem ex_mapped" and p: "ppagetable (procs ex_kfile 0) = ex_pt" and "pkilled (procs ex_kfile 0) = 0"
    by (simp_all add: ex_state_defs)
  have fk: "freelist ex_kfile = freelist ex_mapped" "kend ex_kfile = kend ex_mapped"
    by (simp_all add: ex_kfile_def kcons.defs)
  have "alloc_ready ex_kfile"
    using ex_mapped_asp(1)
    by (simp add: asp_def alloc_ready_def ex_state_defs cpu_ok_def lkfree_def quiet_def mycpu_of_def me_def)
  with ex_mapped_asp(1) show "asp ex_kfile (ppagetable (procs ex_kfile 0)) []"
    by (simp add: asp_def pool_def m p fk)
qed

end
