(* ===== verification/Ring.thy ===== *)
theory Ring
  imports Prelude
begin

text \<open>
  Ring buffers with free-running indices. The kernel has three of them: pipes (512 bytes,
  32-bit indices), the console's input line (128, 32-bit) and the UART's output (32, 64-bit).
  The locale states what they share: a slot is the index modulo a size that divides the range
  of the index, so that the ring survives the wrap-around of its indices. Its lemmas refine
  the two stores of the code to appending to and taking from a queue.
\<close>

lemma unat_Suc_word:
  fixes x :: "'w::len word"
  assumes "Suc (unat x) < 2 ^ LENGTH('w)"
  shows "unat (x + 1) = Suc (unat x)"
proof -
  have "unat (of_nat (Suc (unat x)) :: 'w word) = Suc (unat x)"
    using assms by (simp only: unat_of_nat mod_less)
  then show ?thesis by (simp add: add.commute)
qed

lemma unat_less_Suc_word:
  fixes x :: "'w::len word"
  assumes "x \<noteq> 0"
  shows "unat (x - 1) = unat x - 1"
proof -
  have "unat x \<noteq> 0" using assms by (simp add: unat_eq_0)
  then have u: "Suc (unat x - 1) = unat x" by simp
  have "(of_nat (Suc (unat x - 1)) :: 'w word) = x" unfolding u by simp
  then have "x - 1 = of_nat (unat x - 1)" by (metis add_diff_cancel_left' of_nat_Suc)
  moreover have "unat x - 1 < 2 ^ LENGTH('w)" using unsigned_less[of x] by (rule less_imp_diff_less)
  ultimately show ?thesis by (simp only: unat_of_nat mod_less)
qed

locale ring =
  fixes slot :: "'w::len word \<Rightarrow> nat" and cap :: nat
  assumes slot_mod: "slot i = unat i mod cap"
    and cap_pos: "0 < cap"
    and cap_less: "cap < 2 ^ LENGTH('w)"
    and cap_dvd: "cap dvd 2 ^ LENGTH('w)"
begin

definition queue :: "(nat \<Rightarrow> 'a) \<Rightarrow> 'w word \<Rightarrow> 'w word \<Rightarrow> 'a list" where
  "queue buf r w = map (\<lambda>k. buf (slot (r + of_nat k))) [0..<unat (w - r)]"

lemma length_queue [simp]: "length (queue buf r w) = unat (w - r)"
  by (simp add: queue_def)

lemma slot_add: "slot (r + of_nat k) = (unat r + k) mod cap"
proof -
  have "unat (r + of_nat k) = (unat r + k) mod 2 ^ LENGTH('w)"
    by (simp add: unat_word_ariths unat_of_nat mod_add_right_eq take_bit_nat_def)
  then show ?thesis using cap_dvd by (simp add: slot_mod mod_mod_cancel)
qed

lemma cell_inj:
  assumes "slot (r + of_nat i) = slot (r + of_nat j)" "i < cap" "j < cap"
  shows "i = j"
proof -
  have "int ((unat r + i) mod cap) = int ((unat r + j) mod cap)" using assms(1) by (simp add: slot_add)
  then have "(int (unat r) + int i) mod int cap = (int (unat r) + int j) mod int cap"
    by (simp only: of_nat_mod of_nat_add)
  then have "int cap dvd (int (unat r) + int i) - (int (unat r) + int j)"
    by (simp only: mod_eq_dvd_iff)
  then have "int cap dvd int i - int j" by simp
  moreover have "\<bar>int i - int j\<bar> < int cap" using assms(2,3) by linarith
  ultimately have "int i - int j = 0" using dvd_imp_le_int[of "int i - int j" "int cap"] by linarith
  then show ?thesis by simp
qed

lemma queue_nil [simp]: "queue buf r r = []"
  by (simp add: queue_def)

lemma queue_put:
  assumes "unat (w - r) < cap"
  shows "queue (buf(slot w := c)) r (w + 1) = queue buf r w @ [c]" "unat (w + 1 - r) = Suc (unat (w - r))"
proof -
  have "unat (w - r + 1) = Suc (unat (w - r))"
    using le_less_trans[OF Suc_leI[OF assms] cap_less] by (rule unat_Suc_word)
  moreover have "w + 1 - r = w - r + 1" by simp
  ultimately show u: "unat (w + 1 - r) = Suc (unat (w - r))" by (simp only:)
  define n where "n = unat (w - r)"
  have w: "r + of_nat n = w" by (simp add: n_def)
  have "slot (r + of_nat k) \<noteq> slot w" if "k < n" for k
  proof
    assume "slot (r + of_nat k) = slot w"
    then have s: "slot (r + of_nat k) = slot (r + of_nat n)" by (simp only: w)
    have n: "n < cap" using assms by (simp only: n_def)
    have "k = n" by (rule cell_inj[OF s less_trans[OF that n] n])
    with that show False by simp
  qed
  then have "map (\<lambda>k. (buf(slot w := c)) (slot (r + of_nat k))) [0..<n] = map (\<lambda>k. buf (slot (r + of_nat k))) [0..<n]"
    by (intro map_cong refl) simp
  moreover have "(buf(slot w := c)) (slot (r + of_nat n)) = c" by (simp only: w fun_upd_same)
  ultimately show "queue (buf(slot w := c)) r (w + 1) = queue buf r w @ [c]"
    unfolding queue_def u n_def[symmetric] by (simp only: upt_Suc if_True le0 map_append list.map)
qed

lemma queue_get:
  assumes "r \<noteq> w"
  shows "queue buf r w = buf (slot r) # queue buf (r + 1) w"
proof -
  have "unat (w - r - 1) = unat (w - r) - 1" using assms by (intro unat_less_Suc_word) simp
  then have u: "unat (w - (r + 1)) = unat (w - r) - 1" by (simp add: diff_diff_eq)
  have "unat (w - r) \<noteq> 0" using assms by (simp add: unat_eq_0)
  then have "[0..<unat (w - r)] = 0 # map Suc [0..<unat (w - (r + 1))]"
    by (simp add: u map_Suc_upt upt_conv_Cons)
  then show ?thesis by (simp add: queue_def add.assoc)
qed

lemma queue_full:
  "w \<noteq> r + of_nat cap \<Longrightarrow> unat (w - r) \<le> cap \<Longrightarrow> unat (w - r) < cap"
proof -
  assume a: "w \<noteq> r + of_nat cap" "unat (w - r) \<le> cap"
  have "unat (w - r) \<noteq> cap"
  proof
    assume "unat (w - r) = cap"
    moreover have "of_nat (unat (w - r)) = w - r" by simp
    ultimately have "of_nat cap = w - r" by (simp only:)
    with a(1) show False by simp
  qed
  with a(2) show ?thesis by simp
qed

end

end
