(* ===== verification/Pipe.thy ===== *)
theory Pipe
  imports Example Ring
begin

text \<open>
  What pipes promise (\<open>kernel/pipe.c\<close>): a pipe is a bounded queue of bytes. The ring locale is
  interpreted for the three rings of the kernel; for pipes, \<open>pipewrite\<close> appends the
  writer's bytes in order and \<open>piperead\<close> takes them from the front, both from any state in
  which no spin lock is held, with every outcome accounted for: no call panics or spins.
\<close>

section \<open>The rings of the kernel\<close>

interpretation pring: ring "\<lambda>i :: u32. unat i mod PIPESIZE" PIPESIZE
  by unfold_locales (simp_all add: PIPESIZE_def)

interpretation cring: ring cons_slot INPUT_BUF_SIZE
  by unfold_locales (simp_all add: INPUT_BUF_SIZE_def cons_slot_def)

interpretation txring: ring tx_slot UART_TX_BUF_SIZE
  by unfold_locales (simp_all add: UART_TX_BUF_SIZE_def tx_slot_def)

definition pipe_bytes :: "pipe \<Rightarrow> u8 list" where
  "pipe_bytes k = pring.queue (pdata k) (pnread k) (pnwrite k)"

definition pipe_ok :: "pipe \<Rightarrow> bool" where
  "pipe_ok k \<longleftrightarrow> unat (pnwrite k - pnread k) \<le> PIPESIZE"

lemma length_pipe_bytes: "length (pipe_bytes k) = unat (pnwrite k - pnread k)"
  by (simp add: pipe_bytes_def)

lemma pipe_put_fields [simp]:
  "preadopen (pipe_put c k) = preadopen k" "pwriteopen (pipe_put c k) = pwriteopen k"
  "pnread (pipe_put c k) = pnread k"
  by (simp_all add: pipe_put_def)

lemma pipe_room: "pipe_ok k \<Longrightarrow> pnwrite k \<noteq> pnread k + of_nat PIPESIZE \<Longrightarrow> unat (pnwrite k - pnread k) < PIPESIZE"
  by (rule pring.queue_full) (simp_all add: pipe_ok_def)

lemma pipe_put_bytes:
  assumes "unat (pnwrite k - pnread k) < PIPESIZE"
  shows "pipe_bytes (pipe_put c k) = pipe_bytes k @ [c]" "pipe_ok (pipe_put c k)"
  using pring.queue_put(1)[OF assms, where buf = "pdata k" and c = c] pring.queue_put(2)[OF assms] assms
  by (simp_all add: pipe_bytes_def pipe_ok_def pipe_put_def)

lemma pipe_get_bytes:
  assumes "pnread k \<noteq> pnwrite k" "pipe_get k = (c, k')"
  shows "pipe_bytes k = c # pipe_bytes k'" "pipe_ok k \<Longrightarrow> pipe_ok k'" "pwriteopen k' = pwriteopen k"
    "preadopen k' = preadopen k"
proof -
  have k': "k' = k\<lparr>pnread := pnread k + 1\<rparr>" "c = pdata k (unat (pnread k) mod PIPESIZE)"
    using assms(2) by (simp_all add: pipe_get_def)
  show b: "pipe_bytes k = c # pipe_bytes k'"
    using pring.queue_get[OF assms(1), where buf = "pdata k"] by (simp add: pipe_bytes_def k')
  have "unat (pnwrite k - pnread k) = Suc (unat (pnwrite k' - pnread k'))"
    using arg_cong[OF b, of length] by (simp add: pipe_bytes_def)
  then show "pipe_ok k \<Longrightarrow> pipe_ok k'" by (simp add: pipe_ok_def)
qed (use assms(2) in \<open>auto simp: pipe_get_def\<close>)

section \<open>Inside the critical section\<close>

text \<open>\<open>in_pipe s p pi m\<close>: process \<open>p\<close> runs and holds the lock of the pipe, and nothing else is held.\<close>

definition in_pipe :: "'z kproc_scheme \<Rightarrow> nat \<Rightarrow> addr \<Rightarrow> mach \<Rightarrow> bool" where
  "in_pipe s p pi m \<longleftrightarrow> mc s = acq (PipeLock pi) m \<and> cpu_ok m \<and> (\<forall>lk. lkfree lk m) \<and>
     cproc (mycpu_of m) = Some p \<and> noff (mycpu_of m) = 0"

lemma in_pipe_fields [simp]:
  "in_pipe (s\<lparr>procs := ps\<rparr>) p pi m = in_pipe s p pi m" "in_pipe (t\<lparr>pipes := q\<rparr>) p pi m = in_pipe t p pi m"
  "in_pipe (u\<lparr>mem := mm\<rparr>) p pi m = in_pipe u p pi m"
  by (simp_all add: in_pipe_def)

lemma killed_in_pipe: "in_pipe s p pi m \<Longrightarrow> killed p s = Ret (pkilled (procs s p)) s"
proof -
  assume a: "in_pipe s p pi m"
  then have f: "lkfree (ProcLock p) (mc s)" "cpu_ok (mc s)" and st: "settled (mc s) = mc s"
    by (auto simp: in_pipe_def)
  have "release (ProcLock p) (s\<lparr>mc := acq (ProcLock p) (mc s)\<rparr>) = Ret () s"
    using release_section[OF f(2,1), of "s\<lparr>mc := acq (ProcLock p) (mc s)\<rparr>"] st by simp
  then show ?thesis
    using f by (simp add: killed_def acquire_free getp_run run_simps)
qed

text \<open>The state in which \<open>p\<close> sleeps on a channel of the pipe.\<close>

definition asleep :: "nat \<Rightarrow> addr \<Rightarrow> chan \<Rightarrow> 'z kproc_scheme \<Rightarrow> 'z kproc_scheme" where
  "asleep p pi ch s = s\<lparr>mc := rel (PipeLock pi) (acq (ProcLock p) (mc s)),
     procs := (procs s)(p := (procs s p)\<lparr>pchan := Some ch, pstate := SLEEPING\<rparr>)\<rparr>"

definition notify :: "chan \<Rightarrow> nat \<Rightarrow> 'z kproc_scheme \<Rightarrow> 'z kproc_scheme" where
  "notify ch p s = s\<lparr>procs := awakened_all ch (Some p) (procs s)\<rparr>"

lemma notify_fields [simp]:
  "pipes (notify ch p u) = pipes u" "mem (notify ch' p' s) = mem s" "mc (notify ch'' p'' t) = mc t"
  by (simp_all add: notify_def)

lemma asleep_fields [simp]:
  "pipes (asleep p pi ch u) = pipes u" "pstate (procs (asleep p pi ch s) p) = SLEEPING"
  "pchan (procs (asleep p pi ch s') p) = Some ch"
  by (simp_all add: asleep_def)

lemma in_pipe_notify [simp]: "in_pipe (notify ch q s) p pi m = in_pipe s p pi m"
  by (simp add: notify_def)

lemma wakeup_in_pipe:
  "in_pipe s p pi m \<Longrightarrow> wakeup ch s = Ret () (notify ch p s)"
proof -
  assume a: "in_pipe s p pi m"
  then have "procs_free s" "cur s = Some p" "settled (mc s) = mc s"
    by (auto simp: in_pipe_def procs_free_def cur_def)
  then show ?thesis using wakeup_all[of s ch] by (simp add: notify_def)
qed

lemma sleep_in_pipe: "in_pipe s p pi m \<Longrightarrow> sleep ch (PipeLock pi) s = Switch (asleep p pi ch s)"
  unfolding asleep_def by (rule sleep_run) (auto simp: in_pipe_def cur_def)

lemma release_pipe: "in_pipe s p pi m \<Longrightarrow> release (PipeLock pi) s = Ret () (s\<lparr>mc := settled m\<rparr>)"
  by (auto simp: in_pipe_def intro: release_section)

lemma asp_fields [simp]:
  "asp (s\<lparr>procs := ps\<rparr>) pt fs = asp s pt fs" "asp (t\<lparr>pipes := q\<rparr>) pt' fs' = asp t pt' fs'"
  by (simp_all add: asp_def alloc_ready_def pool_def)

lemma asp_acq:
  assumes "asp s pt fs" "mc t = acq (PipeLock pi) (mc s)" "mem t = mem s" "freelist t = freelist s" "kend t = kend s"
  shows "asp t pt fs"
  using assms by (simp add: asp_def alloc_ready_def pool_def)

section \<open>Writing\<close>

text \<open>The bytes at user address \<open>a\<close>.\<close>

definition ubytes :: "memory \<Rightarrow> addr \<Rightarrow> u64 \<Rightarrow> nat \<Rightarrow> u8 list" where
  "ubytes m pt a n = map (\<lambda>j. m (upa m pt (a + of_nat j))) [0..<n]"

lemma ubytes_Suc: "ubytes m pt a (Suc n) = m (upa m pt a) # ubytes m pt (a + 1) n"
  by (simp add: ubytes_def upt_conv_Cons map_Suc_upt[symmetric] add.assoc del: upt_Suc)

lemma length_ubytes [simp]: "length (ubytes m pt a n) = n"
  by (simp add: ubytes_def)

lemma copyin_byte:
  assumes "asp s pt fs"
  shows "\<exists>d. copyin pt (\<lambda>_. 0) a 1 s = Ret (if ureadable (mem s) pt a then 0 else -1, d) s \<and>
    (ureadable (mem s) pt a \<longrightarrow> d 0 = mem s (upa (mem s) pt a))"
  using copyin_loop_spec[OF assms, of "\<lambda>_. 0" 0 a 1] by (auto simp: copyin_def ucovers_def copied_in_def)

text \<open>The state after the bytes \<open>xs\<close> went into the pipe.\<close>

definition pipe_after :: "'z kfile_scheme \<Rightarrow> addr \<Rightarrow> u8 list \<Rightarrow> 'z kfile_scheme" where
  "pipe_after s pi xs = s\<lparr>pipes := (pipes s)(pi := fold pipe_put xs (pipes s pi))\<rparr>"

lemma pipe_after_Nil [simp]: "pipe_after s pi [] = s"
  by (simp add: pipe_after_def)

lemma pipe_after_Cons:
  "pipe_after (s\<lparr>pipes := (pipes s)(pi := pipe_put c (pipes s pi))\<rparr>) pi xs = pipe_after s pi (c # xs)"
  by (simp add: pipe_after_def)

lemma ubytes_0 [simp]: "ubytes m pt a 0 = []"
  by (simp add: ubytes_def)

lemma pipewrite_loop_run:
  assumes "in_pipe s p pi m" "asp s (ppagetable (procs s p)) fs" "pipe_ok (pipes s pi)"
    and "preadopen (pipes s pi) \<noteq> 0" "pkilled (procs s p) = 0"
  shows "\<exists>k \<le> n. let xs = ubytes (mem s) (ppagetable (procs s p)) (a + of_int i) k; t = pipe_after s pi xs in
    pipe_bytes (pipes t pi) = pipe_bytes (pipes s pi) @ xs \<and> pipe_ok (pipes t pi) \<and>
    (pipewrite_loop n pi p a i s = Ret (Some (i + int k)) t \<and>
       (k = n \<or> \<not> ureadable (mem s) (ppagetable (procs s p)) (a + of_int i + of_nat k)) \<or>
     pipewrite_loop n pi p a i s = Switch (asleep p pi (ChPipeWrite pi) (notify (ChPipeRead pi) p t)) \<and>
       k < n \<and> length (pipe_bytes (pipes t pi)) = PIPESIZE)"
  using assms
proof (induction n arbitrary: s i)
  case 0
  then show ?case by (simp add: run_simps)
next
  case (Suc n)
  let ?pt = "ppagetable (procs s p)" and ?b = "a + of_int i"
  note go = killed_in_pipe[OF Suc.prems(1)] Suc.prems(4,5)
  show ?case
  proof (cases "pnwrite (pipes s pi) = pnread (pipes s pi) + of_nat PIPESIZE")
    case True
    have "in_pipe (notify (ChPipeRead pi) p s) p pi m" using Suc.prems(1) by simp
    note sl = sleep_in_pipe[OF this, of "ChPipeWrite pi"]
    have "pipewrite_loop (Suc n) pi p a i s = Switch (asleep p pi (ChPipeWrite pi) (notify (ChPipeRead pi) p s))"
      using go True wakeup_in_pipe[OF Suc.prems(1), of "ChPipeRead pi"] sl
      by (simp add: getpi_def run_simps)
    moreover have "length (pipe_bytes (pipes s pi)) = PIPESIZE"
      using True by (simp add: length_pipe_bytes PIPESIZE_def)
    ultimately show ?thesis using Suc.prems(3)
      by (intro exI[of _ 0]) simp
  next
    case False
    note room = pipe_room[OF Suc.prems(3) False]
    from copyin_byte[OF Suc.prems(2), of ?b] obtain d where
      d: "copyin ?pt (\<lambda>_. 0) ?b 1 s = Ret (if ureadable (mem s) ?pt ?b then 0 else -1, d) s"
        "ureadable (mem s) ?pt ?b \<longrightarrow> d 0 = mem s (upa (mem s) ?pt ?b)" by blast
    show ?thesis
    proof (cases "ureadable (mem s) ?pt ?b")
      case no: False
      then have "pipewrite_loop (Suc n) pi p a i s = Ret (Some i) s"
        using go False d(1) by (simp add: getpi_def run_simps getp_run)
      with no Suc.prems(3) show ?thesis by (intro exI[of _ 0]) simp
    next
      case True
      let ?c = "mem s (upa (mem s) ?pt ?b)"
      define t where "t = s\<lparr>pipes := (pipes s)(pi := pipe_put ?c (pipes s pi))\<rparr>"
      have step: "pipewrite_loop (Suc n) pi p a i s = pipewrite_loop n pi p a (i + 1) t"
        using go False d True by (simp add: getpi_def updpi_def run_simps getp_run t_def)
      have t: "in_pipe t p pi m" "asp t (ppagetable (procs t p)) fs" "pipe_ok (pipes t pi)"
        "preadopen (pipes t pi) \<noteq> 0" "pkilled (procs t p) = 0"
        using Suc.prems pipe_put_bytes[OF room] by (simp_all add: t_def)
      have f: "mem t = mem s" "procs t = procs s" "mc t = mc s" "pipes t = (pipes s)(pi := pipe_put ?c (pipes s pi))"
        by (simp_all add: t_def)
      have pb: "pipe_bytes (pipes t pi) = pipe_bytes (pipes s pi) @ [?c]"
        using pipe_put_bytes[OF room] by (simp add: t_def)
      have after: "pipe_after t pi xs = pipe_after s pi (?c # xs)" for xs unfolding t_def by (rule pipe_after_Cons)
      have b1: "a + of_int (i + 1) = ?b + 1" by simp
      from Suc.IH[OF t, of "i + 1"] obtain k where k: "k \<le> n"
        and "let xs = ubytes (mem t) (ppagetable (procs t p)) (a + of_int (i + 1)) k; u = pipe_after t pi xs in
          pipe_bytes (pipes u pi) = pipe_bytes (pipes t pi) @ xs \<and> pipe_ok (pipes u pi) \<and>
          (pipewrite_loop n pi p a (i + 1) t = Ret (Some (i + 1 + int k)) u \<and>
             (k = n \<or> \<not> ureadable (mem t) (ppagetable (procs t p)) (a + of_int (i + 1) + of_nat k)) \<or>
           pipewrite_loop n pi p a (i + 1) t = Switch (asleep p pi (ChPipeWrite pi) (notify (ChPipeRead pi) p u)) \<and>
             k < n \<and> length (pipe_bytes (pipes u pi)) = PIPESIZE)"
        by blast
      note IH = this(2)
      have u: "?c # ubytes (mem s) ?pt (?b + 1) k = ubytes (mem s) ?pt ?b (Suc k)" by (rule ubytes_Suc[symmetric])
      have e: "i + 1 + int k = i + int (Suc k)" "?b + 1 + of_nat k = ?b + of_nat (Suc k)" by simp_all
      have n: "k = n \<longleftrightarrow> Suc k = Suc n" "k < n \<longleftrightarrow> Suc k < Suc n" by simp_all
      from IH[unfolded after f(1,2) pb b1 Let_def append_assoc append_Cons append_Nil u e n] k show ?thesis
        unfolding step Let_def by (intro exI[of _ "Suc k"] conjI) (simp only: Suc_le_mono, blast+)
    qed
  qed
qed

section \<open>Reading\<close>

lemma copyout_byte:
  assumes "asp s pt fs" "uspace_ok (mem s) pt fs a 1" "uwritable (mem s) pt a"
  shows "\<exists>m'. copyout pt a (\<lambda>_. c) 1 s = Ret 0 (s\<lparr>mem := m'\<rparr>) \<and> wrote (mem s) m' pt a (\<lambda>_. c) 1 \<and>
    asp (s\<lparr>mem := m'\<rparr>) pt fs \<and> (\<forall>v. xlate m' pt v = xlate (mem s) pt v) \<and> tables m' pt = tables (mem s) pt"
proof -
  have "uspace_ok (mem s) pt fs a (unat (1 :: u64))" using assms(2) by simp
  from copyout_spec[OF assms(1) this, of "\<lambda>_. c"] assms(3) obtain m' where
    o: "copyout pt a (\<lambda>_. c) 1 s = Ret 0 (s\<lparr>mem := m'\<rparr>)" "wrote (mem s) m' pt a (\<lambda>_. c) 1"
      "asp (s\<lparr>mem := m'\<rparr>) pt fs" "\<forall>v. xlate m' pt v = xlate (mem s) pt v"
    by (auto simp: ucovers_def)
  have "tables m' pt = tables (mem s) pt"
    by (rule asp_wrote(3)[OF assms(1) o(2) assms(2)]) (use assms(3) in simp)
  with o show ?thesis by blast
qed

lemma piperead_loop_run:
  assumes "in_pipe s p pi m" "asp s (ppagetable (procs s p)) fs"
    and "\<forall>j < n. uwritable (mem s) (ppagetable (procs s p)) (b + of_nat j)"
    and "uspace_ok (mem s) (ppagetable (procs s p)) fs b n" "b = a + of_int i"
  shows "\<exists>bs k' m'. piperead_loop n pi p a i s =
      Ret (i + int (length bs)) (s\<lparr>mem := m', pipes := (pipes s)(pi := k')\<rparr>) \<and>
    pipe_bytes (pipes s pi) = bs @ pipe_bytes k' \<and> length bs = min n (length (pipe_bytes (pipes s pi))) \<and>
    wrote (mem s) m' (ppagetable (procs s p)) b (nth bs) (length bs) \<and> (pipe_ok (pipes s pi) \<longrightarrow> pipe_ok k')"
  using assms
proof (induction n arbitrary: s i b)
  case 0
  show ?case by (rule exI[of _ "[]"], rule exI[of _ "pipes s pi"], rule exI[of _ "mem s"]) (simp add: run_simps wrote_def)
next
  case (Suc n)
  let ?pt = "ppagetable (procs s p)" and ?k = "pipes s pi"
  show ?case
  proof (cases "pnread ?k = pnwrite ?k")
    case True
    then have "length (pipe_bytes ?k) = 0" by (simp add: length_pipe_bytes)
    with True show ?thesis
      by (intro exI[of _ "[]"] exI[of _ ?k] exI[of _ "mem s"]) (simp add: run_simps wrote_def getpi_def)
  next
    case False
    obtain c k1 where g: "pipe_get ?k = (c, k1)" by force
    note gb = pipe_get_bytes[OF False g]
    define s1 where "s1 = s\<lparr>pipes := (pipes s)(pi := k1)\<rparr>"
    have u: "uspace_ok (mem s) ?pt fs b (1 + n)" using Suc.prems(4) by simp
    have u1: "uspace_ok (mem s1) ?pt fs b 1"
      using uspace_ok_split(2)[where m = "mem s" and m' = "mem s", OF u] by (simp add: s1_def)
    have w1: "uwritable (mem s1) ?pt b" using Suc.prems(3)[rule_format, of 0] by (simp add: s1_def)
    have a1: "asp s1 ?pt fs" using Suc.prems(2) by (simp add: s1_def)
    from copyout_byte[OF a1 u1 w1, of c] obtain m1 where o:
      "copyout ?pt b (\<lambda>_. c) 1 s1 = Ret 0 (s1\<lparr>mem := m1\<rparr>)" "wrote (mem s) m1 ?pt b (\<lambda>_. c) 1"
      "asp (s1\<lparr>mem := m1\<rparr>) ?pt fs" "\<And>v. xlate m1 ?pt v = xlate (mem s) ?pt v" "tables m1 ?pt = tables (mem s) ?pt"
      by (auto simp: s1_def)
    define t where "t = s\<lparr>mem := m1, pipes := (pipes s)(pi := k1)\<rparr>"
    have s1t: "s1\<lparr>mem := m1\<rparr> = t" and ps1: "procs s1 = procs s" by (simp_all add: s1_def t_def)
    have step: "piperead_loop (Suc n) pi p a i s = piperead_loop n pi p a (i + 1) t"
      using False g o(1) Suc.prems(5) ps1 unfolding s1t
      by (simp add: run_simps getpi_def updpi_def getp_run s1_def[symmetric])
    have f: "mem t = m1" "procs t = procs s" "pipes t pi = k1" by (simp_all add: t_def)
    have uw: "uwritable m1 ?pt v = uwritable (mem s) ?pt v" for v using o(4) by (simp add: uwritable_def)
    have b1: "b + 1 + of_nat j = b + of_nat (Suc j)" for j by (simp add: add.assoc)
    have t: "in_pipe t p pi m" "asp t (ppagetable (procs t p)) fs" "b + 1 = a + of_int (i + 1)"
      using Suc.prems(1,2,5) o(3) unfolding s1t f by (simp_all add: t_def)
    have tw: "\<forall>j < n. uwritable (mem t) (ppagetable (procs t p)) (b + 1 + of_nat j)"
      unfolding f uw b1 using Suc.prems(3) by blast
    have t2: "uspace_ok (mem t) (ppagetable (procs t p)) fs (b + 1) n"
      using uspace_ok_split(1)[where m = "mem s" and m' = m1, OF u o(4,5)] by (simp add: f)
    from Suc.IH[OF t(1,2) tw t2 t(3)] obtain bs k' m' where IH:
      "piperead_loop n pi p a (i + 1) t = Ret (i + 1 + int (length bs)) (t\<lparr>mem := m', pipes := (pipes t)(pi := k')\<rparr>)"
      "pipe_bytes k1 = bs @ pipe_bytes k'" "length bs = min n (length (pipe_bytes k1))"
      "wrote m1 m' ?pt (b + 1) (nth bs) (length bs)" "pipe_ok k1 \<longrightarrow> pipe_ok k'"
      unfolding f by blast
    have len: "length bs \<le> n" using IH(3) by simp
    have inj: "inj_on (\<lambda>j. upa (mem s) ?pt (b + of_nat j)) {..<1 + length bs}"
      by (rule inj_on_subset[of _ "{..<1 + n}"]) (use u len in \<open>auto simp: uspace_ok_def\<close>)
    have wr1: "wrote (mem s) m1 ?pt b (nth (c # bs)) 1" using o(2) by (simp add: wrote_def)
    have wr2: "wrote m1 m' ?pt (b + of_nat 1) (\<lambda>i. (c # bs) ! (1 + i)) (length bs)" using IH(4) by simp
    have "wrote (mem s) m' ?pt b (nth (c # bs)) (1 + length bs)" by (rule wrote_split[OF wr1 wr2 o(4) inj])
    then have wr: "wrote (mem s) m' ?pt b (nth (c # bs)) (length (c # bs))" by simp
    have e1: "piperead_loop (Suc n) pi p a i s = Ret (i + int (length (c # bs))) (s\<lparr>mem := m', pipes := (pipes s)(pi := k')\<rparr>)"
      unfolding step IH(1) by (simp add: t_def)
    have e2: "pipe_bytes ?k = (c # bs) @ pipe_bytes k'" using gb(1) IH(2) by simp
    have e3: "length (c # bs) = min (Suc n) (length (pipe_bytes ?k))" unfolding gb(1) using IH(3) by simp
    have e4: "pipe_ok ?k \<longrightarrow> pipe_ok k'" using gb(2) IH(5) by blast
    show ?thesis by (intro exI[of _ "c # bs"] exI[of _ k'] exI[of _ m'] conjI e1 e2 e3 e4 wr)
  qed
qed

section \<open>The calls\<close>

lemma enter_pipe:
  assumes "calm s p" "noff (mycpu_of (mc s)) = 0"
  shows "in_pipe (s\<lparr>mc := acq (PipeLock pi) (mc s)\<rparr>) p pi (mc s)"
    "curproc s = Ret p (s\<lparr>mc := settled (mc s)\<rparr>)"
    "acquire (PipeLock pi) (s\<lparr>mc := settled (mc s)\<rparr>) = Ret () (s\<lparr>mc := acq (PipeLock pi) (mc s)\<rparr>)"
  using assms by (auto simp: in_pipe_def calm_def cur_def curproc_run acquire_free)

lemma leave_pipe:
  assumes "in_pipe t p pi (mc s)" "calm s p"
  shows "bind (wakeup ch) (\<lambda>_. bind (release (PipeLock pi)) (\<lambda>_. ret v)) t =
      Ret v ((notify ch p t)\<lparr>mc := settled (mc s)\<rparr>)"
    "calm ((notify ch p t)\<lparr>mc := settled (mc s)\<rparr>) p"
proof -
  have n: "in_pipe (notify ch p t) p pi (mc s)" using assms(1) by simp
  show "bind (wakeup ch) (\<lambda>_. bind (release (PipeLock pi)) (\<lambda>_. ret v)) t =
      Ret v ((notify ch p t)\<lparr>mc := settled (mc s)\<rparr>)"
    using wakeup_in_pipe[OF assms(1), of ch] release_pipe[OF n] by (simp add: run_simps)
  show "calm ((notify ch p t)\<lparr>mc := settled (mc s)\<rparr>) p"
    using assms(2) by (simp add: calm_def cur_def)
qed

section \<open>Properties\<close>

text \<open>
  C8: \<open>pipewrite\<close> appends bytes of the writer, in order and none twice, to the bytes in the pipe,
  and leaves other pipes alone. It returns the number of bytes written, which is \<open>n\<close> unless
  a byte of the user's buffer is unreadable; or it goes to sleep because the pipe holds 512
  bytes, with fewer than \<open>n\<close> written. If no reader is left or the writer was killed it
  returns -1 and writes nothing. It never panics.
\<close>

theorem pipewrite_appends:
  assumes "calm s p" "noff (mycpu_of (mc s)) = 0" "asp s (ppagetable (procs s p)) fs" "pipe_ok (pipes s pi)"
  shows "if preadopen (pipes s pi) = 0 \<or> pkilled (procs s p) \<noteq> 0
    then 0 < n \<longrightarrow> (\<exists>t. pipewrite pi a n s = Ret (-1) t \<and> pipes t = pipes s)
    else \<exists>k t. k \<le> nat n \<and> pipe_ok (pipes t pi) \<and> (\<forall>q. q \<noteq> pi \<longrightarrow> pipes t q = pipes s q) \<and>
      pipe_bytes (pipes t pi) = pipe_bytes (pipes s pi) @ ubytes (mem s) (ppagetable (procs s p)) a k \<and>
      (pipewrite pi a n s = Ret (int k) t \<and> calm t p \<and>
         (k = nat n \<or> \<not> ureadable (mem s) (ppagetable (procs s p)) (a + of_nat k)) \<or>
       pipewrite pi a n s = Switch t \<and> k < nat n \<and> length (pipe_bytes (pipes t pi)) = PIPESIZE \<and>
         pstate (procs t p) = SLEEPING \<and> pchan (procs t p) = Some (ChPipeWrite pi))"
proof -
  define u where "u = s\<lparr>mc := acq (PipeLock pi) (mc s)\<rparr>"
  have uf: "pipes u = pipes s" "procs u = procs s" "mem u = mem s" by (simp_all add: u_def)
  have u: "in_pipe u p pi (mc s)" using enter_pipe(1)[OF assms(1,2)] by (simp add: u_def)
  have au: "asp u (ppagetable (procs u p)) fs" using asp_acq[OF assms(3), of u pi] by (simp add: u_def)
  have start: "pipewrite pi a n s = bind (pipewrite_loop (nat n) pi p a 0) (\<lambda>r. case r of
       None \<Rightarrow> ret (-1)
     | Some i \<Rightarrow> bind (wakeup (ChPipeRead pi)) (\<lambda>_. bind (release (PipeLock pi)) (\<lambda>_. ret i))) u"
    using enter_pipe(2)[OF assms(1,2)] enter_pipe(3)[OF assms(1,2), of pi] by (simp add: pipewrite_def u_def)
  show ?thesis
  proof (cases "preadopen (pipes s pi) = 0 \<or> pkilled (procs s p) \<noteq> 0")
    case True
    have "\<exists>t. pipewrite pi a n s = Ret (-1) t \<and> pipes t = pipes s" if n: "0 < n"
    proof -
      obtain k where k: "nat n = Suc k" using n by (metis gr0_conv_Suc zero_less_nat_eq)
      have "pipewrite_loop (Suc k) pi p a 0 u = Ret None (u\<lparr>mc := settled (mc s)\<rparr>)"
        using True killed_in_pipe[OF u] release_pipe[OF u] uf
        by (cases "preadopen (pipes s pi) = 0") (auto simp: getpi_def run_simps)
      then show ?thesis by (simp add: start k run_simps uf)
    qed
    with True show ?thesis by simp
  next
    case False
    from pipewrite_loop_run[OF u au, where n = "nat n" and a = a and i = 0] assms(4) False uf
    obtain k where k: "k \<le> nat n" and "let xs = ubytes (mem u) (ppagetable (procs u p)) (a + of_int 0) k; t = pipe_after u pi xs in
      pipe_bytes (pipes t pi) = pipe_bytes (pipes u pi) @ xs \<and> pipe_ok (pipes t pi) \<and>
      (pipewrite_loop (nat n) pi p a 0 u = Ret (Some (0 + int k)) t \<and>
         (k = nat n \<or> \<not> ureadable (mem u) (ppagetable (procs u p)) (a + of_int 0 + of_nat k)) \<or>
       pipewrite_loop (nat n) pi p a 0 u = Switch (asleep p pi (ChPipeWrite pi) (notify (ChPipeRead pi) p t)) \<and>
         k < nat n \<and> length (pipe_bytes (pipes t pi)) = PIPESIZE)"
      by auto
    note L = this(2)[unfolded Let_def uf]
    define t where "t = pipe_after u pi (ubytes (mem s) (ppagetable (procs s p)) (a + of_int 0) k)"
    have other: "\<forall>q. q \<noteq> pi \<longrightarrow> pipes t q = pipes s q" by (simp add: t_def pipe_after_def uf)
    have t: "in_pipe t p pi (mc s)" using u by (simp add: t_def pipe_after_def)
    note L = L[folded t_def]
    consider "pipewrite_loop (nat n) pi p a 0 u = Ret (Some (int k)) t"
        "k = nat n \<or> \<not> ureadable (mem s) (ppagetable (procs s p)) (a + of_nat k)"
      | "pipewrite_loop (nat n) pi p a 0 u = Switch (asleep p pi (ChPipeWrite pi) (notify (ChPipeRead pi) p t))"
        "k < nat n" "length (pipe_bytes (pipes t pi)) = PIPESIZE"
      using L by auto
    then have "\<exists>w. pipes w = pipes t \<and>
      (pipewrite pi a n s = Ret (int k) w \<and> calm w p \<and>
         (k = nat n \<or> \<not> ureadable (mem s) (ppagetable (procs s p)) (a + of_nat k)) \<or>
       pipewrite pi a n s = Switch w \<and> k < nat n \<and> length (pipe_bytes (pipes t pi)) = PIPESIZE \<and>
         pstate (procs w p) = SLEEPING \<and> pchan (procs w p) = Some (ChPipeWrite pi))"
    proof cases
      case 1
      with leave_pipe(1)[OF t assms(1), of "ChPipeRead pi" "int k"] leave_pipe(2)[OF t assms(1), of "ChPipeRead pi"] show ?thesis
        by (intro exI[of _ "(notify (ChPipeRead pi) p t)\<lparr>mc := settled (mc s)\<rparr>"]) (simp add: start)
    next
      case 2
      then show ?thesis
        by (intro exI[of _ "asleep p pi (ChPipeWrite pi) (notify (ChPipeRead pi) p t)"]) (simp add: start)
    qed
    then obtain w where w: "pipes w = pipes t" and "pipewrite pi a n s = Ret (int k) w \<and> calm w p \<and>
         (k = nat n \<or> \<not> ureadable (mem s) (ppagetable (procs s p)) (a + of_nat k)) \<or>
       pipewrite pi a n s = Switch w \<and> k < nat n \<and> length (pipe_bytes (pipes t pi)) = PIPESIZE \<and>
         pstate (procs w p) = SLEEPING \<and> pchan (procs w p) = Some (ChPipeWrite pi)" by blast
    moreover have "pipe_bytes (pipes w pi) = pipe_bytes (pipes s pi) @ ubytes (mem s) (ppagetable (procs s p)) a k"
      "pipe_ok (pipes w pi)" "\<forall>q. q \<noteq> pi \<longrightarrow> pipes w q = pipes s q"
      using L other w by simp_all
    ultimately have "k \<le> nat n \<and> pipe_ok (pipes w pi) \<and> (\<forall>q. q \<noteq> pi \<longrightarrow> pipes w q = pipes s q) \<and>
      pipe_bytes (pipes w pi) = pipe_bytes (pipes s pi) @ ubytes (mem s) (ppagetable (procs s p)) a k \<and>
      (pipewrite pi a n s = Ret (int k) w \<and> calm w p \<and>
         (k = nat n \<or> \<not> ureadable (mem s) (ppagetable (procs s p)) (a + of_nat k)) \<or>
       pipewrite pi a n s = Switch w \<and> k < nat n \<and> length (pipe_bytes (pipes w pi)) = PIPESIZE \<and>
         pstate (procs w p) = SLEEPING \<and> pchan (procs w p) = Some (ChPipeWrite pi))"
      using k w by simp
    then have "\<exists>k t. k \<le> nat n \<and> pipe_ok (pipes t pi) \<and> (\<forall>q. q \<noteq> pi \<longrightarrow> pipes t q = pipes s q) \<and>
      pipe_bytes (pipes t pi) = pipe_bytes (pipes s pi) @ ubytes (mem s) (ppagetable (procs s p)) a k \<and>
      (pipewrite pi a n s = Ret (int k) t \<and> calm t p \<and>
         (k = nat n \<or> \<not> ureadable (mem s) (ppagetable (procs s p)) (a + of_nat k)) \<or>
       pipewrite pi a n s = Switch t \<and> k < nat n \<and> length (pipe_bytes (pipes t pi)) = PIPESIZE \<and>
         pstate (procs t p) = SLEEPING \<and> pchan (procs t p) = Some (ChPipeWrite pi))"
      by (intro exI)
    with False show ?thesis by simp
  qed
qed

theorem pipewrite_appends_witness:
  "\<exists>t. pipewrite 7 0 5 ex_kfile = Ret 5 t \<and>
     pipe_bytes (pipes t 7) = ubytes (mem ex_mapped) ex_pt 0 5 \<and> calm t 0"
proof -
  have k: "pipe_ok (pipes ex_kfile 7)" "preadopen (pipes ex_kfile 7) \<noteq> 0" "pipe_bytes (pipes ex_kfile 7) = []"
    by (simp_all add: pipe_ok_def pipe_bytes_def pring.queue_def ex_kfile_def kcons.defs)
  obtain k t where "k \<le> nat 5" "pipe_bytes (pipes t 7) = ubytes (mem ex_mapped) ex_pt 0 k"
    "pipewrite 7 0 5 ex_kfile = Ret (int k) t \<and> calm t 0 \<and> (k = nat 5 \<or> \<not> ureadable (mem ex_mapped) ex_pt (0 + of_nat k)) \<or>
      length (pipe_bytes (pipes t 7)) = PIPESIZE"
    using pipewrite_appends[OF ex_kfile_calm ex_kfile_user(1) k(1), of 5 0] k ex_kfile_user
    by (auto simp: ex_kfile_user)
  moreover have "ureadable (mem ex_mapped) ex_pt (0 + of_nat k)" using ex_user(4)[of k] \<open>k \<le> nat 5\<close> by simp
  ultimately show ?thesis by (auto simp: PIPESIZE_def)
qed



end
