(* ===== verification/Crash.thy ===== *)
theory Crash
  imports Log Example
begin

text \<open>
  Crash safety of the log (\<open>kernel/log.c\<close>). A commit is a sequence of disk writes, each of one
  block; the machine may stop after any of them. On the next start \<open>initlog\<close> runs the recovery,
  which may be cut off in the same way, any number of times. The theory proves that once a
  recovery finishes, the disk outside the log holds either all of the transaction's blocks or
  none of them.
\<close>

section \<open>Disks and writes\<close>

text \<open>Blocks are compared on their first \<open>BSIZE\<close> bytes; \<open>cdisk\<close> and \<open>clipw\<close> cut disks and writes to these.\<close>

definition apply_writes :: "(u32 \<times> cstr) list \<Rightarrow> (u32 \<Rightarrow> cstr) \<Rightarrow> u32 \<Rightarrow> cstr" where
  "apply_writes ws d = fold (\<lambda>(n, x) d. d(n := x)) ws d"

definition cdisk :: "(u32 \<Rightarrow> cstr) \<Rightarrow> u32 \<Rightarrow> cstr" where
  "cdisk d = (\<lambda>m. clip (d m))"

definition clipw :: "(u32 \<times> cstr) list \<Rightarrow> (u32 \<times> cstr) list" where
  "clipw ws = map (\<lambda>(n, x). (n, clip x)) ws"

lemma apply_writes_simps [simp]:
  "apply_writes [] d = d" "apply_writes ((n, x) # ws) d = apply_writes ws (d(n := x))"
  "apply_writes (ws @ vs) d = apply_writes vs (apply_writes ws d)"
  by (simp_all add: apply_writes_def)

lemma clipw_simps [simp]:
  "clipw [] = []" "clipw ((n, x) # ws) = (n, clip x) # clipw ws" "clipw (ws @ vs) = clipw ws @ clipw vs"
  "length (clipw ws) = length ws" "clipw (take k ws) = take k (clipw ws)"
  by (simp_all add: clipw_def take_map)

lemma cdisk_upd [simp]: "cdisk (d(n := x)) = (cdisk d)(n := clip x)"
  by (auto simp: cdisk_def)

lemma cdisk_writes: "cdisk (apply_writes ws d) = apply_writes (clipw ws) (cdisk d)"
  by (induction ws arbitrary: d) auto

lemma apply_writes_other: "m \<notin> fst ` set ws \<Longrightarrow> apply_writes ws d m = d m"
  by (induction ws arbitrary: d) auto

text \<open>The writes that copy block \<open>src i\<close> of \<open>c\<close> to \<open>dst i\<close>.\<close>

definition copies :: "(nat \<Rightarrow> u32) \<Rightarrow> (nat \<Rightarrow> u32) \<Rightarrow> (u32 \<Rightarrow> cstr) \<Rightarrow> nat \<Rightarrow> (u32 \<times> cstr) list" where
  "copies dst src c n = map (\<lambda>i. (dst i, c (src i))) [0..<n]"

lemma copies_simps [simp]:
  "copies dst src c 0 = []" "copies dst src c (Suc n) = copies dst src c n @ [(dst n, c (src n))]"
  "length (copies dst src c n) = n" "fst ` set (copies dst src c n) = dst ` {..<n}"
  by (auto simp: copies_def image_image)

lemma take_copies: "k \<le> n \<Longrightarrow> take k (copies dst src c n) = copies dst src c k"
  by (simp add: copies_def take_map min_def)

lemma copies_cong:
  "(\<And>i. i < n \<Longrightarrow> c (src i) = c' (src' i)) \<Longrightarrow> (\<And>i. i < n \<Longrightarrow> dst i = dst' i) \<Longrightarrow>
    copies dst src c n = copies dst' src' c' n"
  by (simp add: copies_def)

lemma copies_apply:
  "inj_on dst {..<n} \<Longrightarrow> i < n \<Longrightarrow> apply_writes (copies dst src c n) d (dst i) = c (src i)"
proof (induction n)
  case (Suc n)
  show ?case
  proof (cases "i = n")
    case False
    then have "dst i \<noteq> dst n" using Suc.prems inj_onD[OF Suc.prems(1), of i n] by auto
    with Suc False show ?thesis by (auto simp: inj_on_def)
  qed simp
qed simp

lemma copies_other: "(\<And>i. i < n \<Longrightarrow> dst i \<noteq> m) \<Longrightarrow> apply_writes (copies dst src c n) d m = d m"
  by (rule apply_writes_other) auto

section \<open>The header block\<close>

lemma clip_put32: "clip (put32 (clip d) i v) = clip (put32 d i v)"
  by (auto simp: clip_def put32_def)

lemma clip_put_blocks: "clip (put_blocks n bl (clip d)) = clip (put_blocks n bl d)"
proof (induction n)
  case (Suc n)
  then show ?case by (simp flip: clip_put32[of "put_blocks n bl d"]) (simp add: clip_put32 flip: Suc)
qed simp

lemma get32_clip: "i + 4 \<le> BSIZE \<Longrightarrow> get32 (clip d) i = get32 d i"
  by (simp add: get32_def clip_def)

lemma head_clip [simp]: "head_n (clip d) = head_n d" "i < LOGSIZE \<Longrightarrow> head_block (clip d) i = head_block d i"
  by (simp_all add: head_n_def head_block_def get32_clip BSIZE_def LOGSIZE_def MAXOPBLOCKS_def)

lemma put_blocks_head: "i < n \<Longrightarrow> get32 (put_blocks n bl d) (4 + 4 * i) = of_int (bl i)"
  by (induction n) (auto simp: less_Suc_eq)

lemma put_blocks_n: "get32 (put_blocks n bl d) 0 = get32 d 0"
  by (induction n) auto

lemma to_int_of_int: "- (2 ^ 31) \<le> x \<Longrightarrow> x < 2 ^ 31 \<Longrightarrow> to_int (of_int x) = x"
  by (simp add: to_int_def signed_of_int signed_take_bit_int_eq_self)

definition header :: "nat \<Rightarrow> (nat \<Rightarrow> int) \<Rightarrow> cstr \<Rightarrow> cstr" where
  "header n bl d = clip (put_blocks n bl (put32 d 0 (of_nat n)))"

lemma header_clip: "header n bl (clip d) = header n bl d"
  by (metis clip_put32 clip_put_blocks header_def)

lemma head_n_header: "n \<le> LOGSIZE \<Longrightarrow> head_n (header n bl d) = int n"
  using to_int_of_int[of "int n"]
  by (simp add: header_def head_n_def put_blocks_n get32_clip BSIZE_def LOGSIZE_def MAXOPBLOCKS_def)

lemma head_block_header:
  assumes "i < n" "n \<le> LOGSIZE" "0 \<le> bl i" "bl i < 2 ^ 31"
  shows "head_block (header n bl d) i = bl i"
  using assms to_int_of_int[of "bl i"]
  by (simp add: header_def head_block_def put_blocks_head get32_clip BSIZE_def LOGSIZE_def MAXOPBLOCKS_def)

section \<open>Copying one block\<close>

text \<open>The fields of the log are not the business of the cache.\<close>

lemma rest_log:
  assumes "rest s t"
  shows "log_start t = log_start s" "log_dev t = log_dev s" "lh_n t = lh_n s" "lh_block t = lh_block s"
    "log_size t = log_size s" "outstanding t = outstanding s" "committing t = committing s"
proof -
  have "t = s\<lparr>mc := mc t, procs := procs t, slocks := slocks t, bufs := bufs t, bprev := bprev t,
       bnext := bnext t, disk := disk t, dwrites := dwrites t\<rparr>"
    using assms by (simp add: rest_def)
  then obtain a b c d e f g h where "t = s\<lparr>mc := a, procs := b, slocks := c, bufs := d, bprev := e,
       bnext := f, disk := g, dwrites := h\<rparr>" by blast
  then show "log_start t = log_start s" "log_dev t = log_dev s" "lh_n t = lh_n s" "lh_block t = lh_block s"
    "log_size t = log_size s" "outstanding t = outstanding s" "committing t = committing s" by simp_all
qed

lemma clip_copy_block: "clip (copy_block d d') = clip d'"
  by (auto simp: clip_def copy_block_def)

text \<open>Reading two blocks \<open>x\<close> and \<open>y\<close>: both buffers are then held.\<close>

lemma bread_two:
  assumes o: "opened s p {}" and ne: "x \<noteq> y" and small: "\<forall>m. refs s m + 2 < 2 ^ 32"
    and room: "busy s < NBUF" "refs s y \<noteq> 0 \<or> busy s + 1 < NBUF"
  obtains b c t u where "bread ROOTDEV x s = Ret b t" "bread ROOTDEV y t = Ret c u" "opened u p {b, c}"
    "b \<noteq> c" "has u b x" "has u c y" "clip (bdata (bufs u b)) = content s x" "clip (bdata (bufs u c)) = content s y"
    "content u = content s" "refs u = (refs s)(x := refs s x + 1, y := refs s y + 1)" "disk u = disk s"
    "dwrites u = dwrites s" "rest s u" "busy u = busy s + of_bool (refs s x = 0) + of_bool (refs s y = 0)"
proof -
  have sm: "refs s x + 1 < 2 ^ 32" using small[rule_format, of x] by linarith
  obtain b t where t: "bread ROOTDEV x s = Ret b t" "opened t p (insert b {})" "has t b x"
    "clip (bdata (bufs t b)) = content s x" "content t = content s" "refs t = (refs s)(x := refs s x + 1)"
    "disk t = disk s" "dwrites t = dwrites s" "rest s t" "busy t = busy s + of_bool (refs s x = 0)"
    by (rule bread_spec[OF o _ _ sm]) (use room(1) in auto)
  have hb: "has t i y \<Longrightarrow> i \<notin> insert b {}" for i using t(3) ne by (auto simp: has_def)
  have rm: "(\<exists>i. has t i y) \<or> busy t < NBUF"
  proof (cases "refs s y = 0")
    case True
    with room t(10) show ?thesis by (cases "refs s x = 0") auto
  next
    case False
    then have "refs t y \<noteq> 0" using t(6) ne by simp
    then show ?thesis by (metis refs_miss)
  qed
  have sm': "refs t y + 1 < 2 ^ 32" using small[rule_format, of y] t(6) ne by simp
  obtain c u where u: "bread ROOTDEV y t = Ret c u" "opened u p (insert c (insert b {}))" "c \<notin> insert b {}" "has u c y"
    "clip (bdata (bufs u c)) = content t y" "content u = content t" "refs u = (refs t)(y := refs t y + 1)"
    "disk u = disk t" "dwrites u = dwrites t" "rest t u" "\<And>i. i \<noteq> c \<Longrightarrow> bufs u i = bufs t i"
    "busy u = busy t + of_bool (refs t y = 0)" "procs u = procs t"
    by (rule bread_spec[OF t(2) hb rm sm']) blast+
  have "has u b x" using t(3) u(3,11) by (auto simp: has_def)
  moreover have "clip (bdata (bufs u b)) = content s x" using t(4) u(3,11) by auto
  ultimately show thesis
    using that[OF t(1) u(1)] t u ne rest_trans[OF t(9) u(10)] by (auto simp: insert_commute)
qed

text \<open>One round of \<open>write_log\<close>: block \<open>y\<close> of the cache goes to block \<open>x\<close>, in the cache and on the disk.\<close>

lemma write_log_step:
  assumes o: "opened s p {}" and ne: "x \<noteq> y" and small: "\<forall>m. refs s m + 2 < 2 ^ 32"
    and room: "busy s < NBUF" "refs s y \<noteq> 0 \<or> busy s + 1 < NBUF"
  obtains t where "bind (bread ROOTDEV x) (\<lambda>to. bind (bread ROOTDEV y) (\<lambda>from. bind (getb from bdata) (\<lambda>src.
       bind (updb to (\<lambda>k. k\<lparr>bdata := copy_block (bdata k) src\<rparr>)) (\<lambda>_.
       bind (bwrite to) (\<lambda>_. bind (brelse from) (\<lambda>_. brelse to)))))) s = Ret () t" "opened t p {}"
    "content t = (content s)(x := content s y)" "cdisk (disk t) = (cdisk (disk s))(x := content s y)"
    "clipw (dwrites t) = clipw (dwrites s) @ [(x, content s y)]" "rest s t" "refs t = refs s" "busy t = busy s"
proof -
  obtain b c t u where tu: "bread ROOTDEV x s = Ret b t" "bread ROOTDEV y t = Ret c u" "opened u p {b, c}"
    "b \<noteq> c" "has u b x" "has u c y" "clip (bdata (bufs u b)) = content s x" "clip (bdata (bufs u c)) = content s y"
    "content u = content s" "refs u = (refs s)(x := refs s x + 1, y := refs s y + 1)" "disk u = disk s"
    "dwrites u = dwrites s" "rest s u" "busy u = busy s + of_bool (refs s x = 0) + of_bool (refs s y = 0)"
    by (rule bread_two[OF o ne small room])
  have inb: "b \<in> {b, c}" by simp
  obtain v where v: "updb b (\<lambda>k. k\<lparr>bdata := copy_block (bdata k) (bdata (bufs u c))\<rparr>) u = Ret () v" "opened v p {b, c}"
    "content v = (content u)(x := clip (copy_block (bdata (bufs u b)) (bdata (bufs u c))))" "refs v = refs u"
    "disk v = disk u" "dwrites v = dwrites u" "rest u v" "busy v = busy u" "\<And>i m. has v i m = has u i m"
    "bdata (bufs v b) = copy_block (bdata (bufs u b)) (bdata (bufs u c))"
    by (rule edit_spec[OF tu(3) inb tu(5), where f = "\<lambda>d. copy_block d (bdata (bufs u c))"]) blast
  have hv: "has v b x" using v(9) tu(5) by simp
  obtain w where w: "bwrite b v = Ret () w" "opened w p {b, c}" "content w = content v" "refs w = refs v"
    "disk w = (disk v)(x := bdata (bufs v b))" "dwrites w = dwrites v @ [(x, bdata (bufs v b))]" "rest v w"
    "busy w = busy v" "\<And>i m. has w i m = has v i m"
    by (rule bwrite_spec[OF v(2) inb hv]) blast
  have cc: "clip (copy_block (bdata (bufs u b)) (bdata (bufs u c))) = content s y"
    using tu(8) by (simp add: clip_copy_block)
  have cw: "content w = (content s)(x := content s y)" "clip (bdata (bufs v b)) = content s y"
    using w(3) v(3,10) cc tu(9) by simp_all
  have inc: "c \<in> {b, c}" and hw: "has w c y" using w(9) v(9) tu(6) by simp_all
  have rw: "refs w = (refs s)(x := refs s x + 1, y := refs s y + 1)" using w(4) v(4) tu(10) by simp
  have cl: "content w y = clip (disk w y)" if "refs w y = 1"
    using that rw ne unreferenced_clean[OF opened_ok[OF o], of y] w(5) v(5) tu(11) cw(1) by simp
  obtain q where q: "brelse c w = Ret () q" "opened q p ({b, c} - {c})" "content q = content w"
    "refs q = (refs w)(y := refs w y - 1)" "disk q = disk w" "dwrites q = dwrites w" "rest w q"
    "busy q = busy w - of_bool (refs w y = 1)" "\<And>i m. has q i m = has w i m"
    by (rule brelse_spec[OF w(2) inc hw cl]) blast+
  have rq: "refs q = (refs s)(x := refs s x + 1)" using q(4) rw ne by auto
  have inb': "b \<in> {b, c} - {c}" and hq: "has q b x" using tu(4) q(9) w(9) hv by auto
  have clq: "content q x = clip (disk q x)" using q(3,5) w(5) cw by simp
  obtain r where r: "brelse b q = Ret () r" "opened r p ({b, c} - {c} - {b})" "content r = content q"
    "refs r = (refs q)(x := refs q x - 1)" "disk r = disk q" "dwrites r = dwrites q" "rest q r"
    "busy r = busy q - of_bool (refs q x = 1)"
    by (rule brelse_spec[OF q(2) inb' hq clq]) blast+
  have run: "bind (bread ROOTDEV x) (\<lambda>to. bind (bread ROOTDEV y) (\<lambda>from. bind (getb from bdata) (\<lambda>src.
       bind (updb to (\<lambda>k. k\<lparr>bdata := copy_block (bdata k) src\<rparr>)) (\<lambda>_.
       bind (bwrite to) (\<lambda>_. bind (brelse from) (\<lambda>_. brelse to)))))) s = Ret () r"
    by (simp add: tu(1,2) getb_run(1) v(1) w(1) q(1) r(1))
  have busy: "busy r = busy s" using r(8) q(8) rq rw w(8) v(8) tu(14) ne by (cases "refs s x = 0"; cases "refs s y = 0") auto
  have refs: "refs r = refs s" using r(4) rq by auto
  have rest: "rest s r" using tu(13) v(7) w(7) q(7) r(7) rest_trans by blast
  have "{b, c} - {c} - {b} = {}" by auto
  then have op: "opened r p {}" using r(2) by metis
  have content: "content r = (content s)(x := content s y)" using r(3) q(3) cw(1) by simp
  have disk: "disk r = (disk s)(x := bdata (bufs v b))" "dwrites r = dwrites s @ [(x, bdata (bufs v b))]"
    using r(5,6) q(5,6) w(5,6) v(5,6) tu(11,12) by simp_all
  show thesis
    by (rule that[OF run op content _ _ rest refs busy]) (simp_all add: disk cw(2))
qed

text \<open>One round of \<open>install_trans\<close>: block \<open>x\<close> of the log goes to its home \<open>y\<close>, which loses its pin.\<close>

lemma install_step:
  assumes o: "opened s p {}" and ne: "x \<noteq> y" and small: "\<forall>m. refs s m + 2 < 2 ^ 32"
    and room: "busy s < NBUF" "refs s y \<noteq> 0 \<or> busy s + 1 < NBUF" and pin: "f = 0 \<Longrightarrow> refs s y \<noteq> 0"
  obtains t where "bind (bread ROOTDEV x) (\<lambda>lbuf. bind (bread ROOTDEV y) (\<lambda>dbuf. bind (getb lbuf bdata) (\<lambda>src.
       bind (updb dbuf (\<lambda>k. k\<lparr>bdata := copy_block (bdata k) src\<rparr>)) (\<lambda>_. bind (bwrite dbuf) (\<lambda>_.
       bind (only_if (f = (0::int)) (bunpin dbuf)) (\<lambda>_. bind (brelse lbuf) (\<lambda>_. brelse dbuf))))))) s = Ret () t"
    "opened t p {}" "content t = (content s)(y := content s x)" "cdisk (disk t) = (cdisk (disk s))(y := content s x)"
    "clipw (dwrites t) = clipw (dwrites s) @ [(y, content s x)]" "rest s t"
    "refs t = (refs s)(y := refs s y - of_bool (f = 0))" "busy t \<le> busy s"
proof -
  obtain b c t u where tu: "bread ROOTDEV x s = Ret b t" "bread ROOTDEV y t = Ret c u" "opened u p {b, c}"
    "b \<noteq> c" "has u b x" "has u c y" "clip (bdata (bufs u b)) = content s x" "clip (bdata (bufs u c)) = content s y"
    "content u = content s" "refs u = (refs s)(x := refs s x + 1, y := refs s y + 1)" "disk u = disk s"
    "dwrites u = dwrites s" "rest s u" "busy u = busy s + of_bool (refs s x = 0) + of_bool (refs s y = 0)"
    by (rule bread_two[OF o ne small room])
  have inc: "c \<in> {b, c}" by simp
  obtain v where v: "updb c (\<lambda>k. k\<lparr>bdata := copy_block (bdata k) (bdata (bufs u b))\<rparr>) u = Ret () v" "opened v p {b, c}"
    "content v = (content u)(y := clip (copy_block (bdata (bufs u c)) (bdata (bufs u b))))" "refs v = refs u"
    "disk v = disk u" "dwrites v = dwrites u" "rest u v" "busy v = busy u" "\<And>i m. has v i m = has u i m"
    "bdata (bufs v c) = copy_block (bdata (bufs u c)) (bdata (bufs u b))"
    by (rule edit_spec[OF tu(3) inc tu(6), where f = "\<lambda>d. copy_block d (bdata (bufs u b))"]) blast
  have hv: "has v c y" using v(9) tu(6) by simp
  obtain w where w: "bwrite c v = Ret () w" "opened w p {b, c}" "content w = content v" "refs w = refs v"
    "disk w = (disk v)(y := bdata (bufs v c))" "dwrites w = dwrites v @ [(y, bdata (bufs v c))]" "rest v w"
    "busy w = busy v" "\<And>i m. has w i m = has v i m"
    by (rule bwrite_spec[OF v(2) inc hv]) blast
  have cw: "content w = (content s)(y := content s x)" "clip (bdata (bufs v c)) = content s x"
    using w(3) v(3,10) tu(7,9) by (simp_all add: clip_copy_block)
  have hw: "has w c y" "has w b x" using w(9) v(9) tu(5,6) by simp_all
  have rw: "refs w = (refs s)(x := refs s x + 1, y := refs s y + 1)" using w(4) v(4) tu(10) by simp
  obtain z where z: "only_if (f = 0) (bunpin c) w = Ret () z" "opened z p {b, c}" "content z = content w"
    "refs z = (refs w)(y := refs w y - of_bool (f = 0))" "disk z = disk w" "dwrites z = dwrites w" "rest w z"
    "busy z = busy w" "\<And>i m. has z i m = has w i m"
  proof (cases "f = 0")
    case True
    have c: "unat (brefcnt (bufs w c)) = refs s y + 1"
      using refs_hit[OF bcache_ok_uniq[OF opened_ok[OF w(2)]] hw(1)] rw by simp
    have "unat (brefcnt (bufs w c) - 1) = refs s y"
      using c by (subst unat_minus_one) auto
    moreover from this have "brefcnt (bufs w c) - 1 \<noteq> 0" using pin[OF True] by auto
    ultimately show thesis
      using count_spec[OF w(2) inc hw(1), of "brefcnt (bufs w c) - 1" "bunpin c"] bunpin_run[OF opened_calm[OF w(2)], of c]
        that True rw by (simp add: only_if_def) metis
  next
    case False
    then show thesis using that[of w] w(2) by (simp add: run_simps)
  qed
  have rz: "refs z = (refs s)(x := refs s x + 1, y := refs s y + 1 - of_bool (f = 0))" using z(4) rw by auto
  have inb: "b \<in> {b, c}" and hz: "has z b x" "has z c y" using z(9) hw by simp_all
  have cl: "content z x = clip (disk z x)" if "refs z x = 1"
    using that rz ne unreferenced_clean[OF opened_ok[OF o], of x] z(3,5) w(5) v(5) tu(11) cw(1) by simp
  obtain q where q: "brelse b z = Ret () q" "opened q p ({b, c} - {b})" "content q = content z"
    "refs q = (refs z)(x := refs z x - 1)" "disk q = disk z" "dwrites q = dwrites z" "rest z q"
    "busy q = busy z - of_bool (refs z x = 1)" "\<And>i m. has q i m = has z i m"
    by (rule brelse_spec[OF z(2) inb hz(1) cl]) blast+
  have rq: "refs q = (refs s)(y := refs s y + 1 - of_bool (f = 0))" using q(4) rz ne by auto
  have inc': "c \<in> {b, c} - {b}" and hq: "has q c y" using tu(4) q(9) hz by auto
  have clq: "content q y = clip (disk q y)" using q(3,5) z(3,5) w(5) cw by simp
  obtain r where r: "brelse c q = Ret () r" "opened r p ({b, c} - {b} - {c})" "content r = content q"
    "refs r = (refs q)(y := refs q y - 1)" "disk r = disk q" "dwrites r = dwrites q" "rest q r"
    "busy r = busy q - of_bool (refs q y = 1)"
    by (rule brelse_spec[OF q(2) inc' hq clq]) blast+
  have run: "bind (bread ROOTDEV x) (\<lambda>lbuf. bind (bread ROOTDEV y) (\<lambda>dbuf. bind (getb lbuf bdata) (\<lambda>src.
       bind (updb dbuf (\<lambda>k. k\<lparr>bdata := copy_block (bdata k) src\<rparr>)) (\<lambda>_. bind (bwrite dbuf) (\<lambda>_.
       bind (only_if (f = (0::int)) (bunpin dbuf)) (\<lambda>_. bind (brelse lbuf) (\<lambda>_. brelse dbuf))))))) s = Ret () r"
    by (simp add: tu(1,2) getb_run(1) v(1) w(1) z(1) q(1) r(1))
  have busy: "busy r \<le> busy s"
    using r(8) q(8) rq rz z(8) w(8) v(8) tu(14) ne pin by (cases "refs s x = 0"; cases "refs s y = 0"; cases "f = 0") auto
  have refs: "refs r = (refs s)(y := refs s y - of_bool (f = 0))" using r(4) rq pin by (cases "f = 0") auto
  have rest: "rest s r" using tu(13) v(7) w(7) z(7) q(7) r(7) rest_trans by blast
  have "{b, c} - {b} - {c} = {}" by auto
  then have op: "opened r p {}" using r(2) by metis
  have content: "content r = (content s)(y := content s x)" using r(3) q(3) z(3) cw(1) by simp
  have disk: "disk r = (disk s)(y := bdata (bufs v c))" "dwrites r = dwrites s @ [(y, bdata (bufs v c))]"
    using r(5,6) q(5,6) z(5,6) w(5,6) v(5,6) tu(11,12) by simp_all
  show thesis
    by (rule that[OF run op content _ _ rest refs busy]) (simp_all add: disk cw(2))
qed

section \<open>The loops\<close>

lemma for_each_append: "for_each (xs @ ys) body = bind (for_each xs body) (\<lambda>_. for_each ys body)"
  by (induction xs) (simp_all add: bind_assoc)

lemma copy_loop:
  fixes body :: "nat \<Rightarrow> ('z klog_scheme, unit) prog"
  assumes "\<And>i u. i < n \<Longrightarrow> I i u \<Longrightarrow> \<exists>v. body i u = Ret () v \<and> I (Suc i) v \<and>
      content v = (content u)(dst i := content u (src i)) \<and> cdisk (disk v) = (cdisk (disk u))(dst i := content u (src i)) \<and>
      clipw (dwrites v) = clipw (dwrites u) @ [(dst i, content u (src i))]"
    and "I 0 s" and sep: "\<And>i j. i < n \<Longrightarrow> j < n \<Longrightarrow> src i \<noteq> dst j"
  shows "\<exists>t. for_each [0..<n] body s = Ret () t \<and> I n t \<and>
      content t = apply_writes (copies dst src (content s) n) (content s) \<and>
      cdisk (disk t) = apply_writes (copies dst src (content s) n) (cdisk (disk s)) \<and>
      clipw (dwrites t) = clipw (dwrites s) @ copies dst src (content s) n"
  using assms
proof (induction n)
  case 0
  then show ?case by (auto simp: run_simps)
next
  case (Suc n)
  from Suc.IH[OF Suc.prems(1,2,3)] obtain u where u: "for_each [0..<n] body s = Ret () u" "I n u"
    "content u = apply_writes (copies dst src (content s) n) (content s)"
    "cdisk (disk u) = apply_writes (copies dst src (content s) n) (cdisk (disk s))"
    "clipw (dwrites u) = clipw (dwrites s) @ copies dst src (content s) n"
    by auto
  have "content u (src n) = content s (src n)"
    unfolding u(3)
  proof (rule apply_writes_other)
    show "src n \<notin> fst ` set (copies dst src (content s) n)"
      using Suc.prems(3)[OF lessI less_SucI] by auto
  qed
  moreover obtain v where "body n u = Ret () v" "I (Suc n) v" "content v = (content u)(dst n := content u (src n))"
    "cdisk (disk v) = (cdisk (disk u))(dst n := content u (src n))"
    "clipw (dwrites v) = clipw (dwrites u) @ [(dst n, content u (src n))]"
    using Suc.prems(1)[OF lessI u(2)] by blast
  ultimately show ?case
    using u by (intro exI[of _ v]) (simp add: for_each_append run_simps)
qed

text \<open>The log: its blocks, and where the blocks of the transaction belong.\<close>

definition log_region :: "int \<Rightarrow> u32 set" where
  "log_region start = (\<lambda>j. of_int (start + int j)) ` {..LOGSIZE}"

definition log_at :: "int \<Rightarrow> nat \<Rightarrow> u32" where
  "log_at start i = log_blkno start (int i)"

definition home :: "(nat \<Rightarrow> int) \<Rightarrow> nat \<Rightarrow> u32" where
  "home bl i = of_int (bl i)"

definition placed_log :: "int \<Rightarrow> nat \<Rightarrow> (nat \<Rightarrow> int) \<Rightarrow> bool" where
  "placed_log start n bl \<longleftrightarrow> 0 \<le> start \<and> start + int LOGSIZE < 2 ^ 31 \<and> n \<le> LOGSIZE \<and>
     (\<forall>i < n. 0 \<le> bl i \<and> bl i < 2 ^ 31 \<and> home bl i \<notin> log_region start) \<and> inj_on (home bl) {..<n}"

lemma uint_of_int_32: "0 \<le> x \<Longrightarrow> x < 2 ^ 32 \<Longrightarrow> uint (of_int x :: u32) = x"
  by (simp add: uint_word_of_int_eq take_bit_int_eq_self)

lemma uint_log_at: "0 \<le> start \<Longrightarrow> start + int LOGSIZE < 2 ^ 31 \<Longrightarrow> i < LOGSIZE \<Longrightarrow> uint (log_at start i) = start + int i + 1"
  unfolding log_at_def log_blkno_def by (rule uint_of_int_32) simp_all

lemma log_at_inj: "0 \<le> start \<Longrightarrow> start + int LOGSIZE < 2 ^ 31 \<Longrightarrow> i < LOGSIZE \<Longrightarrow> j < LOGSIZE \<Longrightarrow>
    log_at start i = log_at start j \<Longrightarrow> i = j"
proof -
  assume a: "0 \<le> start" "start + int LOGSIZE < 2 ^ 31" "i < LOGSIZE" "j < LOGSIZE" "log_at start i = log_at start j"
  have "start + int i + 1 = start + int j + 1"
    unfolding uint_log_at[OF a(1,2,3), symmetric] uint_log_at[OF a(1,2,4), symmetric] a(5) ..
  then show "i = j" by simp
qed

lemma log_at_region: "i < LOGSIZE \<Longrightarrow> log_at start i \<in> log_region start"
  unfolding log_at_def log_blkno_def log_region_def by (rule image_eqI[of _ _ "Suc i"]) (simp_all add: ac_simps)

lemma start_region: "of_int start \<in> log_region start"
  unfolding log_region_def by (rule image_eqI[of _ _ 0]) simp_all

lemma start_not_log: "0 \<le> start \<Longrightarrow> start + int LOGSIZE < 2 ^ 31 \<Longrightarrow> i < LOGSIZE \<Longrightarrow> log_at start i \<noteq> of_int start"
proof
  assume a: "0 \<le> start" "start + int LOGSIZE < 2 ^ 31" "i < LOGSIZE" "log_at start i = of_int start"
  have "uint (of_int start :: u32) = start" by (rule uint_of_int_32) (use a in simp_all)
  then have "start + int i + 1 = start" using uint_log_at[OF a(1,2,3)] unfolding a(4) by linarith
  then show False by simp
qed

definition write_log_body :: "nat \<Rightarrow> ('z klog_scheme, unit) prog" where
  "write_log_body tail =
     bind (gets (\<lambda>s. (log_dev s, log_start s, lh_block s tail))) (\<lambda>(dev, start, home).
     bind (bread (of_int dev) (log_blkno start (int tail))) (\<lambda>to.
     bind (bread (of_int dev) (of_int home)) (\<lambda>from.
     bind (getb from bdata) (\<lambda>src.
     bind (updb to (\<lambda>k. k\<lparr>bdata := copy_block (bdata k) src\<rparr>)) (\<lambda>_.
     bind (bwrite to) (\<lambda>_.
     bind (brelse from) (\<lambda>_.
     brelse to)))))))"

definition install_body :: "int \<Rightarrow> nat \<Rightarrow> ('z klog_scheme, unit) prog" where
  "install_body recovering tail =
     bind (gets (\<lambda>s. (log_dev s, log_start s, lh_block s tail))) (\<lambda>(dev, start, home).
     bind (bread (of_int dev) (log_blkno start (int tail))) (\<lambda>lbuf.
     bind (bread (of_int dev) (of_int home)) (\<lambda>dbuf.
     bind (getb lbuf bdata) (\<lambda>src.
     bind (updb dbuf (\<lambda>k. k\<lparr>bdata := copy_block (bdata k) src\<rparr>)) (\<lambda>_.
     bind (bwrite dbuf) (\<lambda>_.
     bind (only_if (recovering = 0) (bunpin dbuf)) (\<lambda>_.
     bind (brelse lbuf) (\<lambda>_.
     brelse dbuf))))))))"

lemma log_loops:
  "write_log = bind (gets lh_n) (\<lambda>n. for_each [0..<nat n] write_log_body)"
  "install_trans r = bind (gets lh_n) (\<lambda>n. for_each [0..<nat n] (install_body r))"
  by (simp_all add: write_log_def install_trans_def write_log_body_def[abs_def] install_body_def[abs_def])

lemma log_run:
  assumes "lh_n s = int n"
  shows "write_log s = for_each [0..<n] write_log_body s" "install_trans r s = for_each [0..<n] (install_body r) s"
  by (simp_all add: log_loops run_simps assms)

lemma placed_log_ne:
  "placed_log start n bl \<Longrightarrow> i < n \<Longrightarrow> j < n \<Longrightarrow> home bl i \<noteq> log_at start j"
  using log_at_region[of j start] unfolding placed_log_def by (metis order_less_le_trans)

lemma write_log_spec:
  assumes o: "opened s p {}" and dev: "log_dev s = 1" and n: "lh_n s = int n" and pl: "placed_log (log_start s) n (lh_block s)"
    and small: "\<forall>m. refs s m + 2 < 2 ^ 32" and room: "busy s < NBUF"
    and pin: "\<forall>i < n. refs s (home (lh_block s) i) \<noteq> 0"
  defines "ws \<equiv> copies (log_at (log_start s)) (home (lh_block s)) (content s) n"
  shows "\<exists>t. write_log s = Ret () t \<and> (opened t p {} \<and> rest s t \<and> refs t = refs s \<and> busy t = busy s) \<and>
    content t = apply_writes ws (content s) \<and> cdisk (disk t) = apply_writes ws (cdisk (disk s)) \<and>
    clipw (dwrites t) = clipw (dwrites s) @ ws"
proof -
  let ?I = "\<lambda>i u. opened u p {} \<and> rest s u \<and> refs u = refs s \<and> busy u = busy s"
  let ?lg = "log_at (log_start s)" and ?hb = "home (lh_block s)"
  note ne = placed_log_ne[OF pl]
  have step: "\<exists>v. write_log_body i u = Ret () v \<and> ?I (Suc i) v \<and>
       content v = (content u)(?lg i := content u (?hb i)) \<and> cdisk (disk v) = (cdisk (disk u))(?lg i := content u (?hb i)) \<and>
       clipw (dwrites v) = clipw (dwrites u) @ [(?lg i, content u (?hb i))]" if i: "i < n" and I: "?I i u" for i u
  proof -
    have r: "rest s u" using I by blast
    have c: "opened u p {}" "\<forall>m. refs u m + 2 < 2 ^ 32" "busy u < NBUF" "refs u (?hb i) \<noteq> 0 \<or> busy u + 1 < NBUF"
      using I small room pin i by auto
    obtain t where t: "bind (bread ROOTDEV (?lg i)) (\<lambda>to. bind (bread ROOTDEV (?hb i)) (\<lambda>from. bind (getb from bdata) (\<lambda>src.
       bind (updb to (\<lambda>k. k\<lparr>bdata := copy_block (bdata k) src\<rparr>)) (\<lambda>_.
       bind (bwrite to) (\<lambda>_. bind (brelse from) (\<lambda>_. brelse to)))))) u = Ret () t" "opened t p {}"
      "content t = (content u)(?lg i := content u (?hb i))" "cdisk (disk t) = (cdisk (disk u))(?lg i := content u (?hb i))"
      "clipw (dwrites t) = clipw (dwrites u) @ [(?lg i, content u (?hb i))]" "rest u t" "refs t = refs u" "busy t = busy u"
      by (rule write_log_step[OF c(1) not_sym[OF ne[OF i i]] c(2,3,4)])
    have "write_log_body i u = Ret () t"
      using t(1) rest_log[OF r] dev by (simp add: write_log_body_def run_simps log_at_def home_def ROOTDEV_def)
    then show ?thesis
      using t(2-5,7,8) I rest_trans[OF r t(6)] by (intro exI[of _ t]) (simp only: simp_thms)
  qed
  have "?I 0 s" using o by simp
  from copy_loop[of n ?I write_log_body ?lg ?hb s, OF step this ne]
  show ?thesis unfolding log_run[OF n] ws_def .
qed

lemma install_spec:
  assumes o: "opened s p {}" and dev: "log_dev s = 1" and n: "lh_n s = int n" and pl: "placed_log (log_start s) n (lh_block s)"
    and small: "\<forall>m. refs s m + 2 < 2 ^ 32" and room: "busy s < NBUF"
    and pin: "(\<forall>i < n. refs s (home (lh_block s) i) \<noteq> 0) \<or> f \<noteq> 0 \<and> busy s + 1 < NBUF"
  defines "ws \<equiv> copies (home (lh_block s)) (log_at (log_start s)) (content s) n"
  shows "\<exists>t. install_trans f s = Ret () t \<and>
    (opened t p {} \<and> rest s t \<and> (\<forall>m. refs t m = refs s m - of_bool (f = 0 \<and> m \<in> home (lh_block s) ` {..<n})) \<and> busy t \<le> busy s) \<and>
    content t = apply_writes ws (content s) \<and> cdisk (disk t) = apply_writes ws (cdisk (disk s)) \<and>
    clipw (dwrites t) = clipw (dwrites s) @ ws"
proof -
  let ?lg = "log_at (log_start s)" and ?hb = "home (lh_block s)"
  let ?I = "\<lambda>i u. opened u p {} \<and> rest s u \<and> (\<forall>m. refs u m = refs s m - of_bool (f = 0 \<and> m \<in> ?hb ` {..<i})) \<and> busy u \<le> busy s"
  note ne = placed_log_ne[OF pl]
  have step: "\<exists>v. install_body f i u = Ret () v \<and> ?I (Suc i) v \<and>
       content v = (content u)(?hb i := content u (?lg i)) \<and> cdisk (disk v) = (cdisk (disk u))(?hb i := content u (?lg i)) \<and>
       clipw (dwrites v) = clipw (dwrites u) @ [(?hb i, content u (?lg i))]" if i: "i < n" and I: "?I i u" for i u
  proof -
    have r: "rest s u" and ru: "\<And>m. refs u m = refs s m - of_bool (f = 0 \<and> m \<in> ?hb ` {..<i})" using I by blast+
    have hi: "?hb i \<notin> ?hb ` {..<i}"
      using pl i by (auto simp: placed_log_def dest!: inj_onD)
    have c: "opened u p {}" "\<forall>m. refs u m + 2 < 2 ^ 32" "busy u < NBUF"
    proof -
      show "\<forall>m. refs u m + 2 < 2 ^ 32"
      proof
        fix m show "refs u m + 2 < 2 ^ 32" using small[rule_format, of m] ru[of m] by linarith
      qed
    qed (use I room in auto)
    have rh: "refs u (?hb i) = refs s (?hb i)" using hi by (simp add: ru)
    have c4: "refs u (?hb i) \<noteq> 0 \<or> busy u + 1 < NBUF" "f = 0 \<Longrightarrow> refs u (?hb i) \<noteq> 0"
      using pin i I rh by auto
    obtain t where t: "bind (bread ROOTDEV (?lg i)) (\<lambda>lbuf. bind (bread ROOTDEV (?hb i)) (\<lambda>dbuf. bind (getb lbuf bdata) (\<lambda>src.
       bind (updb dbuf (\<lambda>k. k\<lparr>bdata := copy_block (bdata k) src\<rparr>)) (\<lambda>_. bind (bwrite dbuf) (\<lambda>_.
       bind (only_if (f = (0::int)) (bunpin dbuf)) (\<lambda>_. bind (brelse lbuf) (\<lambda>_. brelse dbuf))))))) u = Ret () t" "opened t p {}"
      "content t = (content u)(?hb i := content u (?lg i))" "cdisk (disk t) = (cdisk (disk u))(?hb i := content u (?lg i))"
      "clipw (dwrites t) = clipw (dwrites u) @ [(?hb i, content u (?lg i))]" "rest u t"
      "refs t = (refs u)(?hb i := refs u (?hb i) - of_bool (f = 0))" "busy t \<le> busy u"
      by (rule install_step[OF c(1) not_sym[OF ne[OF i i]] c(2,3) c4])
    have "install_body f i u = Ret () t"
      using t(1) rest_log[OF r] dev by (simp add: install_body_def run_simps log_at_def home_def ROOTDEV_def)
    moreover have "refs t m = refs s m - of_bool (f = 0 \<and> m \<in> ?hb ` {..<Suc i})" for m
      using hi by (auto simp: t(7) ru lessThan_Suc)
    ultimately show ?thesis
      using t(2-5) order_trans[OF t(8)] I rest_trans[OF r t(6)] by (intro exI[of _ t]) (simp only: simp_thms)
  qed
  have I0: "?I 0 s" using o by simp
  from copy_loop[of n ?I "install_body f" ?hb ?lg s, OF step I0 not_sym[OF ne]]
  show ?thesis unfolding log_run[OF n] ws_def .
qed

section \<open>The header on the disk\<close>

lemma lh_frame [simp]:
  fixes s :: "'z klog_scheme"
  shows "opened (s\<lparr>lh_n := v\<rparr>) p H = opened s p H" "opened (s\<lparr>lh_block := f\<rparr>) p H = opened s p H"
    "content (s\<lparr>lh_n := v\<rparr>) = content s" "content (s\<lparr>lh_block := f\<rparr>) = content s"
    "refs (s\<lparr>lh_n := v\<rparr>) = refs s" "refs (s\<lparr>lh_block := f\<rparr>) = refs s"
    "busy (s\<lparr>lh_n := v\<rparr>) = busy s" "busy (s\<lparr>lh_block := f\<rparr>) = busy s"
    "has (s\<lparr>lh_n := v\<rparr>) = has s" "has (s\<lparr>lh_block := f\<rparr>) = has s"
proof -
  show h: "has (s\<lparr>lh_n := v\<rparr>) = has s" "has (s\<lparr>lh_block := f\<rparr>) = has s" for s :: "'z klog_scheme"
    by (auto simp: has_def fun_eq_iff)
  show "content (s\<lparr>lh_n := v\<rparr>) = content s" "content (s\<lparr>lh_block := f\<rparr>) = content s"
    "refs (s\<lparr>lh_n := v\<rparr>) = refs s" "refs (s\<lparr>lh_block := f\<rparr>) = refs s"
    "busy (s\<lparr>lh_n := v\<rparr>) = busy s" "busy (s\<lparr>lh_block := f\<rparr>) = busy s"
    "opened (s\<lparr>lh_n := v\<rparr>) p H = opened s p H" "opened (s\<lparr>lh_block := f\<rparr>) p H = opened s p H"
    by (simp_all add: content_def refs_def busy_def opened_def calm_def cur_def bcache_ok_def uniq_def h fun_eq_iff split: option.split)
qed

lemma write_head_spec:
  assumes o: "opened s p {}" and dev: "log_dev s = 1" and n: "lh_n s = int n"
    and small: "\<forall>m. refs s m + 2 < 2 ^ 32" and room: "busy s < NBUF"
  defines "x \<equiv> of_int (log_start s)"
  defines "h \<equiv> header n (lh_block s) (content s x)"
  shows "\<exists>t. write_head s = Ret () t \<and> opened t p {} \<and> rest s t \<and> refs t = refs s \<and> busy t = busy s \<and>
    content t = (content s)(x := h) \<and> cdisk (disk t) = (cdisk (disk s))(x := h) \<and>
    clipw (dwrites t) = clipw (dwrites s) @ [(x, h)]"
proof -
  have sm: "refs s x + 1 < 2 ^ 32" using small[rule_format, of x] by linarith
  obtain b t where t: "bread ROOTDEV x s = Ret b t" "opened t p (insert b {})" "has t b x"
    "clip (bdata (bufs t b)) = content s x" "content t = content s" "refs t = (refs s)(x := refs s x + 1)"
    "disk t = disk s" "dwrites t = dwrites s" "rest s t" "busy t = busy s + of_bool (refs s x = 0)"
    by (rule bread_spec[OF o _ _ sm]) (use room in auto)
  define g where "g = (\<lambda>d. put_blocks n (lh_block s) (put32 d 0 (of_int (int n))))"
  have inb: "b \<in> {b}" by simp
  obtain v where v: "updb b (\<lambda>k. k\<lparr>bdata := g (bdata k)\<rparr>) t = Ret () v" "opened v p {b}"
    "content v = (content t)(x := clip (g (bdata (bufs t b))))" "refs v = refs t"
    "disk v = disk t" "dwrites v = dwrites t" "rest t v" "busy v = busy t" "\<And>i m. has v i m = has t i m"
    "bdata (bufs v b) = g (bdata (bufs t b))"
    by (rule edit_spec[OF t(2) inb t(3), where f = g]) blast
  have gh: "clip (g (bdata (bufs t b))) = h"
    using header_clip[of n "lh_block s" "bdata (bufs t b)"] t(4) by (simp add: g_def h_def header_def)
  have hv: "has v b x" using v(9) t(3) by simp
  obtain w where w: "bwrite b v = Ret () w" "opened w p {b}" "content w = content v" "refs w = refs v"
    "disk w = (disk v)(x := bdata (bufs v b))" "dwrites w = dwrites v @ [(x, bdata (bufs v b))]" "rest v w"
    "busy w = busy v" "\<And>i m. has w i m = has v i m"
    by (rule bwrite_spec[OF v(2) inb hv]) blast
  have hw: "has w b x" using w(9) hv by simp
  have cl: "content w x = clip (disk w x)" using w(3,5) v(3,10) by simp
  obtain r where r: "brelse b w = Ret () r" "opened r p ({b} - {b})" "content r = content w"
    "refs r = (refs w)(x := refs w x - 1)" "disk r = disk w" "dwrites r = dwrites w" "rest w r"
    "busy r = busy w - of_bool (refs w x = 1)"
    by (rule brelse_spec[OF w(2) inb hw cl]) blast+
  have lt: "lh_n t = int n" "lh_block t = lh_block s" using rest_log[OF t(9)] n by simp_all
  have "write_head s = Ret () r"
    using t(1) v(1) w(1) r(1) lt dev
    by (simp add: write_head_def run_simps x_def[symmetric] ROOTDEV_def g_def)
  moreover have "busy r = busy s" using r(8) w(4,8) v(4,8) t(6,10) by (cases "refs s x = 0") auto
  moreover have "refs r = refs s" using r(4) w(4) v(4) t(6) by simp
  moreover have "rest s r" using t(9) v(7) w(7) r(7) rest_trans by blast
  moreover have "content r = (content s)(x := h)" using r(3) w(3) v(3) t(5) gh by simp
  moreover have "disk r = (disk s)(x := g (bdata (bufs t b)))" "dwrites r = dwrites s @ [(x, g (bdata (bufs t b)))]"
    using r(5,6) w(5,6) v(5,6,10) t(7,8) by simp_all
  ultimately show ?thesis using r(2) gh by (intro exI[of _ r]) simp
qed

lemma read_head_spec:
  assumes o: "opened s p {}" and dev: "log_dev s = 1"
    and small: "\<forall>m. refs s m + 2 < 2 ^ 32" and room: "busy s < NBUF"
    and n: "head_n (content s (of_int (log_start s))) = int n" "n \<le> LOGSIZE"
  shows "\<exists>t. read_head s = Ret () t \<and> opened t p {} \<and> refs t = refs s \<and> busy t = busy s \<and> content t = content s \<and>
    disk t = disk s \<and> dwrites t = dwrites s \<and> lh_n t = int n \<and> log_start t = log_start s \<and> log_dev t = log_dev s \<and>
    (\<forall>i < n. lh_block t i = head_block (content s (of_int (log_start s))) i)"
proof -
  define x where "x = (of_int (log_start s) :: u32)"
  have sm: "refs s x + 1 < 2 ^ 32" using small[rule_format, of x] by linarith
  obtain b t where t: "bread ROOTDEV x s = Ret b t" "opened t p (insert b {})" "has t b x"
    "clip (bdata (bufs t b)) = content s x" "content t = content s" "refs t = (refs s)(x := refs s x + 1)"
    "disk t = disk s" "dwrites t = dwrites s" "rest s t" "busy t = busy s + of_bool (refs s x = 0)"
    by (rule bread_spec[OF o _ _ sm]) (use room in auto)
  define d where "d = bdata (bufs t b)"
  have hd: "head_n d = int n" "\<And>i. i < n \<Longrightarrow> head_block d i = head_block (content s x) i"
    using n t(4) head_clip(1)[of d] head_clip(2)[of _ d] unfolding d_def x_def by (metis, metis order_less_le_trans)
  define v where "v = t\<lparr>lh_n := int n\<rparr>\<lparr>lh_block := (\<lambda>i. if int i < int n then head_block d i else lh_block (t\<lparr>lh_n := int n\<rparr>) i)\<rparr>"
  have v: "opened v p {b}" "has v b x" "content v = content s" "refs v = refs t" "disk v = disk s" "dwrites v = dwrites s"
    "busy v = busy t" "lh_n v = int n" "log_start v = log_start s" "log_dev v = log_dev s"
    "\<And>i. i < n \<Longrightarrow> lh_block v i = head_block (content s x) i"
    using t rest_log[OF t(9)] hd(2) by (simp_all add: v_def)
  have inb: "b \<in> {b}" by simp
  have cl: "content v x = clip (disk v x)" if "refs v x = 1"
    using that v(3,4,5) t(6) unreferenced_clean[OF opened_ok[OF o], of x] by simp
  obtain r where r: "brelse b v = Ret () r" "opened r p ({b} - {b})" "content r = content v"
    "refs r = (refs v)(x := refs v x - 1)" "disk r = disk v" "dwrites r = dwrites v" "rest v r"
    "busy r = busy v - of_bool (refs v x = 1)"
    by (rule brelse_spec[OF v(1) inb v(2) cl]) blast+
  have "read_head s = Ret () r"
    using t(1) r(1) dev n(2)
    by (simp add: read_head_def run_simps x_def[symmetric] ROOTDEV_def d_def[symmetric] hd(1) v_def getb_run(1))
  moreover have "busy r = busy s" using r(8) v(4,7) t(6,10) by (cases "refs s x = 0") auto
  moreover have "refs r = refs s" using r(4) v(4) t(6) by simp
  ultimately show ?thesis
    using r(2,3,5,6) v rest_log[OF r(7)] by (intro exI[of _ r]) (simp add: x_def)
qed

section \<open>Commit\<close>

text \<open>
  What \<open>end_op\<close> finds when the last operation of a transaction ends: every logged block is
  pinned in the cache, no other block differs from the disk, and the header on the disk is empty.
  The cache must have one buffer left: \<open>LOGSIZE\<close> equals \<open>NBUF\<close>, so a transaction that pins
  every buffer could not be committed.
\<close>

definition committable :: "'z klog_scheme \<Rightarrow> nat \<Rightarrow> bool" where
  "committable s p \<longleftrightarrow> opened s p {} \<and> log_dev s = 1 \<and> 0 \<le> lh_n s \<and>
     placed_log (log_start s) (nat (lh_n s)) (lh_block s) \<and> busy s < NBUF \<and>
     (\<forall>m. refs s m + 2 < 2 ^ 32) \<and> (\<forall>i < nat (lh_n s). refs s (home (lh_block s) i) \<noteq> 0) \<and>
     (\<forall>m. m \<notin> home (lh_block s) ` {..<nat (lh_n s)} \<longrightarrow> content s m = clip (disk s m)) \<and>
     head_n (disk s (of_int (log_start s))) = 0"

definition commit_writes :: "int \<Rightarrow> nat \<Rightarrow> (nat \<Rightarrow> int) \<Rightarrow> (u32 \<Rightarrow> cstr) \<Rightarrow> (u32 \<times> cstr) list" where
  "commit_writes start n bl c = (let h = header n bl (c (of_int start)) in
     copies (log_at start) (home bl) c n @ [(of_int start, h)] @
     copies (home bl) (home bl) c n @ [(of_int start, header 0 bl h)])"

lemma home_not_start: "placed_log start n bl \<Longrightarrow> i < n \<Longrightarrow> home bl i \<noteq> of_int start"
  using start_region[of start] unfolding placed_log_def by metis

lemma log_at_not_start: "placed_log start n bl \<Longrightarrow> i < n \<Longrightarrow> log_at start i \<noteq> of_int start"
  using start_not_log[of start i] unfolding placed_log_def by auto

lemma log_at_inj_on: "placed_log start n bl \<Longrightarrow> inj_on (log_at start) {..<n}"
  unfolding placed_log_def by (auto intro!: inj_onI log_at_inj[of start])

lemma copies_log:
  assumes "placed_log start n bl" "i < n"
  shows "((apply_writes (copies (log_at start) src c n) d)(of_int start := h)) (log_at start i) = c (src i)"
  using copies_apply[OF log_at_inj_on[OF assms(1)] assms(2)] log_at_not_start[OF assms] by simp

lemma commit_spec:
  assumes c: "committable s p" and n: "lh_n s = int n" "0 < n"
  defines "ws \<equiv> commit_writes (log_start s) n (lh_block s) (content s)"
  shows "\<exists>t. commit s = Ret () t \<and> opened t p {} \<and> lh_n t = 0 \<and> log_start t = log_start s \<and> log_dev t = 1 \<and>
    busy t \<le> busy s \<and> content t = apply_writes ws (content s) \<and> cdisk (disk t) = apply_writes ws (cdisk (disk s)) \<and>
    clipw (dwrites t) = clipw (dwrites s) @ ws \<and>
    (\<forall>m. refs t m = refs s m - of_bool (m \<in> home (lh_block s) ` {..<n}))"
proof -
  let ?lg = "log_at (log_start s)" and ?hb = "home (lh_block s)" and ?st = "of_int (log_start s) :: u32"
  let ?h = "header n (lh_block s) (content s ?st)"
  have c': "opened s p {}" "log_dev s = 1" "placed_log (log_start s) n (lh_block s)" "busy s < NBUF"
    "\<forall>m. refs s m + 2 < 2 ^ 32" "\<forall>i < n. refs s (?hb i) \<noteq> 0"
    using c n by (simp_all add: committable_def)
  obtain t where t: "write_log s = Ret () t" "opened t p {}" "rest s t" "refs t = refs s" "busy t = busy s"
    "content t = apply_writes (copies ?lg ?hb (content s) n) (content s)"
    "cdisk (disk t) = apply_writes (copies ?lg ?hb (content s) n) (cdisk (disk s))"
    "clipw (dwrites t) = clipw (dwrites s) @ copies ?lg ?hb (content s) n"
    using write_log_spec[OF c'(1,2) n(1) c'(3,5,4,6)] by blast
  note ft = rest_log[OF t(3)]
  have ct: "content t ?st = content s ?st"
    unfolding t(6) by (rule copies_other) (rule log_at_not_start[OF c'(3)])
  have "\<exists>u. write_head t = Ret () u \<and> opened u p {} \<and> rest t u \<and> refs u = refs t \<and> busy u = busy t \<and>
    content u = (content t)(?st := ?h) \<and> cdisk (disk u) = (cdisk (disk t))(?st := ?h) \<and>
    clipw (dwrites u) = clipw (dwrites t) @ [(?st, ?h)]"
    using write_head_spec[OF t(2), of n] c' n t(4,5) ct ft by simp
  then obtain u where u: "write_head t = Ret () u" "opened u p {}" "rest t u" "refs u = refs t" "busy u = busy t"
    "content u = (content t)(?st := ?h)" "cdisk (disk u) = (cdisk (disk t))(?st := ?h)"
    "clipw (dwrites u) = clipw (dwrites t) @ [(?st, ?h)]" by blast
  note fu = rest_log[OF u(3)]
  have cu: "copies ?hb ?lg (content u) n = copies ?hb ?hb (content s) n"
    by (rule copies_cong) (use copies_log[OF c'(3)] in \<open>simp_all add: u(6) t(6)\<close>)
  have "\<exists>v. install_trans 0 u = Ret () v \<and>
    (opened v p {} \<and> rest u v \<and> (\<forall>m. refs v m = refs s m - of_bool (m \<in> ?hb ` {..<n})) \<and> busy v \<le> busy s) \<and>
    content v = apply_writes (copies ?hb ?hb (content s) n) (content u) \<and>
    cdisk (disk v) = apply_writes (copies ?hb ?hb (content s) n) (cdisk (disk u)) \<and>
    clipw (dwrites v) = clipw (dwrites u) @ copies ?hb ?hb (content s) n"
    using install_spec[OF u(2), of n 0] c' n t(4,5) u(4,5) fu ft cu by simp
  then obtain v where v: "install_trans 0 u = Ret () v" "opened v p {}" "rest u v"
    "\<forall>m. refs v m = refs s m - of_bool (m \<in> ?hb ` {..<n})" "busy v \<le> busy s"
    "content v = apply_writes (copies ?hb ?hb (content s) n) (content u)"
    "cdisk (disk v) = apply_writes (copies ?hb ?hb (content s) n) (cdisk (disk u))"
    "clipw (dwrites v) = clipw (dwrites u) @ copies ?hb ?hb (content s) n" by blast
  note fv = rest_log[OF v(3)]
  have cv: "content v ?st = ?h"
  proof -
    have "content v ?st = content u ?st"
      unfolding v(6) by (rule copies_other) (rule home_not_start[OF c'(3)])
    then show ?thesis by (simp add: u(6))
  qed
  let ?v = "v\<lparr>lh_n := 0\<rparr>"
  have small: "\<forall>m. refs ?v m + 2 < 2 ^ 32"
  proof
    fix m show "refs ?v m + 2 < 2 ^ 32" using c'(5)[rule_format, of m] v(4) by simp
  qed
  have w0: "opened ?v p {}" "log_dev ?v = 1" "lh_n ?v = int 0" "busy ?v < NBUF"
    using v(2,5) fv fu ft c' by simp_all
  obtain w where w: "write_head ?v = Ret () w" "opened w p {}" "rest ?v w" "refs w = refs ?v" "busy w = busy ?v"
    "content w = (content v)(?st := header 0 (lh_block s) ?h)"
    "cdisk (disk w) = (cdisk (disk v))(?st := header 0 (lh_block s) ?h)"
    "clipw (dwrites w) = clipw (dwrites v) @ [(?st, header 0 (lh_block s) ?h)]"
    using write_head_spec[OF w0(1,2,3) small w0(4)] cv fv fu ft by auto
  have "commit s = Ret () w"
    using n t(1) u(1) v(1) w(1) by (simp add: commit_def run_simps)
  moreover have "content w = apply_writes ws (content s)"
    by (simp add: w(6) v(6) u(6) t(6) ws_def commit_writes_def Let_def)
  moreover have "cdisk (disk w) = apply_writes ws (cdisk (disk s))"
    by (simp add: w(7) v(7) u(7) t(7) ws_def commit_writes_def Let_def)
  moreover have "clipw (dwrites w) = clipw (dwrites s) @ ws"
    by (simp add: w(8) v(8) u(8) t(8) ws_def commit_writes_def Let_def)
  ultimately show ?thesis
    using w(2,4,5) v(4,5) rest_log[OF w(3)] fv fu ft c'(2) by (intro exI[of _ w]) simp
qed

section \<open>Recovery\<close>

definition recover_writes :: "int \<Rightarrow> (u32 \<Rightarrow> cstr) \<Rightarrow> (u32 \<times> cstr) list" where
  "recover_writes start c = (let h = c (of_int start) in
     copies (home (head_block h)) (log_at start) c (nat (head_n h)) @ [(of_int start, header 0 (head_block h) h)])"

lemma header_0: "header 0 bl d = header 0 bl' d"
  by (simp add: header_def)

lemma placed_log_cong: "(\<And>i. i < n \<Longrightarrow> bl i = bl' i) \<Longrightarrow> placed_log start n bl = placed_log start n bl'"
proof -
  assume a: "\<And>i. i < n \<Longrightarrow> bl i = bl' i"
  then have "home bl i = home bl' i" if "i < n" for i using that by (simp add: home_def)
  then have "inj_on (home bl) {..<n} = inj_on (home bl') {..<n}" by (intro inj_on_cong) simp
  with a show ?thesis by (auto simp: placed_log_def home_def)
qed

lemma recover_spec:
  assumes o: "opened s p {}" and dev: "log_dev s = 1" and small: "\<forall>m. refs s m + 2 < 2 ^ 32" and room: "busy s + 1 < NBUF"
    and cl: "content s = cdisk (disk s)" and n: "head_n (cdisk (disk s) (of_int (log_start s))) = int n"
    and pl: "placed_log (log_start s) n (head_block (cdisk (disk s) (of_int (log_start s))))"
  defines "ws \<equiv> recover_writes (log_start s) (cdisk (disk s))"
  shows "\<exists>t. recover_from_log s = Ret () t \<and> cdisk (disk t) = apply_writes ws (cdisk (disk s)) \<and>
    clipw (dwrites t) = clipw (dwrites s) @ ws"
proof -
  let ?st = "of_int (log_start s) :: u32"
  let ?h = "cdisk (disk s) ?st" and ?lg = "log_at (log_start s)"
  have nl: "n \<le> LOGSIZE" using pl by (simp add: placed_log_def)
  have room': "busy s < NBUF" using room by simp
  obtain t where t: "read_head s = Ret () t" "opened t p {}" "refs t = refs s" "busy t = busy s" "content t = content s"
    "disk t = disk s" "dwrites t = dwrites s" "lh_n t = int n" "log_start t = log_start s" "log_dev t = log_dev s"
    "\<forall>i < n. lh_block t i = head_block ?h i"
    using read_head_spec[OF o dev small room'] n nl cl by auto
  have plt: "placed_log (log_start t) n (lh_block t)"
    using pl placed_log_cong[of n "lh_block t" "head_block ?h" "log_start s"] t(9,11) by simp
  have ct: "copies (home (lh_block t)) ?lg (content t) n = copies (home (head_block ?h)) ?lg (cdisk (disk s)) n"
    using t(11) by (intro copies_cong) (simp_all add: t(5) cl home_def)
  have "\<exists>v. install_trans 1 t = Ret () v \<and> (opened v p {} \<and> rest t v \<and> (\<forall>m. refs v m = refs s m) \<and> busy v \<le> busy s) \<and>
    content v = apply_writes (copies (home (head_block ?h)) ?lg (cdisk (disk s)) n) (cdisk (disk s)) \<and>
    cdisk (disk v) = apply_writes (copies (home (head_block ?h)) ?lg (cdisk (disk s)) n) (cdisk (disk s)) \<and>
    clipw (dwrites v) = clipw (dwrites s) @ copies (home (head_block ?h)) ?lg (cdisk (disk s)) n"
    using install_spec[OF t(2) _ t(8) plt, of 1] dev small room t(3-7,9,10) ct cl by simp
  then obtain v where v: "install_trans 1 t = Ret () v" "opened v p {}" "rest t v" "\<forall>m. refs v m = refs s m" "busy v \<le> busy s"
    "content v = apply_writes (copies (home (head_block ?h)) ?lg (cdisk (disk s)) n) (cdisk (disk s))"
    "cdisk (disk v) = apply_writes (copies (home (head_block ?h)) ?lg (cdisk (disk s)) n) (cdisk (disk s))"
    "clipw (dwrites v) = clipw (dwrites s) @ copies (home (head_block ?h)) ?lg (cdisk (disk s)) n" by blast
  have cv: "content v ?st = ?h"
    unfolding v(6) by (rule copies_other) (rule home_not_start[OF pl])
  let ?v = "v\<lparr>lh_n := 0\<rparr>"
  have w0: "opened ?v p {}" "log_dev ?v = 1" "lh_n ?v = int 0" "busy ?v < NBUF" "\<forall>m. refs ?v m + 2 < 2 ^ 32"
    using v(2,4,5) rest_log[OF v(3)] dev t(10) room small by simp_all
  obtain w where w: "write_head ?v = Ret () w" "cdisk (disk w) = (cdisk (disk v))(?st := header 0 (lh_block v) ?h)"
    "clipw (dwrites w) = clipw (dwrites v) @ [(?st, header 0 (lh_block v) ?h)]"
    using write_head_spec[OF w0(1,2,3,5,4)] cv rest_log[OF v(3)] t(9) by auto
  have "recover_from_log s = Ret () w"
    using t(1) v(1) w(1) by (simp add: recover_from_log_def run_simps)
  then show ?thesis
    using n header_0[of "lh_block v" ?h "head_block ?h"]
    by (intro exI[of _ w]) (simp add: ws_def recover_writes_def Let_def w(2,3) v(7,8))
qed

section \<open>Disks from which recovery succeeds\<close>

text \<open>
  With an empty header the blocks outside the log count; with the header of the transaction the
  log does, and the homes of its blocks may hold anything.
\<close>

definition quiet_disk :: "int \<Rightarrow> (u32 \<Rightarrow> cstr) \<Rightarrow> (u32 \<Rightarrow> cstr) \<Rightarrow> bool" where
  "quiet_disk start c d \<longleftrightarrow> head_n (d (of_int start)) = 0 \<and> (\<forall>m. m \<notin> log_region start \<longrightarrow> d m = c m)"

definition logged_disk :: "int \<Rightarrow> nat \<Rightarrow> (nat \<Rightarrow> int) \<Rightarrow> (u32 \<Rightarrow> cstr) \<Rightarrow> (u32 \<Rightarrow> cstr) \<Rightarrow> bool" where
  "logged_disk start n bl c d \<longleftrightarrow> head_n (d (of_int start)) = int n \<and> (\<forall>i < n. head_block (d (of_int start)) i = bl i) \<and>
     (\<forall>i < n. d (log_at start i) = c (home bl i)) \<and>
     (\<forall>m. m \<notin> log_region start \<and> m \<notin> home bl ` {..<n} \<longrightarrow> d m = c m)"

lemma quiet_empty: "quiet_disk start c d \<Longrightarrow> quiet_disk start c (d(of_int start := header 0 bl x))"
  using head_n_header[of 0 bl x] start_region[of start] by (auto simp: quiet_disk_def)

lemma logged_step:
  assumes "placed_log start n bl" "logged_disk start n bl c d" "i < n"
  shows "logged_disk start n bl c (d(home bl i := x))"
proof -
  have "home bl i \<in> home bl ` {..<n}" using assms(3) by blast
  moreover have "log_at start j \<noteq> home bl i" if "j < n" for j using placed_log_ne[OF assms(1,3) that] by simp
  ultimately show ?thesis
    using assms(2) home_not_start[OF assms(1,3)] unfolding logged_disk_def by simp
qed

lemma logged_copies:
  "placed_log start n bl \<Longrightarrow> logged_disk start n bl c d \<Longrightarrow> k \<le> n \<Longrightarrow>
    logged_disk start n bl c (apply_writes (copies (home bl) src c' k) d)"
  by (induction k) (auto intro: logged_step)

lemma logged_installed:
  assumes pl: "placed_log start n bl" and l: "logged_disk start n bl c d" and src: "\<forall>i < n. c' (src i) = c (home bl i)"
  shows "quiet_disk start c ((apply_writes (copies (home bl) src c' n) d)(of_int start := header 0 bl' x))"
proof -
  have "apply_writes (copies (home bl) src c' n) d m = c m" if m: "m \<notin> log_region start" for m
  proof (cases "m \<in> home bl ` {..<n}")
    case True
    then obtain i where i: "i < n" "m = home bl i" by blast
    have "inj_on (home bl) {..<n}" using pl by (simp add: placed_log_def)
    from copies_apply[OF this i(1)] i src show ?thesis by simp
  next
    case False
    then have "apply_writes (copies (home bl) src c' n) d m = d m" by (intro copies_other) auto
    with False m l show ?thesis by (simp add: logged_disk_def)
  qed
  then show ?thesis using head_n_header[of 0 bl' x] start_region[of start] by (auto simp: quiet_disk_def)
qed

text \<open>However far a commit gets, the disk holds the old blocks, the logged transaction or the new blocks.\<close>

definition recoverable :: "int \<Rightarrow> nat \<Rightarrow> (nat \<Rightarrow> int) \<Rightarrow> (u32 \<Rightarrow> cstr) \<Rightarrow> (u32 \<Rightarrow> cstr) \<Rightarrow> (u32 \<Rightarrow> cstr) \<Rightarrow> bool" where
  "recoverable start n bl old new d \<longleftrightarrow>
     quiet_disk start old d \<or> logged_disk start n bl new d \<or> quiet_disk start new d"

lemma quiet_log_copies:
  "placed_log start n bl \<Longrightarrow> quiet_disk start old d \<Longrightarrow> k \<le> n \<Longrightarrow>
    quiet_disk start old (apply_writes (copies (log_at start) src c k) d)"
proof (induction k)
  case (Suc k)
  then have "k < LOGSIZE" by (simp add: placed_log_def)
  with Suc log_at_not_start[OF Suc.prems(1), of k] log_at_region[of k start] show ?case
    by (auto simp: quiet_disk_def)
qed simp

lemma log_written:
  assumes pl: "placed_log start n bl" and q: "quiet_disk start old d"
    and same: "\<forall>m. m \<notin> home bl ` {..<n} \<longrightarrow> new m = old m"
  shows "logged_disk start n bl new ((apply_writes (copies (log_at start) (home bl) new n) d)(of_int start := header n bl x))"
proof -
  let ?e = "apply_writes (copies (log_at start) (home bl) new n) d"
  have nl: "n \<le> LOGSIZE" and b: "\<And>i. i < n \<Longrightarrow> 0 \<le> bl i \<and> bl i < 2 ^ 31" using pl by (simp_all add: placed_log_def)
  have "?e m = old m" if "m \<notin> log_region start" for m
    using quiet_log_copies[OF pl q order_refl] that by (simp add: quiet_disk_def)
  then have "(?e(of_int start := header n bl x)) m = new m" if "m \<notin> log_region start \<and> m \<notin> home bl ` {..<n}" for m
    using that start_region[of start] same by auto
  moreover have "(?e(of_int start := header n bl x)) (log_at start i) = new (home bl i)" if "i < n" for i
    by (rule copies_log[OF pl that])
  ultimately show ?thesis
    unfolding logged_disk_def using head_n_header[OF nl, of bl x] head_block_header[OF _ nl, of _ bl x] b by simp
qed

lemma commit_recoverable:
  assumes pl: "placed_log start n bl" and q: "quiet_disk start old d" and same: "\<forall>m. m \<notin> home bl ` {..<n} \<longrightarrow> new m = old m"
  shows "recoverable start n bl old new (apply_writes (take k (commit_writes start n bl new)) d)"
proof -
  let ?h = "header n bl (new (of_int start))"
  note lg = log_written[OF pl q same, of "new (of_int start)"]
  consider "k \<le> n" | j where "k = n + 1 + j" "j \<le> n" | "2 * n + 2 \<le> k"
    by (metis One_nat_def add.assoc add.commute le_add_diff_inverse mult_2 nat_add_left_cancel_le not_less_eq_eq
        numeral_2_eq_2 plus_1_eq_Suc)
  then show ?thesis
  proof cases
    case 1
    then show ?thesis
      using quiet_log_copies[OF pl q 1, of "home bl" new]
      by (simp add: recoverable_def commit_writes_def Let_def take_copies)
  next
    case 2
    then show ?thesis
      using logged_copies[OF pl lg 2(2), of "home bl" new]
      by (simp add: recoverable_def commit_writes_def Let_def take_copies)
  next
    case 3
    then show ?thesis
      using logged_installed[OF pl lg, of new "home bl" bl ?h]
      by (simp add: recoverable_def commit_writes_def Let_def)
  qed
qed

lemma recover_recoverable:
  assumes pl: "placed_log start n bl" and r: "recoverable start n bl old new d"
  shows "recoverable start n bl old new (apply_writes (take k (recover_writes start d)) d)" (is ?thesis1)
    and "quiet_disk start old (apply_writes (recover_writes start d) d) \<or>
      quiet_disk start new (apply_writes (recover_writes start d) d)" (is ?thesis2)
    and "\<exists>n'. head_n (d (of_int start)) = int n' \<and> placed_log start n' (head_block (d (of_int start)))" (is ?thesis3)
proof -
  let ?h = "d (of_int start)"
  have q: "quiet_disk start c (apply_writes (take k (recover_writes start d)) d)"
    "quiet_disk start c (apply_writes (recover_writes start d) d)" ?thesis3 if c: "quiet_disk start c d" for c k
  proof -
    have h0: "head_n ?h = 0" using c by (simp add: quiet_disk_def)
    then show "quiet_disk start c (apply_writes (take k (recover_writes start d)) d)"
      "quiet_disk start c (apply_writes (recover_writes start d) d)"
      using c quiet_empty[OF c] by (cases k; simp add: recover_writes_def Let_def)+
    show ?thesis3 using pl h0 by (intro exI[of _ 0]) (simp add: placed_log_def)
  qed
  have l: ?thesis1 ?thesis2 ?thesis3 if c: "logged_disk start n bl new d"
  proof -
    have h: "head_n ?h = int n" "\<And>i. i < n \<Longrightarrow> head_block ?h i = bl i" using c by (simp_all add: logged_disk_def)
    have w: "recover_writes start d = copies (home bl) (log_at start) d n @ [(of_int start, header 0 bl ?h)]"
      using h header_0[of "head_block ?h" ?h bl]
      by (simp add: recover_writes_def Let_def) (intro copies_cong, simp_all add: home_def)
    have src: "\<forall>i < n. d (log_at start i) = new (home bl i)" using c by (simp add: logged_disk_def)
    note q = logged_installed[OF pl c src, of bl ?h]
    show ?thesis2 using q by (simp add: w)
    show ?thesis1
    proof (cases "k \<le> n")
      case True
      then show ?thesis using logged_copies[OF pl c True] by (simp add: w recoverable_def take_copies)
    next
      case False
      then show ?thesis using q by (simp add: w recoverable_def)
    qed
    show ?thesis3 using pl h placed_log_cong[of n "head_block ?h" bl start] by auto
  qed
  show ?thesis1 ?thesis2 ?thesis3
    using r q l unfolding recoverable_def by metis+
qed

section \<open>Crashes\<close>

text \<open>
  A machine after a reset: the disk is as it was, the cache is empty. \<open>crashed sb s d\<close>: \<open>d\<close>
  is what a disk can hold when the machine stops during \<open>commit\<close> from state \<open>s\<close>, or during a
  recovery after that.
\<close>

definition boots :: "'z klog_scheme \<Rightarrow> nat \<Rightarrow> (u32 \<Rightarrow> cstr) \<Rightarrow> bool" where
  "boots u p d \<longleftrightarrow> opened u p {} \<and> (\<forall>i m. \<not> has u i m) \<and> busy u = 0 \<and> disk u = d"

inductive crashed :: "superblock \<Rightarrow> 'z klog_scheme \<Rightarrow> (u32 \<Rightarrow> cstr) \<Rightarrow> bool" for sb s where
  in_commit: "commit s = Ret () t \<Longrightarrow> dwrites t = dwrites s @ ws \<Longrightarrow> crashed sb s (apply_writes (take k ws) (disk s))"
| in_recovery: "crashed sb s d \<Longrightarrow> boots (u :: 'z klog_scheme) p d \<Longrightarrow> initlog 1 sb u = Ret () v \<Longrightarrow> dwrites v = dwrites u @ ws \<Longrightarrow>
    crashed sb s (apply_writes (take k ws) d)"

lemma initlog_spec:
  fixes u :: "'z klog_scheme"
  assumes b: "boots u p d" and st: "to_int (sb_logstart sb) = start"
    and n: "head_n (cdisk d (of_int start)) = int n" and pl: "placed_log start n (head_block (cdisk d (of_int start)))"
  shows "\<exists>v. initlog 1 sb u = Ret () v \<and> cdisk (disk v) = apply_writes (recover_writes start (cdisk d)) (cdisk d) \<and>
    clipw (dwrites v) = clipw (dwrites u) @ recover_writes start (cdisk d)"
proof -
  define w where "w = u\<lparr>mc := (mc u)\<lparr>locks := (locks (mc u))(LogLock := \<lparr>locked = 0, lname = ''log'', lcpu = None\<rparr>)\<rparr>,
    log_start := start, log_size := to_int (sb_nlog sb), log_dev := 1\<rparr>"
  have f: "disk w = d" "dwrites w = dwrites u" "log_start w = start" "log_dev w = 1"
    using b by (simp_all add: w_def boots_def)
  have has: "has w i m = has u i m" for i m by (simp add: has_def w_def)
  have no: "\<not> has w i m" for i m using b has by (simp add: boots_def)
  have "opened w p {}"
    using b no by (auto simp: boots_def opened_def calm_def cur_def mycpu_of_def me_def cpu_ok_def lkfree_def
        bcache_ok_def uniq_def intr_def w_def)
  moreover have "content w = cdisk (disk w)" using content_miss[of w] no by (auto simp: cdisk_def)
  moreover have "refs w m = 0" for m using refs_miss[of w m] no by blast
  moreover have "busy w = 0" using b by (simp add: busy_def w_def boots_def)
  moreover have "initlog 1 sb u = recover_from_log w"
    by (simp add: initlog_def run_simps w_def st initlock_def upd_lock_def updm_def LOGSIZE_def MAXOPBLOCKS_def BSIZE_def)
  ultimately show ?thesis
    using recover_spec[of w p n] n pl f by (simp add: NBUF_def MAXOPBLOCKS_def)
qed

lemma crashed_recoverable:
  fixes s :: "'z klog_scheme"
  assumes "crashed sb s d" and c: "committable s p" and st: "to_int (sb_logstart sb) = log_start s"
  shows "recoverable (log_start s) (nat (lh_n s)) (lh_block s) (cdisk (disk s)) (content s) (cdisk d)"
  using assms(1)
proof induction
  have pl: "placed_log (log_start s) (nat (lh_n s)) (lh_block s)"
    and same: "\<forall>m. m \<notin> home (lh_block s) ` {..<nat (lh_n s)} \<longrightarrow> content s m = cdisk (disk s) m"
    and q: "quiet_disk (log_start s) (cdisk (disk s)) (cdisk (disk s))"
    using c by (simp_all add: committable_def cdisk_def quiet_disk_def)
  case (in_commit t ws k)
  show ?case
  proof (cases "lh_n s = 0")
    case True
    then have "ws = []" using in_commit by (simp add: commit_def run_simps)
    with q show ?thesis by (simp add: recoverable_def)
  next
    case False
    then obtain n where n: "lh_n s = int n" "0 < n" using c by (auto simp: committable_def elim: nonneg_int_cases)
    then have "clipw ws = commit_writes (log_start s) n (lh_block s) (content s)"
      using commit_spec[OF c n] in_commit by auto
    with commit_recoverable[OF pl q same, of k] n show ?thesis by (simp add: cdisk_writes)
  qed
next
  case (in_recovery d u q v ws k)
  have pl: "placed_log (log_start s) (nat (lh_n s)) (lh_block s)" using c by (simp add: committable_def)
  note r = recover_recoverable[OF pl in_recovery.IH]
  obtain n where n: "head_n (cdisk d (of_int (log_start s))) = int n"
    "placed_log (log_start s) n (head_block (cdisk d (of_int (log_start s))))" using r(3) by blast
  have "clipw ws = recover_writes (log_start s) (cdisk d)"
    using initlog_spec[OF in_recovery.hyps(2) st n] in_recovery.hyps(3,4) by auto
  with r(1)[of k] show ?case by (simp add: cdisk_writes)
qed

text \<open>
  C1: transactions are atomic. \<open>commit\<close> writes every logged block to its home. If the machine
  stops after any of its disk writes, and again during any number of recoveries, the next
  \<open>initlog\<close> succeeds and leaves outside the log either all blocks as they were before the
  transaction or all blocks as the transaction left them, with an empty log.
\<close>

theorem commit_atomic:
  fixes s u :: "'z klog_scheme"
  assumes "committable s p" "to_int (sb_logstart sb) = log_start s"
  shows "(\<exists>t. commit s = Ret () t \<and> lh_n t = 0 \<and> (\<forall>m. m \<notin> log_region (log_start s) \<longrightarrow> clip (disk t m) = content s m)) \<and>
    (crashed sb s d \<and> boots u q d \<longrightarrow> (\<exists>v. initlog 1 sb u = Ret () v \<and> head_n (disk v (of_int (log_start s))) = 0 \<and>
      ((\<forall>m. m \<notin> log_region (log_start s) \<longrightarrow> clip (disk v m) = clip (disk s m)) \<or>
       (\<forall>m. m \<notin> log_region (log_start s) \<longrightarrow> clip (disk v m) = content s m))))"
proof (intro conjI impI)
  let ?st = "log_start s"
  have pl: "placed_log ?st (nat (lh_n s)) (lh_block s)" using assms(1) by (simp add: committable_def)
  show "\<exists>t. commit s = Ret () t \<and> lh_n t = 0 \<and> (\<forall>m. m \<notin> log_region ?st \<longrightarrow> clip (disk t m) = content s m)"
  proof (cases "lh_n s = 0")
    case True
    then show ?thesis using assms(1) by (simp add: commit_def run_simps committable_def)
  next
    case False
    then obtain n where n: "lh_n s = int n" "0 < n" using assms(1) by (auto simp: committable_def elim: nonneg_int_cases)
    let ?ws = "commit_writes ?st n (lh_block s) (content s)"
    obtain t where t: "commit s = Ret () t" "lh_n t = 0" "cdisk (disk t) = apply_writes ?ws (cdisk (disk s))"
      using commit_spec[OF assms(1) n] by blast
    have q: "quiet_disk ?st (cdisk (disk s)) (cdisk (disk s))" and pln: "placed_log ?st n (lh_block s)"
      and same: "\<forall>m. m \<notin> home (lh_block s) ` {..<n} \<longrightarrow> content s m = cdisk (disk s) m"
      using assms(1) n by (simp_all add: committable_def cdisk_def quiet_disk_def)
    note l = log_written[OF pln q same, of "content s (of_int ?st)"]
    have "quiet_disk ?st (content s) (cdisk (disk t))"
      using logged_installed[OF pln l, of "content s" "home (lh_block s)"] by (simp add: t(3) commit_writes_def Let_def)
    then show ?thesis using t(1,2) by (simp add: quiet_disk_def cdisk_def)
  qed
  assume a: "crashed sb s d \<and> boots u q d"
  note r = recover_recoverable[OF pl crashed_recoverable[OF conjunct1[OF a] assms]]
  obtain n where n: "head_n (cdisk d (of_int ?st)) = int n" "placed_log ?st n (head_block (cdisk d (of_int ?st)))"
    using r(3) by blast
  obtain v where v: "initlog 1 sb u = Ret () v" "cdisk (disk v) = apply_writes (recover_writes ?st (cdisk d)) (cdisk d)"
    using initlog_spec[OF conjunct2[OF a] assms(2) n] by blast
  have "quiet_disk ?st (cdisk (disk s)) (cdisk (disk v)) \<or> quiet_disk ?st (content s) (cdisk (disk v))"
    using r(2) by (simp add: v(2))
  then show "\<exists>v. initlog 1 sb u = Ret () v \<and> head_n (disk v (of_int ?st)) = 0 \<and>
      ((\<forall>m. m \<notin> log_region ?st \<longrightarrow> clip (disk v m) = clip (disk s m)) \<or>
       (\<forall>m. m \<notin> log_region ?st \<longrightarrow> clip (disk v m) = content s m))"
    using v(1) by (auto simp: quiet_disk_def cdisk_def)
qed

text \<open>A transaction that has changed block 100; the header on the disk is empty.\<close>

definition ex_commit :: klog where
  "ex_commit = ex_klog\<lparr>bufs := (bufs ex_klog)(3 := \<lparr>bvalid = 1, bdisk = 0, bdev = ROOTDEV, bblockno = 100, brefcnt = 1,
       bdata = (\<lambda>_. 7)\<rparr>), disk := (disk ex_klog)(2 := (\<lambda>_. 0)), lh_n := 1, lh_block := (\<lambda>_. 100)\<rparr>"

lemma ex_klog_has [simp]: "\<not> has ex_klog i m"
  by (simp add: has_def ex_klog_def kbuf.defs ex_kbuf_def kslp.defs ROOTDEV_def)

lemma ex_commit_has: "has ex_commit i m \<longleftrightarrow> i = 3 \<and> m = 100"
  using ex_klog_has[of i m] by (auto simp: has_def ex_commit_def NBUF_def MAXOPBLOCKS_def)

lemma ex_commit_opened: "opened ex_commit 0 {}"
proof -
  obtain xs where xs: "lru (bprev ex_klog) (bnext ex_klog) xs"
    using opened_ok[OF ex_klog_opened] by (auto simp: bcache_ok_def)
  have "bcache_ok ex_commit"
    unfolding bcache_ok_def uniq_def ex_commit_has using xs by (auto simp: ex_commit_def)
  then show ?thesis
    using ex_klog_opened by (simp add: opened_def calm_def cur_def) (simp add: ex_commit_def)
qed

lemma ex_commit_committable: "committable ex_commit 0"
proof -
  have u: "uniq ex_commit" by (simp add: uniq_def ex_commit_has)
  have h: "has ex_commit 3 100" by (simp add: ex_commit_has)
  have c: "content ex_commit m = clip (disk ex_commit m)" if "m \<noteq> 100" for m
    by (rule content_miss) (use that ex_commit_has in auto)
  have r: "refs ex_commit m = of_bool (m = 100)" for m
  proof (cases "m = 100")
    case True
    then show ?thesis using refs_hit[OF u h] by (simp add: ex_commit_def)
  qed (simp add: refs_miss ex_commit_has)
  have "{i. i < NBUF \<and> brefcnt (bufs ex_commit i) \<noteq> 0} = {3}"
    by (auto simp: ex_commit_def ex_klog_def kbuf.defs ex_kbuf_def kslp.defs NBUF_def MAXOPBLOCKS_def)
  then have b: "busy ex_commit = 1" by (simp add: busy_def)
  have f: "log_dev ex_commit = 1" "lh_n ex_commit = 1" "lh_block ex_commit = (\<lambda>_. 100)" "log_start ex_commit = 2"
    "disk ex_commit 2 = (\<lambda>_. 0)"
    by (simp_all add: ex_commit_def ex_klog_def kbuf.defs)
  have "(100 :: u32) \<notin> log_region 2"
  proof
    assume "(100 :: u32) \<in> log_region 2"
    then obtain j where j: "j \<le> LOGSIZE" "(100 :: u32) = of_int (2 + int j)" by (auto simp: log_region_def simp del: of_int_add)
    have "uint (of_int (2 + int j) :: u32) = 2 + int j"
      by (rule uint_of_int_32) (use j(1) in \<open>simp_all add: LOGSIZE_def MAXOPBLOCKS_def\<close>)
    with j show False unfolding j(2)[symmetric] by (simp add: LOGSIZE_def MAXOPBLOCKS_def)
  qed
  then have "placed_log 2 1 (\<lambda>_. 100)"
    by (simp add: placed_log_def home_def inj_on_def LOGSIZE_def MAXOPBLOCKS_def)
  moreover have "head_n (\<lambda>_. 0) = 0" by (simp add: head_n_def get32_def to_int_def)
  ultimately show ?thesis
    using ex_commit_opened c r b f by (auto simp: committable_def home_def NBUF_def MAXOPBLOCKS_def)
qed

theorem commit_atomic_witness:
  "\<exists>t. commit ex_commit = Ret () t \<and> clip (disk t 100) = clip (\<lambda>_. 7) \<and>
     (\<forall>k. \<exists>v. initlog 1 (fs_sb ex_kfs) (ex_klog\<lparr>disk := apply_writes (take k (dwrites t)) (disk ex_commit)\<rparr>) = Ret () v \<and>
        (clip (disk v 100) = clip (\<lambda>_. 100) \<or> clip (disk v 100) = clip (\<lambda>_. 7)))"
proof -
  have sb: "to_int (sb_logstart (fs_sb ex_kfs)) = log_start ex_commit"
    by (simp add: ex_kfs_def klog.defs ex_commit_def ex_klog_def kbuf.defs to_int_def)
  have f: "log_start ex_commit = 2" "disk ex_commit 100 = (\<lambda>_. 100)" "dwrites ex_commit = []"
    "lh_n ex_commit = 1" "lh_block ex_commit = (\<lambda>_. 100)"
    by (simp_all add: ex_commit_def ex_klog_def kbuf.defs ex_kbuf_def kslp.defs)
  have r: "(100 :: u32) \<notin> log_region 2"
    using ex_commit_committable f by (simp add: committable_def placed_log_def home_def)
  have u: "uniq ex_commit" by (simp add: uniq_def ex_commit_has)
  have c: "content ex_commit 100 = clip (\<lambda>_. 7)"
    using content_hit[OF u, of 3 100] ex_commit_has[of 3 100] by (simp add: ex_commit_def)
  note A = commit_atomic[OF ex_commit_committable sb]
  obtain t where t: "commit ex_commit = Ret () t" "clip (disk t 100) = clip (\<lambda>_. 7)"
    using conjunct1[OF A] r f(1) c by auto
  have "\<exists>v. initlog 1 (fs_sb ex_kfs) (ex_klog\<lparr>disk := apply_writes (take k (dwrites t)) (disk ex_commit)\<rparr>) = Ret () v \<and>
        (clip (disk v 100) = clip (\<lambda>_. 100) \<or> clip (disk v 100) = clip (\<lambda>_. 7))" for k
  proof -
    let ?d = "apply_writes (take k (dwrites t)) (disk ex_commit)"
    have "crashed (fs_sb ex_kfs) ex_commit ?d" by (rule in_commit[OF t(1)]) (simp add: f)
    moreover have "boots (ex_klog\<lparr>disk := ?d\<rparr>) 0 ?d"
      using ex_klog_opened ex_klog_has
      by (auto simp: boots_def opened_def calm_def cur_def bcache_ok_def uniq_def has_def busy_def ex_klog_def kbuf.defs
          ex_kbuf_def kslp.defs ROOTDEV_def)
    ultimately obtain v where v: "initlog 1 (fs_sb ex_kfs) (ex_klog\<lparr>disk := ?d\<rparr>) = Ret () v"
      "(\<forall>m. m \<notin> log_region 2 \<longrightarrow> clip (disk v m) = clip (disk ex_commit m)) \<or>
       (\<forall>m. m \<notin> log_region 2 \<longrightarrow> clip (disk v m) = content ex_commit m)"
      using conjunct2[OF A, of ?d "ex_klog\<lparr>disk := ?d\<rparr>" 0] f(1) by auto
    then show ?thesis using r f(2) c by auto
  qed
  with t show ?thesis by blast
qed

end
