(* ===== verification/Ulib.thy ===== *)
theory Ulib
  imports Printf "HOL-Library.Char_ord"
begin

text \<open>
  The library that user programs are linked with (\<open>user/ulib.c\<close>, \<open>user/printf.c\<close>). A C string is
  the \<open>string\<close> before its NUL; what a descriptor still has to deliver is a list of segments, and
  one \<open>read\<close> returns a prefix of the first of them, so that a file is a single segment and a pipe
  or the console can return less than was asked for. An exhausted list is the end of the file.
\<close>

section \<open>Input\<close>

type_synonym input = "string list"

fun uread :: "nat \<Rightarrow> input \<Rightarrow> string \<times> input" where
  "uread n [] = ([], [])"
| "uread n (x # xs) = (take n x, if length x \<le> n then xs else drop n x # xs)"

definition pending :: "input \<Rightarrow> nat" where
  "pending xs = length (concat xs)"

lemma uread_concat: "fst (uread n xs) @ concat (snd (uread n xs)) = concat xs"
  by (cases xs) auto

lemma uread_pending: "fst (uread n xs) \<noteq> [] \<Longrightarrow> pending (snd (uread n xs)) < pending xs"
  by (cases xs) (auto simp: pending_def)

lemma uread_nonempty: "[] \<notin> set xs \<Longrightarrow> [] \<notin> set (snd (uread n xs))"
  by (cases xs) auto

lemma uread_Nil: "[] \<notin> set xs \<Longrightarrow> 0 < n \<Longrightarrow> fst (uread n xs) = [] \<longleftrightarrow> concat xs = []"
  by (cases xs) auto

lemma uread_length: "length (fst (uread n xs)) \<le> n"
  by (cases xs) auto

section \<open>Strings\<close>

fun u_strcpy :: "cstr \<Rightarrow> nat \<Rightarrow> string \<Rightarrow> cstr" where
  "u_strcpy s i [] = s(i := 0)"
| "u_strcpy s i (c # t) = u_strcpy (s(i := of_char c)) (i + 1) t"

fun u_strcmp :: "string \<Rightarrow> string \<Rightarrow> int" where
  "u_strcmp [] [] = 0"
| "u_strcmp [] (d # q) = 0 - of_char d"
| "u_strcmp (c # p) [] = of_char c - 0"
| "u_strcmp (c # p) (d # q) = (if c = d then u_strcmp p q else of_char c - of_char d)"

fun u_strlen :: "string \<Rightarrow> nat" where
  "u_strlen [] = 0"
| "u_strlen (c # s) = u_strlen s + 1"

text \<open>\<open>strchr\<close> never finds the NUL.\<close>

fun u_strchr :: "string \<Rightarrow> char \<Rightarrow> string option" where
  "u_strchr [] c = None"
| "u_strchr (d # s) c = (if d = c then Some (d # s) else u_strchr s c)"

definition u_memset :: "memory \<Rightarrow> addr \<Rightarrow> u32 \<Rightarrow> nat \<Rightarrow> memory" where
  "u_memset m dst c n = memset_loop m dst (ucast c) [0..<n]"

fun gets_loop :: "nat \<Rightarrow> input \<Rightarrow> string \<times> input" where
  "gets_loop 0 xs = ([], xs)"
| "gets_loop (Suc k) xs = (case uread 1 xs of
      ([], ys) \<Rightarrow> ([], ys)
    | (c # _, ys) \<Rightarrow>
        if c = CHR 0x0A \<or> c = CHR 0x0D then ([c], ys)
        else let (s, zs) = gets_loop k ys in (c # s, zs))"

definition u_gets :: "nat \<Rightarrow> input \<Rightarrow> string \<times> input" where
  "u_gets nbuf xs = gets_loop (nbuf - 1) xs"

fun atoi_loop :: "u32 \<Rightarrow> string \<Rightarrow> u32" where
  "atoi_loop n [] = n"
| "atoi_loop n (c # s) =
     (if CHR ''0'' \<le> c \<and> c \<le> CHR ''9'' then atoi_loop (n * 10 + of_char c - of_char CHR ''0'') s else n)"

definition atoi :: "string \<Rightarrow> int" where
  "atoi s = sint (atoi_loop 0 s)"

definition u_memmove :: "memory \<Rightarrow> addr \<Rightarrow> addr \<Rightarrow> nat \<Rightarrow> memory" where
  "u_memmove m dst src n =
     (if src > dst then copy_forward m dst src n
      else copy_backward m (dst + of_nat n) (src + of_nat n) n)"

fun u_memcmp :: "cstr \<Rightarrow> cstr \<Rightarrow> nat \<Rightarrow> int" where
  "u_memcmp p q 0 = 0"
| "u_memcmp p q (Suc n) =
     (if p 0 \<noteq> q 0 then uint (p 0) - uint (q 0)
      else u_memcmp (\<lambda>i. p (i + 1)) (\<lambda>i. q (i + 1)) n)"

definition u_memcpy :: "memory \<Rightarrow> addr \<Rightarrow> addr \<Rightarrow> nat \<Rightarrow> memory" where
  "u_memcpy m dst src n = u_memmove m dst src n"

section \<open>Printing\<close>

text \<open>The characters that are written, or \<open>None\<close> when an argument is missing or has another type.\<close>

definition udigits :: string where
  "udigits = ''0123456789ABCDEF''"

function u_digits :: "nat \<Rightarrow> nat \<Rightarrow> string" where
  "u_digits x base =
     (if 2 \<le> base
      then (udigits ! (x mod base)) # (if x div base \<noteq> 0 then u_digits (x div base) base else [])
      else [])"
  by pat_completeness auto
termination
  by (relation "measure fst") (auto intro!: div_less_dividend simp: div_greater_zero_iff)

declare u_digits.simps [simp del]

definition u_printint :: "u32 \<Rightarrow> nat \<Rightarrow> bool \<Rightarrow> string" where
  "u_printint xx base sg =
     (let neg = sg \<and> sint xx < 0; x = (if neg then - xx else xx) in
      rev (u_digits (unat x) base @ (if neg then ''-'' else [])))"

fun u_printptr_loop :: "nat \<Rightarrow> u64 \<Rightarrow> string" where
  "u_printptr_loop 0 x = []"
| "u_printptr_loop (Suc n) x = (udigits ! unat (drop_bit 60 x)) # u_printptr_loop n (push_bit 4 x)"

definition u_printptr :: "u64 \<Rightarrow> string" where
  "u_printptr x = ''0x'' @ u_printptr_loop 16 x"

text \<open>The next argument as an \<open>int\<close>, a \<open>uint64\<close> (cut to an \<open>int\<close> when it goes to \<open>printint\<close>) or a string.\<close>

fun va_int :: "vararg list \<Rightarrow> (u32 \<times> vararg list) option" where
  "va_int (VInt i # ap) = Some (i, ap)"
| "va_int _ = None"

fun va_long :: "vararg list \<Rightarrow> (u64 \<times> vararg list) option" where
  "va_long (VLong x # ap) = Some (x, ap)"
| "va_long _ = None"

fun va_str :: "vararg list \<Rightarrow> (string \<times> vararg list) option" where
  "va_str (VStr s # ap) = Some (case s of None \<Rightarrow> ''(null)'' | Some t \<Rightarrow> t, ap)"
| "va_str _ = None"

definition emit :: "('a \<times> vararg list) option \<Rightarrow> ('a \<Rightarrow> string) \<Rightarrow> (vararg list \<Rightarrow> string option) \<Rightarrow> string option" where
  "emit a f k = (case a of None \<Rightarrow> None | Some (x, ap) \<Rightarrow> map_option (\<lambda>t. f x @ t) (k ap))"

lemma emit_cong [fundef_cong]:
  "a = b \<Longrightarrow> f = g \<Longrightarrow> (\<And>x ap. b = Some (x, ap) \<Longrightarrow> k ap = l ap) \<Longrightarrow> emit a f k = emit b g l"
  by (auto simp: emit_def split: option.split)

function vprintf :: "string \<Rightarrow> vararg list \<Rightarrow> string option" where
  "vprintf [] ap = Some []"
| "vprintf (c # fmt) ap =
     (if c \<noteq> CHR ''%'' then map_option (\<lambda>t. c # t) (vprintf fmt ap)
      else let c0 = char_at fmt 0; c1 = char_at fmt 1; c2 = char_at fmt 2 in
      if c0 = Some CHR ''d''
      then emit (va_int ap) (\<lambda>x. u_printint x 10 True) (vprintf (drop 1 fmt))
      else if c0 = Some CHR ''l'' \<and> c1 = Some CHR ''d''
      then emit (va_long ap) (\<lambda>x. u_printint (ucast x) 10 True) (vprintf (drop 2 fmt))
      else if c0 = Some CHR ''l'' \<and> c1 = Some CHR ''l'' \<and> c2 = Some CHR ''d''
      then emit (va_long ap) (\<lambda>x. u_printint (ucast x) 10 True) (vprintf (drop 3 fmt))
      else if c0 = Some CHR ''u''
      then emit (va_int ap) (\<lambda>x. u_printint x 10 False) (vprintf (drop 1 fmt))
      else if c0 = Some CHR ''l'' \<and> c1 = Some CHR ''u''
      then emit (va_long ap) (\<lambda>x. u_printint (ucast x) 10 False) (vprintf (drop 2 fmt))
      else if c0 = Some CHR ''l'' \<and> c1 = Some CHR ''l'' \<and> c2 = Some CHR ''u''
      then emit (va_long ap) (\<lambda>x. u_printint (ucast x) 10 False) (vprintf (drop 3 fmt))
      else if c0 = Some CHR ''x''
      then emit (va_int ap) (\<lambda>x. u_printint x 16 False) (vprintf (drop 1 fmt))
      else if c0 = Some CHR ''l'' \<and> c1 = Some CHR ''x''
      then emit (va_long ap) (\<lambda>x. u_printint (ucast x) 16 False) (vprintf (drop 2 fmt))
      else if c0 = Some CHR ''l'' \<and> c1 = Some CHR ''l'' \<and> c2 = Some CHR ''x''
      then emit (va_long ap) (\<lambda>x. u_printint (ucast x) 16 False) (vprintf (drop 3 fmt))
      else if c0 = Some CHR ''p''
      then emit (va_long ap) u_printptr (vprintf (drop 1 fmt))
      else if c0 = Some CHR ''s''
      then emit (va_str ap) (\<lambda>t. t) (vprintf (drop 1 fmt))
      else case c0 of
        None \<Rightarrow> Some []
      | Some d \<Rightarrow>
          if d = CHR ''%'' then map_option (\<lambda>t. ''%'' @ t) (vprintf (drop 1 fmt) ap)
          else map_option (\<lambda>t. CHR ''%'' # d # t) (vprintf (drop 1 fmt) ap))"
  by pat_completeness auto
termination
  by (relation "measure (\<lambda>(fmt, ap). length fmt)") auto

section \<open>Numbers out and in\<close>

lemma udigit:
  assumes "d < 10"
  shows "CHR ''0'' \<le> udigits ! d" "udigits ! d \<le> CHR ''9''" "(of_char (udigits ! d) :: u32) = of_nat d + 48"
proof -
  have "d \<in> {0, 1, 2, 3, 4, 5, 6, 7, 8, 9}" using assms by auto
  then show "CHR ''0'' \<le> udigits ! d" "udigits ! d \<le> CHR ''9''" "(of_char (udigits ! d) :: u32) = of_nat d + 48"
    by (auto simp: udigits_def less_eq_char_def)
qed

definition all_digits :: "string \<Rightarrow> bool" where
  "all_digits s = list_all (\<lambda>c. CHR ''0'' \<le> c \<and> c \<le> CHR ''9'') s"

lemma atoi_loop_append: "all_digits s \<Longrightarrow> atoi_loop n (s @ t) = atoi_loop (atoi_loop n s) t"
  by (induction s arbitrary: n) (auto simp: all_digits_def)

lemma u_digits_10: "all_digits (rev (u_digits x 10))" "atoi_loop 0 (rev (u_digits x 10)) = of_nat x"
proof (induction x "10 :: nat" rule: u_digits.induct)
  case (1 x)
  have d: "x mod 10 < 10" by simp
  let ?r = "if x div 10 \<noteq> 0 then u_digits (x div 10) 10 else []"
  have u: "u_digits x 10 = (udigits ! (x mod 10)) # ?r" by (subst u_digits.simps) simp
  have r: "all_digits (rev ?r)" "atoi_loop 0 (rev ?r) = of_nat (x div 10)"
    using 1 by (auto simp: all_digits_def)
  show "all_digits (rev (u_digits x 10))" using r(1) udigit[OF d] by (simp add: u all_digits_def)
  have "of_nat x = (of_nat (x div 10 * 10 + x mod 10) :: u32)" by simp
  then show "atoi_loop 0 (rev (u_digits x 10)) = of_nat x"
    unfolding u using udigit[OF d] r atoi_loop_append[OF r(1), of 0 "[udigits ! (x mod 10)]"]
    by (simp only: rev.simps of_nat_add of_nat_mult) simp
qed

text \<open>
  C33: \<open>atoi\<close> reads back what \<open>printf\<close> prints with \<open>%d\<close>, for every \<open>int\<close> that is not negative.
\<close>

theorem atoi_printint:
  assumes "0 \<le> sint x"
  shows "vprintf ''%d'' [VInt x] = Some (u_printint x 10 True) \<and> atoi (u_printint x 10 True) = sint x"
proof
  show "vprintf ''%d'' [VInt x] = Some (u_printint x 10 True)"
    by (simp add: char_at_def emit_def)
  show "atoi (u_printint x 10 True) = sint x"
    using assms u_digits_10(2)[of "unat x"] by (simp add: atoi_def u_printint_def Let_def)
qed

theorem atoi_printint_witness: "atoi (u_printint 2147483647 10 True) = 2147483647"
  using atoi_printint[of 2147483647] by simp

text \<open>A \<open>uint64\<close> argument loses its upper half on the way to \<open>printint\<close>.\<close>

lemma vprintf_ld_truncates: "vprintf ''%ld'' [VLong (2 ^ 32 + 7)] = Some ''7''"
  by (simp add: char_at_def emit_def u_printint_def udigits_def u_digits.simps)

end
