(* ===== verification/Grep.thy ===== *)
theory Grep
  imports Ulib
begin

text \<open>
  \<open>user/grep.c\<close>: the pattern matcher with \<open>^\<close>, \<open>.\<close>, \<open>*\<close> and \<open>$\<close>, and the loop that filters the lines
  of its input through a buffer of 1024 bytes. The matcher is proved to decide the language of the
  pattern, the loop to print exactly the lines that match, however the input arrives.
\<close>

section \<open>The matcher\<close>

function matchhere :: "string \<Rightarrow> string \<Rightarrow> bool" and matchstar :: "char \<Rightarrow> string \<Rightarrow> string \<Rightarrow> bool" where
  "matchhere re line =
     (case re of
        [] \<Rightarrow> True
      | c # re1 \<Rightarrow>
          if re1 \<noteq> [] \<and> hd re1 = CHR ''*'' then matchstar c (tl re1) line
          else if c = CHR ''$'' \<and> re1 = [] then line = []
          else (case line of
              [] \<Rightarrow> False
            | t # ts \<Rightarrow> (c = CHR ''.'' \<or> c = t) \<and> matchhere re1 ts))"
| "matchstar c re line =
     (matchhere re line \<or>
      (case line of
         [] \<Rightarrow> False
       | t # ts \<Rightarrow> (t = c \<or> c = CHR ''.'') \<and> matchstar c re ts))"
  by pat_completeness auto
termination
  by (relation "measures [case_sum (\<lambda>(re, line). length re) (\<lambda>(c, re, line). length re),
        case_sum (\<lambda>(re, line). length line) (\<lambda>(c, re, line). length line), case_sum (\<lambda>_. 0) (\<lambda>_. 1)]") auto

declare matchhere.simps [simp del] matchstar.simps [simp del]

fun match_from :: "string \<Rightarrow> string \<Rightarrow> bool" where
  "match_from re [] = matchhere re []"
| "match_from re (t # ts) = (matchhere re (t # ts) \<or> match_from re ts)"

definition match :: "string \<Rightarrow> string \<Rightarrow> bool" where
  "match re line =
     (if re \<noteq> [] \<and> hd re = CHR ''^'' then matchhere (tl re) line else match_from re line)"

section \<open>The loop over the input\<close>

definition GREP_BUF :: nat where
  "GREP_BUF = 1024"

text \<open>
  The inner loop: the lines in the buffer, what is printed and what remains. \<open>strchr\<close> stops at a
  NUL byte.
\<close>

fun split_line :: "string \<Rightarrow> (string \<times> string) option" where
  "split_line [] = None"
| "split_line (c # s) =
     (if c = CHR 0x00 then None
      else if c = CHR 0x0A then Some ([], s)
      else map_option (\<lambda>(l, r). (c # l, r)) (split_line s))"

lemma uread_progress: "(r, ys) = uread n xs \<Longrightarrow> r \<noteq> [] \<Longrightarrow> pending ys < pending xs"
  using uread_pending[of n xs] by (metis fst_conv snd_conv)

lemma split_line_less: "split_line s = Some (l, r) \<Longrightarrow> length r < length s"
  by (induction s arbitrary: l) (fastforce split: if_splits)+

function grep_lines :: "string \<Rightarrow> string \<Rightarrow> string \<times> string" where
  "grep_lines re p = (case split_line p of
      None \<Rightarrow> ([], p)
    | Some (l, r) \<Rightarrow>
        let (out, rest') = grep_lines re r in
        ((if match re l then l @ [CHR 0x0A] else []) @ out, rest'))"
  by pat_completeness auto
termination
  by (relation "measure (\<lambda>(re, p). length p)") (auto dest: split_line_less)

declare grep_lines.simps [simp del]

function grep_loop :: "string \<Rightarrow> string \<Rightarrow> input \<Rightarrow> string" where
  "grep_loop re buf xs =
     (let (r, ys) = uread (GREP_BUF - length buf - 1) xs in
      if r = [] then []
      else let (out, rest') = grep_lines re (buf @ r) in out @ grep_loop re rest' ys)"
  by pat_completeness auto
termination
  by (relation "measure (\<lambda>(re, buf, xs). pending xs)") (auto intro: uread_progress)

declare grep_loop.simps [simp del]

definition grep :: "string \<Rightarrow> input \<Rightarrow> string" where
  "grep re xs = grep_loop re [] xs"

section \<open>The language of a pattern\<close>

datatype ritem = One char | Many char | Final

fun rx_items :: "string \<Rightarrow> ritem list" where
  "rx_items [] = []"
| "rx_items [c] = (if c = CHR ''$'' then [Final] else [One c])"
| "rx_items (c # d # re) = (if d = CHR ''*'' then Many c # rx_items re else One c # rx_items (d # re))"

definition accepts :: "char \<Rightarrow> char set" where
  "accepts c = (if c = CHR ''.'' then UNIV else {c})"

definition conc :: "string set \<Rightarrow> string set \<Rightarrow> string set" where
  "conc A B = {u @ v | u v. u \<in> A \<and> v \<in> B}"

fun lang :: "ritem list \<Rightarrow> string set" where
  "lang [] = {[]}"
| "lang (One c # is) = conc {[t] | t. t \<in> accepts c} (lang is)"
| "lang (Many c # is) = conc (lists (accepts c)) (lang is)"
| "lang (Final # is) = lang is"

definition starts :: "string \<Rightarrow> ritem list \<Rightarrow> bool" where
  "starts line is \<longleftrightarrow> (\<exists>u v. line = u @ v \<and> u \<in> lang is \<and> (Final \<in> set is \<longrightarrow> v = []))"

lemma starts_Nil [simp]: "starts line []"
  by (simp add: starts_def)

lemma starts_One_iff:
  "starts line (One c # is) \<longleftrightarrow> (\<exists>t w v. line = t # w @ v \<and> t \<in> accepts c \<and> w \<in> lang is \<and> (Final \<in> set is \<longrightarrow> v = []))"
proof
  assume "starts line (One c # is)"
  then obtain u v where u: "line = u @ v" "u \<in> conc {[t] | t. t \<in> accepts c} (lang is)" "Final \<in> set is \<longrightarrow> v = []"
    by (auto simp: starts_def)
  from u(2) obtain t w where "u = [t] @ w" "t \<in> accepts c" "w \<in> lang is" unfolding conc_def by blast
  with u show "\<exists>t w v. line = t # w @ v \<and> t \<in> accepts c \<and> w \<in> lang is \<and> (Final \<in> set is \<longrightarrow> v = [])"
    by (intro exI[of _ t] exI[of _ w] exI[of _ v]) simp
next
  assume "\<exists>t w v. line = t # w @ v \<and> t \<in> accepts c \<and> w \<in> lang is \<and> (Final \<in> set is \<longrightarrow> v = [])"
  then obtain t w v where a: "line = (t # w) @ v" "t \<in> accepts c" "w \<in> lang is" "Final \<in> set is \<longrightarrow> v = []" by auto
  then have "[t] @ w \<in> conc {[t] | t. t \<in> accepts c} (lang is)" unfolding conc_def by blast
  with a show "starts line (One c # is)" unfolding starts_def by (intro exI[of _ "t # w"] exI[of _ v]) simp
qed

lemma starts_One: "starts line (One c # is) \<longleftrightarrow> (case line of [] \<Rightarrow> False | t # ts \<Rightarrow> t \<in> accepts c \<and> starts ts is)"
  unfolding starts_One_iff starts_def[of _ "is"] by (cases line) auto

lemma starts_Many_iff:
  "starts line (Many c # is) \<longleftrightarrow>
    (\<exists>x w v. line = x @ w @ v \<and> set x \<subseteq> accepts c \<and> w \<in> lang is \<and> (Final \<in> set is \<longrightarrow> v = []))"
proof
  assume "starts line (Many c # is)"
  then obtain u v where "line = u @ v" "u \<in> conc (lists (accepts c)) (lang is)" "Final \<in> set is \<longrightarrow> v = []"
    by (auto simp: starts_def)
  moreover then obtain x w where "u = x @ w" "set x \<subseteq> accepts c" "w \<in> lang is" by (auto simp: conc_def lists_eq_set)
  ultimately show "\<exists>x w v. line = x @ w @ v \<and> set x \<subseteq> accepts c \<and> w \<in> lang is \<and> (Final \<in> set is \<longrightarrow> v = [])"
    by (intro exI[of _ x] exI[of _ w] exI[of _ v]) simp
next
  assume "\<exists>x w v. line = x @ w @ v \<and> set x \<subseteq> accepts c \<and> w \<in> lang is \<and> (Final \<in> set is \<longrightarrow> v = [])"
  then obtain x w v where a: "line = x @ w @ v" "set x \<subseteq> accepts c" "w \<in> lang is" "Final \<in> set is \<longrightarrow> v = []" by blast
  then have "x @ w \<in> conc (lists (accepts c)) (lang is)" unfolding conc_def lists_eq_set by blast
  with a show "starts line (Many c # is)" unfolding starts_def by (intro exI[of _ "x @ w"] exI[of _ v]) simp
qed

lemma starts_Many:
  "starts line (Many c # is) \<longleftrightarrow> starts line is \<or> (case line of [] \<Rightarrow> False | t # ts \<Rightarrow> t \<in> accepts c \<and> starts ts (Many c # is))"
proof
  assume "starts line (Many c # is)"
  then obtain x w v where a: "line = x @ w @ v" "set x \<subseteq> accepts c" "w \<in> lang is" "Final \<in> set is \<longrightarrow> v = []"
    by (auto simp: starts_Many_iff)
  then show "starts line is \<or> (case line of [] \<Rightarrow> False | t # ts \<Rightarrow> t \<in> accepts c \<and> starts ts (Many c # is))"
  proof (cases x)
    case Nil
    with a have "starts line is" unfolding starts_def by (intro exI[of _ w] exI[of _ v]) simp
    then show ?thesis ..
  next
    case (Cons t x')
    with a have "starts (x' @ w @ v) (Many c # is)"
      unfolding starts_Many_iff by (intro exI[of _ x'] exI[of _ w] exI[of _ v]) simp
    with Cons a show ?thesis by simp
  qed
next
  assume "starts line is \<or> (case line of [] \<Rightarrow> False | t # ts \<Rightarrow> t \<in> accepts c \<and> starts ts (Many c # is))"
  then show "starts line (Many c # is)"
  proof
    assume "starts line is"
    then obtain u v where "line = u @ v" "u \<in> lang is" "Final \<in> set is \<longrightarrow> v = []" by (auto simp: starts_def)
    then show ?thesis unfolding starts_Many_iff by (intro exI[of _ "[]"] exI[of _ u] exI[of _ v]) simp
  next
    assume "case line of [] \<Rightarrow> False | t # ts \<Rightarrow> t \<in> accepts c \<and> starts ts (Many c # is)"
    then obtain t ts x w v where a: "line = t # ts" "t \<in> accepts c" "ts = x @ w @ v" "set x \<subseteq> accepts c" "w \<in> lang is"
      "Final \<in> set is \<longrightarrow> v = []" by (auto simp: starts_Many_iff split: list.splits)
    then show ?thesis unfolding starts_Many_iff by (intro exI[of _ "t # x"] exI[of _ w] exI[of _ v]) simp
  qed
qed

lemma matchstar_starts:
  assumes "\<And>line. matchhere re line \<longleftrightarrow> starts line is"
  shows "matchstar c re line \<longleftrightarrow> starts line (Many c # is)"
proof (induction line)
  case Nil
  then show ?case using assms starts_Many[of "[]" c "is"] by (subst matchstar.simps) simp
next
  case (Cons t ts)
  then show ?case using assms starts_Many[of "t # ts" c "is"]
    by (subst matchstar.simps) (auto simp: accepts_def)
qed

lemma matchhere_starts: "matchhere re line \<longleftrightarrow> starts line (rx_items re)"
proof (induction re arbitrary: line rule: rx_items.induct)
  case 1
  then show ?case by (subst matchhere.simps) (simp add: starts_def)
next
  case (2 c)
  show ?case
  proof (cases "c = CHR ''$''")
    case True
    then show ?thesis by (subst matchhere.simps) (simp add: starts_def)
  next
    case False
    then show ?thesis
      by (subst matchhere.simps) (auto simp: starts_One matchhere.simps[of "[]"] accepts_def split: list.split)
  qed
next
  case (3 c d re)
  show ?case
  proof (cases "d = CHR ''*''")
    case True
    with matchstar_starts[OF 3(1)[OF True]] show ?thesis by (subst matchhere.simps) simp
  next
    case False
    with 3(2) show ?thesis
      by (subst matchhere.simps) (auto simp: starts_One accepts_def split: list.split)
  qed
qed

lemma match_from_iff: "match_from re line \<longleftrightarrow> (\<exists>pre rest'. line = pre @ rest' \<and> matchhere re rest')"
  by (induction line) (auto simp: Cons_eq_append_conv)

definition anchored :: "string \<Rightarrow> bool" where
  "anchored re \<longleftrightarrow> re \<noteq> [] \<and> hd re = CHR ''^''"

text \<open>
  C21: \<open>match\<close> decides whether some part of the line belongs to the language of the pattern: the
  whole line up to its end if the pattern ends in \<open>$\<close>, from its beginning if it starts with \<open>^\<close>.
\<close>

theorem match_language:
  "match re line \<longleftrightarrow> (let is = rx_items (if anchored re then tl re else re) in
     \<exists>pre u post. line = pre @ u @ post \<and> u \<in> lang is \<and> (anchored re \<longrightarrow> pre = []) \<and> (Final \<in> set is \<longrightarrow> post = []))"
proof (cases "anchored re")
  case True
  then have "match re line \<longleftrightarrow> starts line (rx_items (tl re))"
    by (simp add: match_def anchored_def matchhere_starts)
  with True show ?thesis by (simp add: starts_def Let_def)
next
  case False
  then have "match re line \<longleftrightarrow> (\<exists>pre rest'. line = pre @ rest' \<and> starts rest' (rx_items re))"
    by (auto simp: match_def anchored_def match_from_iff matchhere_starts)
  also have "\<dots> \<longleftrightarrow> (\<exists>pre u post. line = pre @ u @ post \<and> u \<in> lang (rx_items re) \<and>
      (Final \<in> set (rx_items re) \<longrightarrow> post = []))"
    unfolding starts_def by blast
  finally show ?thesis using False by (simp add: Let_def)
qed

theorem match_language_witness: "match ''a.$'' ''xab''"
proof -
  have "''ab'' \<in> lang [One CHR ''a'', One CHR ''.'', Final]"
    by (auto simp: conc_def accepts_def)
  then have "\<exists>pre u post. ''xab'' = pre @ u @ post \<and> u \<in> lang [One CHR ''a'', One CHR ''.'', Final] \<and> post = []"
    by (intro exI[of _ "''x''"] exI[of _ "''ab''"] exI[of _ "[]"]) simp
  then show ?thesis
    using match_language[of "''a.$''" "''xab''"] by (simp add: anchored_def Let_def)
qed

section \<open>The lines of a text\<close>

text \<open>The lines that end in a newline, without it, and what follows the last newline.\<close>

fun nl_lines :: "string \<Rightarrow> string \<Rightarrow> string list" where
  "nl_lines acc [] = []"
| "nl_lines acc (c # s) = (if c = CHR 0x0A then acc # nl_lines [] s else nl_lines (acc @ [c]) s)"

fun nl_tail :: "string \<Rightarrow> string \<Rightarrow> string" where
  "nl_tail acc [] = acc"
| "nl_tail acc (c # s) = (if c = CHR 0x0A then nl_tail [] s else nl_tail (acc @ [c]) s)"

lemma nl_append: "nl_lines acc (s @ q) = nl_lines acc s @ nl_lines (nl_tail acc s) q" "nl_tail acc (s @ q) = nl_tail (nl_tail acc s) q"
  by (induction s arbitrary: acc) auto

lemma nl_none: "CHR 0x0A \<notin> set s \<Longrightarrow> nl_lines acc s = []" "CHR 0x0A \<notin> set s \<Longrightarrow> nl_tail acc s = acc @ s"
  by (induction s arbitrary: acc) auto

lemma nl_tail_clean: "CHR 0x0A \<notin> set acc \<Longrightarrow> CHR 0x0A \<notin> set (nl_tail acc s)"
  by (induction s arbitrary: acc) auto

lemma nl_tail_set: "set (nl_tail acc s) \<subseteq> set acc \<union> set s"
  by (induction s arbitrary: acc) (auto split: if_splits, fastforce+)

lemma nl_first_long: "nl_lines acc s = l # ls \<Longrightarrow> length acc \<le> length l"
proof (induction s arbitrary: acc)
  case (Cons c s)
  then show ?case using Cons.IH[of "acc @ [c]"] by (auto split: if_splits)
qed simp

lemma split_line_None: "CHR 0x00 \<notin> set s \<Longrightarrow> split_line s = None \<Longrightarrow> CHR 0x0A \<notin> set s"
  by (induction s) (auto split: if_splits)

lemma split_line_Some: "split_line s = Some (l, r) \<Longrightarrow> s = l @ CHR 0x0A # r \<and> CHR 0x0A \<notin> set l"
  by (induction s arbitrary: l) (auto split: if_splits)

definition printed :: "string \<Rightarrow> string list \<Rightarrow> string" where
  "printed re ls = concat (map (\<lambda>l. l @ [CHR 0x0A]) (filter (match re) ls))"

lemma grep_lines_spec:
  "CHR 0x00 \<notin> set p \<Longrightarrow> grep_lines re p = (printed re (nl_lines [] p), nl_tail [] p)"
proof (induction re p rule: grep_lines.induct)
  case (1 re p)
  show ?case
  proof (cases "split_line p")
    case None
    then show ?thesis using 1(2) split_line_None[of p] nl_none[of p "[]"] by (subst grep_lines.simps) (simp add: printed_def)
  next
    case (Some lr)
    then obtain l r where lr: "split_line p = Some (l, r)" by (cases lr) simp
    note s = split_line_Some[OF lr]
    have "grep_lines re r = (printed re (nl_lines [] r), nl_tail [] r)" using 1 lr s by simp
    then show ?thesis
      using s lr nl_append[of "[]" l "CHR 0x0A # r"] nl_none[of l "[]"]
      by (subst grep_lines.simps) (simp add: printed_def)
  qed
qed

lemma grep_loop_spec:
  assumes "CHR 0x00 \<notin> set (buf @ concat xs)" "CHR 0x0A \<notin> set buf" "[] \<notin> set xs"
    and "\<And>l. l \<in> set (nl_lines buf (concat xs)) \<Longrightarrow> length l < GREP_BUF - 1"
  shows "grep_loop re buf xs = printed re (nl_lines buf (concat xs))"
  using assms
proof (induction re buf xs rule: grep_loop.induct)
  case (1 re buf xs)
  let ?n = "GREP_BUF - length buf - 1"
  obtain r ys where u: "uread ?n xs = (r, ys)" by fastforce
  have cat: "r @ concat ys = concat xs" using uread_concat[of ?n xs] u by simp
  show ?case
  proof (cases "r = []")
    case True
    have "nl_lines buf (concat xs) = []"
    proof (cases "0 < ?n")
      case True
      have "concat xs = []" using uread_Nil[OF 1(4) True] u \<open>r = []\<close> by (simp only: fst_conv simp_thms)
      then show ?thesis by (simp only: nl_lines.simps)
    next
      case False
      show ?thesis
      proof (cases "nl_lines buf (concat xs)")
        case (Cons l ls)
        then have "length buf \<le> length l" "length l < GREP_BUF - 1" using nl_first_long 1(5)[of l] by auto
        with False show ?thesis by simp
      qed
    qed
    then show ?thesis using True u by (subst grep_loop.simps) (simp add: printed_def)
  next
    case False
    let ?t = "nl_tail buf r"
    have b: "nl_lines [] (buf @ r) = nl_lines buf r" "nl_tail [] (buf @ r) = ?t"
      using nl_append[of "[]" buf r] nl_none[OF 1(3), of "[]"] by simp_all
    have nul: "CHR 0x00 \<notin> set (buf @ r)" using 1(2) cat by (metis Un_iff set_append)
    have g: "grep_lines re (buf @ r) = (printed re (nl_lines buf r), ?t)"
      using grep_lines_spec[OF nul, of re] b by simp
    have t: "CHR 0x00 \<notin> set (?t @ concat ys)"
    proof -
      have "set (concat ys) \<subseteq> set (concat xs)" unfolding cat[symmetric] by simp
      then show ?thesis using nl_tail_set[of buf r] nul 1(2) by auto
    qed
    have all: "nl_lines buf (concat xs) = nl_lines buf r @ nl_lines ?t (concat ys)"
      using nl_append(1)[of buf r "concat ys"] cat by simp
    have "grep_loop re ?t ys = printed re (nl_lines ?t (concat ys))"
      by (rule 1(1)[OF u[symmetric] refl False g[symmetric] refl t nl_tail_clean[OF 1(3)]])
        (use uread_nonempty[OF 1(4), of ?n] u 1(5) all in auto)
    then show ?thesis using u False g all by (subst grep_loop.simps) (simp add: printed_def)
  qed
qed

text \<open>
  C22: \<open>grep\<close> prints exactly the lines that match, in order, however the reads divide the input,
  if it holds no NUL byte and every line fits the buffer with its newline. The loop ends.
\<close>

theorem grep_prints_matches:
  assumes "CHR 0x00 \<notin> set (concat xs)" "[] \<notin> set xs" "\<forall>l \<in> set (nl_lines [] (concat xs)). length l < GREP_BUF - 1"
  shows "grep re xs = concat (map (\<lambda>l. l @ [CHR 0x0A]) (filter (match re) (nl_lines [] (concat xs))))"
  using grep_loop_spec[of "[]" xs re] assms by (simp add: grep_def printed_def)

theorem grep_prints_matches_witness:
  "grep ''^b*c$'' [''bbc'', CHR 0x0A # ''ac'', [CHR 0x0A], ''c'' @ [CHR 0x0A]] = ''bbc'' @ [CHR 0x0A] @ ''c'' @ [CHR 0x0A]"
proof -
  have "match ''^b*c$'' ''bbc''" "\<not> match ''^b*c$'' ''ac''" "match ''^b*c$'' ''c''"
    by (simp_all add: match_def matchhere.simps matchstar.simps)
  then show ?thesis
    using grep_prints_matches[of "[''bbc'', CHR 0x0A # ''ac'', [CHR 0x0A], ''c'' @ [CHR 0x0A]]" "''^b*c$''"]
    by (simp add: GREP_BUF_def)
qed

end
