(* ===== verification/Utils.thy ===== *)
theory Utils
  imports Grep
begin

text \<open>
  Small user programs: \<open>cat\<close>, \<open>echo\<close>, \<open>wc\<close>, \<open>tail\<close>, \<open>diff\<close>, \<open>fact\<close> and \<open>add\<close>. A program is the text that
  it prints, on both output descriptors, and its exit status; the files that \<open>open\<close> finds are
  given by a function from names to their input, which is \<open>None\<close> where \<open>open\<close> fails. \<open>argv\<close> is
  the list of arguments, the program's name first.
\<close>

type_synonym result = "string \<times> int"

definition nl :: string where
  "nl = [CHR 0x0A]"

text \<open>\<open>printf\<close> with arguments of the right types; the programs here pass no others.\<close>

definition uprintf :: "string \<Rightarrow> vararg list \<Rightarrow> string" where
  "uprintf fmt ap = (case vprintf fmt ap of None \<Rightarrow> [] | Some t \<Rightarrow> t)"

definition vstr :: "string \<Rightarrow> vararg" where
  "vstr s = VStr (Some s)"

definition vint :: "int \<Rightarrow> vararg" where
  "vint i = VInt (of_int i)"

text \<open>A buffer read as a C string ends at its first NUL.\<close>

definition cstring :: "string \<Rightarrow> string" where
  "cstring s = takeWhile (\<lambda>c. c \<noteq> CHR 0x00) s"

definition arg0 :: "string \<Rightarrow> nat \<Rightarrow> char" where
  "arg0 s i = (if i < length s then s ! i else CHR 0x00)"

definition is_help :: "string \<Rightarrow> bool" where
  "is_help a \<longleftrightarrow> arg0 a 0 = CHR ''?'' \<and> arg0 a 1 = CHR 0x00"

section \<open>cat and echo\<close>

function cat :: "input \<Rightarrow> string" where
  "cat xs = (let (r, ys) = uread 512 xs in if r = [] then [] else r @ cat ys)"
  by pat_completeness auto
termination
  by (relation "measure pending") (auto intro: uread_progress)

declare cat.simps [simp del]

fun cat_files :: "(string \<Rightarrow> input option) \<Rightarrow> string list \<Rightarrow> result" where
  "cat_files opn [] = ([], 0)"
| "cat_files opn (a # as) = (case opn a of
      None \<Rightarrow> (uprintf (''cat: cannot open %s'' @ nl) [vstr a], 1)
    | Some xs \<Rightarrow> let (out, st) = cat_files opn as in (cat xs @ out, st))"

definition cat_main :: "(string \<Rightarrow> input option) \<Rightarrow> input \<Rightarrow> string list \<Rightarrow> result" where
  "cat_main opn stdin argv = (if length argv \<le> 1 then (cat stdin, 0) else cat_files opn (tl argv))"

fun echo_args :: "string list \<Rightarrow> string" where
  "echo_args [] = []"
| "echo_args (a # as) = take (u_strlen a) a @ (if as \<noteq> [] then '' '' else nl) @ echo_args as"

definition echo_main :: "string list \<Rightarrow> result" where
  "echo_main argv = (echo_args (tl argv), 0)"

section \<open>wc\<close>

record wcstate =
  w_lines :: int
  w_words :: int
  w_chars :: int
  w_inword :: bool
  w_longest :: int
  w_curlen :: int

definition wc_step :: "char \<Rightarrow> wcstate \<Rightarrow> wcstate" where
  "wc_step c w0 =
     (let w1 = w0\<lparr>w_chars := w_chars w0 + 1\<rparr>;
          w2 = (if c = CHR 0x0A
            then w1\<lparr>w_lines := w_lines w1 + 1,
                    w_longest := (if w_curlen w1 > w_longest w1 then w_curlen w1 else w_longest w1), w_curlen := 0\<rparr>
            else w1\<lparr>w_curlen := w_curlen w1 + 1\<rparr>)
      in if c = CHR '' '' \<or> c = CHR 0x0D \<or> c = CHR 0x09 \<or> c = CHR 0x0A \<or> c = CHR 0x0B
         then w2\<lparr>w_inword := False\<rparr>
         else if \<not> w_inword w2 then w2\<lparr>w_words := w_words w2 + 1, w_inword := True\<rparr> else w2)"

function wc_loop :: "input \<Rightarrow> wcstate \<Rightarrow> wcstate" where
  "wc_loop xs w = (let (r, ys) = uread 512 xs in if r = [] then w else wc_loop ys (fold wc_step r w))"
  by pat_completeness auto
termination
  by (relation "measure (\<lambda>(xs, w). pending xs)") (auto intro: uread_progress)

declare wc_loop.simps [simp del]

definition wc_start :: wcstate where
  "wc_start = \<lparr>w_lines = 0, w_words = 0, w_chars = 0, w_inword = False, w_longest = 0, w_curlen = 0\<rparr>"

definition wc_count :: "input \<Rightarrow> wcstate" where
  "wc_count xs = (let w = wc_loop xs wc_start in
     if w_curlen w > w_longest w then w\<lparr>w_longest := w_curlen w\<rparr> else w)"

text \<open>The four flags, and the totals over all files.\<close>

record wcflags =
  show_lines :: bool
  show_words :: bool
  show_chars :: bool
  show_longest :: bool

type_synonym wctotals = "int \<times> int \<times> int \<times> int"

definition wc_show :: "wcflags \<Rightarrow> wctotals \<Rightarrow> string" where
  "wc_show f t = (case t of (l, w, c, g) \<Rightarrow>
     (if show_lines f then uprintf ''%d '' [vint l] else []) @
     (if show_words f then uprintf ''%d '' [vint w] else []) @
     (if show_chars f then uprintf ''%d '' [vint c] else []) @
     (if show_longest f then uprintf ''%d '' [vint g] else []))"

definition no_flags :: "wcflags \<Rightarrow> bool" where
  "no_flags f \<longleftrightarrow> \<not> show_lines f \<and> \<not> show_words f \<and> \<not> show_chars f \<and> \<not> show_longest f"

definition wc :: "input \<Rightarrow> string \<Rightarrow> wcflags \<Rightarrow> wctotals \<Rightarrow> string \<times> wctotals" where
  "wc xs name f t = (case t of (tl', tw, tc, tg) \<Rightarrow>
     let w = wc_count xs;
         g = (if no_flags f then \<lparr>show_lines = True, show_words = True, show_chars = True, show_longest = True\<rparr> else f)
     in (wc_show g (w_lines w, w_words w, w_chars w, w_longest w) @ uprintf (''%s'' @ nl) [vstr name],
         (tl' + w_lines w, tw + w_words w, tc + w_chars w, if w_longest w > tg then w_longest w else tg)))"

fun wc_flag :: "char \<Rightarrow> wcflags \<Rightarrow> wcflags" where
  "wc_flag c f =
     (if c = CHR ''l'' then f\<lparr>show_lines := True\<rparr>
      else if c = CHR ''w'' then f\<lparr>show_words := True\<rparr>
      else if c = CHR ''c'' then f\<lparr>show_chars := True\<rparr>
      else if c = CHR ''L'' then f\<lparr>show_longest := True\<rparr>
      else f)"

fun wc_files :: "(string \<Rightarrow> input option) \<Rightarrow> wcflags \<Rightarrow> nat \<Rightarrow> wctotals \<Rightarrow> string list \<Rightarrow> result" where
  "wc_files opn f files t [] =
     (if files > 1
      then (wc_show (if no_flags f then \<lparr>show_lines = True, show_words = True, show_chars = True, show_longest = False\<rparr> else f) t
            @ ''total'' @ nl, 0)
      else ([], 0))"
| "wc_files opn f files t (a # as) = (case opn a of
      None \<Rightarrow> (uprintf (''wc: cannot open %s'' @ nl) [vstr a], 1)
    | Some xs \<Rightarrow>
        let (out, t') = wc xs a f t; (out', st) = wc_files opn f (files + 1) t' as in (out @ out', st))"

definition wc_main :: "(string \<Rightarrow> input option) \<Rightarrow> string list \<Rightarrow> result" where
  "wc_main opn argv =
     (let none = \<lparr>show_lines = False, show_words = False, show_chars = False, show_longest = False\<rparr>;
          flags = length argv > 1 \<and> arg0 (argv ! 1) 0 = CHR ''-'';
          f = (if flags then fold wc_flag (tl (argv ! 1)) none else none);
          as = drop (if flags then 2 else 1) argv
      in if as = [] then (''No files given'' @ nl, 0) else wc_files opn f 0 (0, 0, 0, 0) as)"

section \<open>tail\<close>

definition MAX_LINES :: nat where
  "MAX_LINES = 20"

definition MAX_LINE :: nat where
  "MAX_LINE = 512"

text \<open>The ring of lines; the line being read is in the slot \<open>total % MAX_LINES\<close>, \<open>pos\<close> characters long.\<close>

record tailstate =
  t_lines :: "nat \<Rightarrow> string"
  t_total :: nat
  t_cur :: string

definition tail_step :: "char \<Rightarrow> tailstate \<Rightarrow> tailstate" where
  "tail_step c s =
     (if c = CHR 0x0A
      then s\<lparr>t_lines := (t_lines s)(t_total s mod MAX_LINES := t_cur s), t_total := t_total s + 1, t_cur := []\<rparr>
      else if length (t_cur s) < MAX_LINE - 1 then s\<lparr>t_cur := t_cur s @ [c]\<rparr>
      else s)"

definition tail_last :: "tailstate \<Rightarrow> tailstate" where
  "tail_last s = (if length (t_cur s) > 0
     then s\<lparr>t_lines := (t_lines s)(t_total s mod MAX_LINES := t_cur s), t_total := t_total s + 1\<rparr> else s)"

function tail_loop :: "input \<Rightarrow> tailstate \<Rightarrow> tailstate" where
  "tail_loop xs s = (let (r, ys) = uread 1 xs in if r = [] then s else tail_loop ys (tail_step (hd r) s))"
  by pat_completeness auto
termination
  by (relation "measure (\<lambda>(xs, s). pending xs)") (auto intro: uread_progress)

declare tail_loop.simps [simp del]

definition tail_print :: "int \<Rightarrow> tailstate \<Rightarrow> string" where
  "tail_print n s =
     (let start = (if int (t_total s) > n then int (t_total s) - n else 0)
      in concat (map (\<lambda>i. uprintf (''%s'' @ nl) [vstr (cstring (t_lines s (i mod MAX_LINES)))]) [nat start..<t_total s]))"

definition tail :: "input \<Rightarrow> int \<Rightarrow> string" where
  "tail xs n = tail_print n (tail_last (tail_loop xs \<lparr>t_lines = (\<lambda>_. []), t_total = 0, t_cur = []\<rparr>))"

definition tail_main :: "(string \<Rightarrow> input option) \<Rightarrow> input \<Rightarrow> string list \<Rightarrow> result" where
  "tail_main opn stdin argv =
     (if length argv = 2 \<and> (u_strcmp (argv ! 1) ''?'' = 0 \<or> u_strcmp (argv ! 1) ''-h'' = 0 \<or> u_strcmp (argv ! 1) ''--help'' = 0)
      then (''Usage: tail [-n number] [file]'' @ nl @ ''Print the last lines of a file or stdin.'' @ nl @ nl @ ''Options:'' @ nl @
            ''  -n number   Number of lines to print (default 10)'' @ nl @ ''  ? / -h / --help   Show this help message'' @ nl @ nl @
            ''Examples:'' @ nl @ ''  tail file.txt          # print last 10 lines'' @ nl @
            ''  tail -n 5 file.txt     # print last 5 lines'' @ nl @ ''  tail                   # read from stdin'' @ nl, 0)
      else let flag = length argv > 2 \<and> arg0 (argv ! 1) 0 = CHR ''-'' \<and> arg0 (argv ! 1) 1 = CHR ''n'';
          n = (if flag then atoi (argv ! 2) else 10);
          argv' = (if flag then drop 2 argv else argv)
      in if length argv' > 1
         then (case opn (argv' ! 1) of
             None \<Rightarrow> (uprintf (''tail: cannot open %s'' @ nl) [vstr (argv' ! 1)], 1)
           | Some xs \<Rightarrow> (tail xs n, 0))
         else (tail stdin n, 0))"

section \<open>diff\<close>

definition MAXLINE :: nat where
  "MAXLINE = 512"

text \<open>\<open>readline\<close>: the length it returns, the line in the buffer and what is left to read.\<close>

fun readline_loop :: "nat \<Rightarrow> string \<Rightarrow> input \<Rightarrow> string \<times> input" where
  "readline_loop 0 line xs = (line, xs)"
| "readline_loop (Suc k) line xs = (case uread 1 xs of
      ([], ys) \<Rightarrow> (line, ys)
    | (c # _, ys) \<Rightarrow> if c = CHR 0x0A then (line, ys) else readline_loop k (line @ [c]) ys)"

definition readline :: "input \<Rightarrow> string \<times> input" where
  "readline xs = readline_loop (MAXLINE - 1) [] xs"

lemma readline_loop_pending:
  "readline_loop k line xs = (l, ys) \<Longrightarrow> pending ys \<le> pending xs \<and> (length line < length l \<longrightarrow> pending ys < pending xs)"
proof (induction k arbitrary: line xs)
  case (Suc k)
  obtain r zs where u: "uread 1 xs = (r, zs)" by fastforce
  have pz: "pending zs \<le> pending xs" using uread_concat[of 1 xs] u by (auto simp: pending_def dest!: arg_cong[where f = length])
  show ?case
  proof (cases r)
    case Nil
    then show ?thesis using Suc.prems u pz by auto
  next
    case (Cons c r')
    then have "pending zs < pending xs" using uread_progress[OF u[symmetric]] by simp
    then show ?thesis using Suc.prems Suc.IH[of "line @ [c]" zs] u Cons by (auto split: if_splits)
  qed
qed simp

lemma readline_progress:
  "readline xs = (l, ys) \<Longrightarrow> pending ys \<le> pending xs" "readline xs = (l, ys) \<Longrightarrow> l \<noteq> [] \<Longrightarrow> pending ys < pending xs"
  using readline_loop_pending[of "MAXLINE - 1" "[]" xs l ys] by (auto simp: readline_def)

function diff_loop :: "int \<Rightarrow> nat \<Rightarrow> input \<Rightarrow> input \<Rightarrow> string \<times> nat" where
  "diff_loop line diffcount xs ys =
     (let (b1, xs') = readline xs; (b2, ys') = readline ys in
      if b1 = [] \<and> b2 = [] then ([], diffcount)
      else let (out, d) =
          (if b1 = []
           then (uprintf (''line %d only in file2'' @ nl) [vint line] @ uprintf (''%d > %s'' @ nl @ '' '') [vint line, vstr (cstring b2)],
                 diffcount + 1)
           else if b2 = []
           then (uprintf (''line %d only in file1'' @ nl) [vint line] @ uprintf (''%d < %s'' @ nl) [vint line, vstr (cstring b1)],
                 diffcount + 1)
           else if u_strcmp (cstring b1) (cstring b2) \<noteq> 0
           then (uprintf (''%d < %s'' @ nl) [vint line, vstr (cstring b1)] @ uprintf (''%d > %s'' @ nl) [vint line, vstr (cstring b2)],
                 diffcount + 1)
           else ([], diffcount));
          (out', d') = diff_loop (line + 1) d xs' ys'
        in (out @ out', d'))"
  by pat_completeness auto
termination
proof (relation "measure (\<lambda>(line, d, xs, ys). pending xs + pending ys)", goal_cases)
  case (2 line d xs ys r1 b1 xs' r2 b2 ys')
  then have "readline xs = (b1, xs')" "readline ys = (b2, ys')" "b1 \<noteq> [] \<or> b2 \<noteq> []" by auto
  then show ?case using readline_progress[of xs b1 xs'] readline_progress[of ys b2 ys'] by fastforce
qed simp

declare diff_loop.simps [simp del]

definition diff_main :: "(string \<Rightarrow> input option) \<Rightarrow> string list \<Rightarrow> result" where
  "diff_main opn argv =
     (if length argv = 2 \<and> is_help (argv ! 1)
      then (''Usage: diff file1 file2'' @ nl @ ''Compare two files line by line and show differences.'' @ nl @
            ''Lines unique to each file or differing lines are displayed with line numbers.'' @ nl, 0)
      else if length argv \<noteq> 3 then (''Usage: diff file1 file2'' @ nl, 1)
      else case (opn (argv ! 1), opn (argv ! 2)) of
        (Some xs, Some ys) \<Rightarrow>
          let (out, d) = diff_loop 1 0 xs ys
          in (out @ (if d = 0 then ''Files are identical'' @ nl else []), 0)
      | _ \<Rightarrow> (''diff: cannot open file(s)'' @ nl, 1))"

section \<open>fact and add\<close>

definition ccode :: "char \<Rightarrow> nat" where
  "ccode c = of_char c"

fun fact_loop :: "nat \<Rightarrow> u32 \<Rightarrow> u32 \<Rightarrow> u32" where
  "fact_loop 0 i f = f"
| "fact_loop (Suc k) i f = fact_loop k (i + 1) (f * i)"

definition fact_main :: "string list \<Rightarrow> result" where
  "fact_main argv =
     (if length argv = 2 \<and> is_help (argv ! 1)
      then (''Usage: factorial n'' @ nl @ ''Calculate the factorial of a positive integer n.'' @ nl @
            ''Example: factorial 5  '' @ [CHR 0xE2, CHR 0x86, CHR 0x92] @ ''  outputs 120'' @ nl, 0)
      else if length argv \<noteq> 2 then ([], 1)
      else let n = atoi (argv ! 1); c = ccode (arg0 (argv ! 1) 0) in
      if ccode CHR ''a'' \<le> c \<or> c \<le> ccode CHR ''z'' then ([], 3)
      else if ccode CHR ''A'' \<le> c \<or> c \<le> ccode CHR ''Z'' then ([], 3)
      else if c = ccode CHR ''-'' then ([], 1)
      else if n = 0 then (''1'' @ nl, 0)
      else if n > 0 then (uprintf (''%d'' @ nl) [VInt (fact_loop (nat n) 1 1)], 0)
      else ([], 3))"

definition add_operand :: "string \<Rightarrow> u32" where
  "add_operand a = (if arg0 a 0 = CHR ''-'' then - of_int (atoi (CHR ''0'' # tl a)) else of_int (atoi a))"

definition add_main :: "string list \<Rightarrow> result" where
  "add_main argv =
     (if length argv = 2 \<and> (u_strcmp (argv ! 1) ''?'' = 0 \<or> u_strcmp (argv ! 1) ''-h'' = 0 \<or> u_strcmp (argv ! 1) ''--help'' = 0)
      then (''Usage: add <num1> <num2>'' @ nl @ ''Adds two integers (positive or negative).'' @ nl @ nl @ ''Examples:'' @ nl @
            ''  add 3 4      # output: 7'' @ nl @ ''  add -5 10    # output: 5'' @ nl @
            ''  add ?        # show this help'' @ nl, 0)
      else if length argv \<noteq> 3 then (''add uses three args'' @ nl, 1)
      else let c = ccode (arg0 (argv ! 1) 0) in
      if ccode CHR ''a'' \<le> c \<and> c \<le> ccode CHR ''z'' \<or> ccode CHR ''A'' \<le> c \<and> c \<le> ccode CHR ''Z'' then ([], 3)
      else (uprintf (''%d'' @ nl) [VInt (add_operand (argv ! 1) + add_operand (argv ! 2))], 0))"

section \<open>Reading to the end\<close>

lemma cat_concat: "[] \<notin> set xs \<Longrightarrow> cat xs = concat xs"
proof (induction xs rule: cat.induct)
  case (1 xs)
  obtain r ys where u: "uread 512 xs = (r, ys)" by fastforce
  show ?case
  proof (cases "r = []")
    case True
    then show ?thesis using uread_Nil[OF 1(2), of 512] u by (subst cat.simps) simp
  next
    case False
    then have "cat ys = concat ys" using 1(1)[OF u[symmetric] refl False] uread_nonempty[OF 1(2), of 512] u by simp
    then show ?thesis using uread_concat[of 512 xs] u False by (subst cat.simps) simp
  qed
qed

lemma wc_loop_fold: "[] \<notin> set xs \<Longrightarrow> wc_loop xs w = fold wc_step (concat xs) w"
proof (induction xs w rule: wc_loop.induct)
  case (1 xs w)
  obtain r ys where u: "uread 512 xs = (r, ys)" by fastforce
  have cat: "concat xs = r @ concat ys" using uread_concat[of 512 xs] u by simp
  show ?case
  proof (cases "r = []")
    case True
    then have "concat xs = []" using uread_Nil[OF 1(2), of 512] u by (simp only: fst_conv simp_thms zero_less_numeral)
    then show ?thesis using True u by (subst wc_loop.simps) (simp only: fold_simps, simp)
  next
    case False
    then have "wc_loop ys (fold wc_step r w) = fold wc_step (concat ys) (fold wc_step r w)"
      using 1(1)[OF u[symmetric] refl False] uread_nonempty[OF 1(2), of 512] u by simp
    then show ?thesis using u False cat by (subst wc_loop.simps) simp
  qed
qed

lemma tail_loop_fold: "[] \<notin> set xs \<Longrightarrow> tail_loop xs s = fold tail_step (concat xs) s"
proof (induction xs s rule: tail_loop.induct)
  case (1 xs s)
  obtain r ys where u: "uread 1 xs = (r, ys)" by fastforce
  have cat: "concat xs = r @ concat ys" using uread_concat[of 1 xs] u by simp
  show ?case
  proof (cases r)
    case Nil
    then have "concat xs = []" using uread_Nil[OF 1(2), of 1] u by (simp only: fst_conv simp_thms zero_less_one)
    then show ?thesis using Nil u by (subst tail_loop.simps) (simp only: fold_simps, simp)
  next
    case (Cons c r')
    then have r: "r = [c]" using uread_length[of 1 xs] u by (cases r') auto
    then have "tail_loop ys (tail_step c s) = fold tail_step (concat ys) (tail_step c s)"
      using 1(1)[OF u[symmetric] refl] uread_nonempty[OF 1(2), of 1] u by simp
    then show ?thesis using u r cat by (subst tail_loop.simps) simp
  qed
qed

section \<open>Counting\<close>

definition wspace :: "char \<Rightarrow> bool" where
  "wspace c \<longleftrightarrow> c = CHR '' '' \<or> c = CHR 0x0D \<or> c = CHR 0x09 \<or> c = CHR 0x0A \<or> c = CHR 0x0B"

text \<open>The positions at which a word starts.\<close>

definition word_starts :: "string \<Rightarrow> nat set" where
  "word_starts d = {i. i < length d \<and> \<not> wspace (d ! i) \<and> (i = 0 \<or> wspace (d ! (i - 1)))}"

lemma word_starts_snoc:
  "word_starts (d @ [c]) = word_starts d \<union> (if \<not> wspace c \<and> (d = [] \<or> wspace (last d)) then {length d} else {})"
proof (rule set_eqI)
  fix i
  have l: "last d = d ! (length d - 1)" if "d \<noteq> []" using that by (rule last_conv_nth)
  consider "i < length d" | "i = length d" | "length d < i" by linarith
  then show "i \<in> word_starts (d @ [c]) \<longleftrightarrow>
      i \<in> word_starts d \<union> (if \<not> wspace c \<and> (d = [] \<or> wspace (last d)) then {length d} else {})"
  proof cases
    case 1
    then have "(d @ [c]) ! (i - 1) = d ! (i - 1)" "(d @ [c]) ! i = d ! i" by (auto simp: nth_append)
    with 1 show ?thesis unfolding word_starts_def by auto
  next
    case 2
    then show ?thesis using l by (cases "d = []") (auto simp: word_starts_def nth_append)
  qed (auto simp: word_starts_def)
qed

lemma finite_word_starts [simp]: "finite (word_starts d)" "length d \<notin> word_starts d"
  by (auto simp: word_starts_def)

definition longest :: "string list \<Rightarrow> int" where
  "longest ls = fold (\<lambda>l m. if int (length l) > m then int (length l) else m) ls 0"

lemma nl_snoc:
  "nl_lines [] (d @ [c]) = nl_lines [] d @ (if c = CHR 0x0A then [nl_tail [] d] else [])"
  "nl_tail [] (d @ [c]) = (if c = CHR 0x0A then [] else nl_tail [] d @ [c])"
  by (simp_all add: nl_append)

lemma wc_step_fields:
  "w_chars (wc_step c w) = w_chars w + 1" "w_lines (wc_step c w) = w_lines w + of_bool (c = CHR 0x0A)"
  "w_longest (wc_step c w) = (if c = CHR 0x0A \<and> w_curlen w > w_longest w then w_curlen w else w_longest w)"
  "w_curlen (wc_step c w) = (if c = CHR 0x0A then 0 else w_curlen w + 1)" "w_inword (wc_step c w) = (\<not> wspace c)"
  "w_words (wc_step c w) = w_words w + of_bool (\<not> wspace c \<and> \<not> w_inword w)"
  by (simp_all add: wc_step_def Let_def wspace_def)

lemma wc_fold:
  "let w = fold wc_step d wc_start in
   w_chars w = int (length d) \<and> w_lines w = int (length (nl_lines [] d)) \<and> w_words w = int (card (word_starts d)) \<and>
   w_inword w = (d \<noteq> [] \<and> \<not> wspace (last d)) \<and> w_curlen w = int (length (nl_tail [] d)) \<and>
   w_longest w = longest (nl_lines [] d)"
proof (induction d rule: rev_induct)
  case Nil
  then show ?case by (simp add: wc_start_def longest_def word_starts_def)
next
  case (snoc c d)
  define w where "w = fold wc_step d wc_start"
  have IH: "w_chars w = int (length d)" "w_lines w = int (length (nl_lines [] d))" "w_words w = int (card (word_starts d))"
    "w_inword w = (d \<noteq> [] \<and> \<not> wspace (last d))" "w_curlen w = int (length (nl_tail [] d))"
    "w_longest w = longest (nl_lines [] d)"
    using snoc by (simp_all add: w_def Let_def)
  have s: "fold wc_step (d @ [c]) wc_start = wc_step c w" by (simp add: w_def)
  have ws: "wspace (CHR 0x0A)" by (simp add: wspace_def)
  show ?case
    unfolding s Let_def using ws
    by (cases "c = CHR 0x0A"; cases "wspace c"; cases "d = [] \<or> wspace (last d)")
      (simp_all add: wc_step_fields IH nl_snoc word_starts_snoc longest_def)
qed



section \<open>The last lines\<close>

definition text_lines :: "string \<Rightarrow> string list" where
  "text_lines d = nl_lines [] d @ (if nl_tail [] d \<noteq> [] then [nl_tail [] d] else [])"

lemma nl_lines_set: "l \<in> set (nl_lines acc s) \<Longrightarrow> set l \<subseteq> set acc \<union> set s"
  by (induction s arbitrary: acc) (auto split: if_splits, fastforce+)

lemma text_lines_set: "l \<in> set (text_lines d) \<Longrightarrow> set l \<subseteq> set d"
  using nl_lines_set[of l "[]" d] nl_tail_set[of "[]" d] by (auto simp: text_lines_def split: if_splits)

lemma ring_slot: "i < t \<Longrightarrow> t < i + MAX_LINES \<Longrightarrow> i mod MAX_LINES \<noteq> t mod MAX_LINES"
proof
  assume a: "i < t" "t < i + MAX_LINES" "i mod MAX_LINES = t mod MAX_LINES"
  then have "MAX_LINES dvd t - i" by (metis mod_eq_dvd_iff_nat less_imp_le)
  with a show False by (auto dest!: dvd_imp_le)
qed

text \<open>The ring \<open>f\<close> holds the last \<open>MAX_LINES\<close> of the lines \<open>ls\<close>.\<close>

definition ring_of :: "(nat \<Rightarrow> string) \<Rightarrow> string list \<Rightarrow> bool" where
  "ring_of f ls \<longleftrightarrow> (\<forall>i < length ls. length ls \<le> i + MAX_LINES \<longrightarrow> f (i mod MAX_LINES) = ls ! i)"

lemma ring_of_snoc: "ring_of f ls \<Longrightarrow> ring_of (f(length ls mod MAX_LINES := l)) (ls @ [l])"
  using ring_slot[of _ "length ls"] by (auto simp: ring_of_def nth_append less_Suc_eq)

lemma tail_fold:
  assumes "\<forall>l \<in> set (nl_lines [] d @ [nl_tail [] d]). length l < MAX_LINE"
  shows "let s = fold tail_step d \<lparr>t_lines = f, t_total = 0, t_cur = []\<rparr> in
    t_total s = length (nl_lines [] d) \<and> t_cur s = nl_tail [] d \<and> ring_of (t_lines s) (nl_lines [] d)"
  using assms
proof (induction d rule: rev_induct)
  case Nil
  then show ?case by (simp add: ring_of_def)
next
  case (snoc c d)
  define s where "s = fold tail_step d \<lparr>t_lines = f, t_total = 0, t_cur = []\<rparr>"
  have "\<forall>l \<in> set (nl_lines [] d @ [nl_tail [] d]). length l < MAX_LINE"
    using snoc.prems by (auto simp: nl_snoc split: if_splits)
  then have IH: "t_total s = length (nl_lines [] d)" "t_cur s = nl_tail [] d" "ring_of (t_lines s) (nl_lines [] d)"
    using snoc.IH by (simp_all add: s_def Let_def)
  have e: "fold tail_step (d @ [c]) \<lparr>t_lines = f, t_total = 0, t_cur = []\<rparr> = tail_step c s" by (simp add: s_def)
  show ?case
    unfolding e Let_def
    using ring_of_snoc[OF IH(3), of "nl_tail [] d"] IH snoc.prems
    by (cases "c = CHR 0x0A") (simp_all add: tail_step_def nl_snoc less_diff_conv)
qed

lemma uprintf_line: "uprintf (''%s'' @ nl) [vstr l] = l @ nl"
  by (simp add: uprintf_def nl_def vstr_def char_at_def emit_def)

lemma map_nth_from: "map (\<lambda>i. ls ! i) [k..<length ls] = drop k ls"
proof -
  have "drop k ls = drop k (map (\<lambda>i. ls ! i) [0..<length ls])" by (simp only: map_nth)
  then show ?thesis by (simp add: drop_map)
qed

text \<open>
  C32: \<open>tail\<close> prints the last \<open>n\<close> lines of its input, all of them if there are fewer, the last one
  also when it has no newline, if \<open>n\<close> is at most the size of its ring, the lines fit a slot and
  no NUL byte occurs.
\<close>

theorem tail_prints_last_lines:
  assumes "[] \<notin> set xs" "CHR 0x00 \<notin> set (concat xs)" "\<forall>l \<in> set (text_lines (concat xs)). length l < MAX_LINE"
    and "n \<le> MAX_LINES"
  shows "tail xs (int n) = concat (map (\<lambda>l. l @ nl)
    (drop (length (text_lines (concat xs)) - n) (text_lines (concat xs))))"
proof -
  let ?d = "concat xs" and ?ls = "text_lines (concat xs)"
  define s where "s = fold tail_step ?d \<lparr>t_lines = (\<lambda>_. []), t_total = 0, t_cur = []\<rparr>"
  have "\<forall>l \<in> set (nl_lines [] ?d @ [nl_tail [] ?d]). length l < MAX_LINE"
    using assms(3) by (auto simp: text_lines_def MAX_LINE_def split: if_splits)
  from tail_fold[OF this, of "\<lambda>_. []"]
  have s: "t_total s = length (nl_lines [] ?d)" "t_cur s = nl_tail [] ?d" "ring_of (t_lines s) (nl_lines [] ?d)"
    by (simp_all add: s_def Let_def)
  have t: "t_total (tail_last s) = length ?ls" "ring_of (t_lines (tail_last s)) ?ls"
    using s ring_of_snoc[OF s(3), of "nl_tail [] ?d"] by (auto simp: tail_last_def text_lines_def)
  define k where "k = length ?ls - n"
  have k: "nat (if int (length ?ls) > int n then int (length ?ls) - int n else 0) = k"
    unfolding k_def by (cases "n < length ?ls") auto
  have "uprintf (''%s'' @ nl) [vstr (cstring (t_lines (tail_last s) (i mod MAX_LINES)))] = (?ls ! i) @ nl"
    if "i \<in> set [k..<length ?ls]" for i
  proof -
    have i: "i < length ?ls" "length ?ls \<le> i + MAX_LINES" using that assms(4) by (auto simp: k_def)
    then have "t_lines (tail_last s) (i mod MAX_LINES) = ?ls ! i" using t(2) by (simp add: ring_of_def)
    moreover have "CHR 0x00 \<notin> set (?ls ! i)" using text_lines_set[OF nth_mem[OF i(1)]] assms(2) by blast
    then have "cstring (?ls ! i) = ?ls ! i" unfolding cstring_def takeWhile_eq_all_conv by metis
    ultimately show ?thesis by (simp only: uprintf_line)
  qed
  then have "tail xs (int n) = concat (map (\<lambda>i. (?ls ! i) @ nl) [k..<length ?ls])"
    unfolding tail_def tail_print_def tail_loop_fold[OF assms(1)] s_def[symmetric] t(1) Let_def k
    by (intro arg_cong[where f = concat] map_cong refl) simp
  also have "map (\<lambda>i. (?ls ! i) @ nl) [k..<length ?ls] = map (\<lambda>l. l @ nl) (map (\<lambda>i. ?ls ! i) [k..<length ?ls])" by simp
  finally show ?thesis by (simp only: map_nth_from k_def)
qed

theorem tail_prints_last_lines_witness:
  "tail [''a'' @ nl @ ''b'', nl @ ''c''] 2 = ''b'' @ nl @ ''c'' @ nl"
  using tail_prints_last_lines[of "[''a'' @ nl @ ''b'', nl @ ''c'']" 2]
  by (simp add: text_lines_def nl_def MAX_LINES_def MAX_LINE_def)

section \<open>Two faults\<close>

text \<open>
  C34: \<open>diff\<close> takes an empty line for the end of the file. Two files that start with an empty line
  are reported as identical whatever follows.
\<close>

theorem diff_stops_at_empty_line:
  assumes "opn f = Some [nl @ a]" "opn g = Some [nl @ b]"
  shows "diff_main opn [p, f, g] = (''Files are identical'' @ nl, 0)"
proof -
  have "fst (readline [nl @ a]) = []" for a
    by (simp add: readline_def nl_def MAXLINE_def eval_nat_numeral)
  then have "diff_loop 1 0 [nl @ a] [nl @ b] = ([], 0)"
    by (subst diff_loop.simps) (simp add: split_beta)
  then show ?thesis using assms by (simp add: diff_main_def)
qed

theorem diff_stops_at_empty_line_witness:
  "diff_main (\<lambda>f. if f = ''x'' then Some [nl @ ''1''] else Some [nl @ ''2'']) [''diff'', ''x'', ''y''] =
    (''Files are identical'' @ nl, 0)"
  using diff_stops_at_empty_line[of "\<lambda>f. if f = ''x'' then Some [nl @ ''1''] else Some [nl @ ''2'']" "''x''" "''1''" "''y''" "''2''"]
  by simp

text \<open>
  C35: \<open>fact\<close> rejects every number: its test for a letter holds for every character, since each is
  at least \<open>a\<close> or at most \<open>z\<close>. Whatever the argument, unless it asks for help, \<open>fact\<close> prints
  nothing and exits with status 3.
\<close>

theorem fact_rejects_all:
  assumes "\<not> is_help a"
  shows "fact_main [p, a] = ([], 3)"
  using assms by (simp add: fact_main_def Let_def ccode_def linorder_not_le)

theorem fact_rejects_all_witness: "fact_main [''fact'', ''5''] = ([], 3)"
  using fact_rejects_all[of "''5''" "''fact''"] by (simp add: is_help_def arg0_def)

end
