(* ===== verification/Spec2Isabelle.thy ===== *)
theory Spec2Isabelle
  imports Trap Pipe Crash Utils
begin

text \<open>
  A verification library for the operating system under \<open>src/\<close>: the kernel in \<open>src/kernel\<close>, a
  teaching Unix for RISC-V with a scheduler of three policies, and programs of \<open>src/user\<close>.

  \<^bold>\<open>The model.\<close> Kernel code is a program of type \<open>('s, 'a) prog\<close> (theory Prelude): from a state it
  returns (\<open>Ret\<close>), panics (\<open>Panic\<close>), gives up the processor (\<open>Switch\<close>) or spins for ever (\<open>Spin\<close>).
  The state is one record that grows from theory to theory, in the order in which the kernel's
  parts are stacked: the machine with its processors and spin locks, memory and the page allocator,
  virtual memory, the console device, processes, sleep locks, the buffer cache and the disk, the
  log, the inodes, the console, open files and pipes, the disk driver, statistics, traps. Words
  keep their width. A call of \<open>sched\<close> ends a run with \<open>Switch\<close>; \<open>while (c) sleep(..)\<close> is therefore
  \<open>sleep\<close> once if \<open>c\<close> holds, and what follows after a wake-up is a new run. A user program is a
  function from its arguments and input to what it prints and its exit status.

  \<^bold>\<open>The theories\<close>, with the files they model and what they prove.
  \<^item> Prelude: outcomes, weakest preconditions (\<open>wp\<close>), frames (\<open>keeps\<close>), loops, \<open>kernel/param.h\<close>.
  \<^item> Spinlock (\<open>spinlock.c\<close>): \<open>acquire\<close>, \<open>release\<close>, \<open>push_off\<close>, \<open>pop_off\<close>. At most one processor is in a
    critical section under any interleaving of the atomic steps; interrupts are restored; misuse panics.
  \<^item> Cstring (\<open>string.c\<close>): \<open>memmove\<close> is right for every overlap, \<open>safestrcpy\<close> always terminates its string.
  \<^item> Kalloc (\<open>kalloc.c\<close>): the free list threaded through free pages represents a list of distinct
    pages; \<open>kinit\<close> frees every page, \<open>kalloc\<close> never hands out a page twice.
  \<^item> Vm, Vmmap, Vmcopy (\<open>vm.c\<close>): three-level page tables represent a map from virtual pages;
    \<open>mappages\<close> and \<open>uvmunmap\<close> change it on exactly their range, \<open>copyin\<close> and \<open>copyout\<close> move exactly
    the bytes of the user's buffer.
  \<^item> Printf (\<open>printf.c\<close>, output of \<open>uart.c\<close>): what \<open>printint\<close> prints reads back; an overflow of its buffer.
  \<^item> Frame: which parts of the state an operation leaves alone.
  \<^item> Proc, Lifecycle (\<open>proc.c\<close>): the scheduler's choice under each policy, a process runs on at most
    one processor (a step relation with an invariant), no wake-up is lost, \<open>kill\<close>; Lifecycle has
    \<open>fork\<close>, \<open>exit\<close>, \<open>wait\<close>, \<open>growproc\<close>.
  \<^item> Sleeplock (\<open>sleeplock.c\<close>): a released lock wakes its waiters.
  \<^item> Bio, Bcache (\<open>bio.c\<close>): the linked buffers are a list in order of last use; the cache is
    transparent: a reader gets the block, in the cache or on the disk.
  \<^item> Log, Crash (\<open>log.c\<close>): transactions are atomic under a crash at any disk write of a commit or of a
    recovery.
  \<^item> Fs (\<open>fs.c\<close>), Sysfile (\<open>sysfile.c\<close>), Exec (\<open>exec.c\<close>), Syscall (\<open>syscall.c\<close>, \<open>sysproc.c\<close> and the small
    system calls), Console (\<open>console.c\<close>, \<open>uart.c\<close>), Virtio (\<open>virtio_disk.c\<close>), Trap (\<open>trap.c\<close>, \<open>plic.c\<close>,
    \<open>start.c\<close>, \<open>main.c\<close>): the code as definitions, ready to run, with the termination of their loops.
  \<^item> File, Ring, Pipe (\<open>file.c\<close>, \<open>pipe.c\<close>): the locale \<open>ring\<close> is a bounded queue in an array with
    counters that wrap; it is interpreted for pipes, console input and UART output. \<open>pipewrite\<close>
    appends to that queue and \<open>piperead\<close> takes from it, on every path.
  \<^item> Datetime (\<open>datetime.c\<close>): timestamps and calendar dates correspond one to one.
  \<^item> Example: a concrete state in which the hypotheses of the upper layers hold.
  \<^item> Ulib (\<open>user/ulib.c\<close>, \<open>user/printf.c\<close>), Grep (\<open>user/grep.c\<close>), Utils (\<open>cat\<close>, \<open>echo\<close>, \<open>wc\<close>, \<open>tail\<close>, \<open>diff\<close>,
    \<open>fact\<close>, \<open>add\<close>): the matcher decides the language of its pattern, the filters do what they
    promise however the input arrives, and two programs do not.

  \<^bold>\<open>Loops and bounds.\<close> Loops over arrays and lists are structural. A walk along the list of
  buffers has \<open>NBUF + 1\<close> turns, which is enough since the list holds each buffer once
  (\<open>bscan_forward\<close>). \<open>freewalk\<close> descends three levels, the depth of a page table. The loops of
  \<open>uartstart\<close>, \<open>uartintr\<close>, the console's line kill, \<open>free_chain\<close> and \<open>virtio_disk_intr\<close> are bounded by
  the size of the ring or table they empty. Loops that read user input stop when the input does;
  their termination is proved from the bytes that are left. Where the code would spin on a
  condition that no one else can change in the same run, the outcome is \<open>Spin\<close>.

  \<^bold>\<open>Devices.\<close> The UART answers its registers as a 16550 does, the disk serves a block request as the
  virtio specification says, the PLIC hands out pending interrupts. Every write of a block is
  recorded in \<open>dwrites\<close>, and a crash keeps a prefix of it.

  \<^bold>\<open>Not modelled.\<close> The assembly (\<open>entry.S\<close>, \<open>swtch.S\<close>, \<open>kernelvec.S\<close>, \<open>trampoline.S\<close>, \<open>initcode.S\<close>), whose
  effect on the rest is the outcome \<open>Switch\<close> and the trap frame. Weak memory: the atomic steps of
  processors interleave. The shell and \<open>umalloc.c\<close>; the file utilities, which only issue
  system calls; the test programs, which have no contract of their own. The time between the
  runs of different processes appears only where a step relation is given (spin locks, the
  scheduler).
\<close>

end
